(* ===== verification/Go_Prelude.thy ===== *)
theory Go_Prelude
  imports Main "HOL-Library.Word"
begin

text \<open>
  Shared vocabulary of the development: the machine integers and byte slices of the Go
  sources, the byte orders of the package \<^verbatim>\<open>encoding/binary\<close>, the \<^verbatim>\<open>io.Writer\<close> and
  \<^verbatim>\<open>io.Reader\<close> conventions, and the interfaces that several components implement:

  \<^item> \<open>fixed_codec\<close>: a record type with a fixed-width wire image (the controller input
    states, the isochronous packet descriptors, the canonical feedback frames), which stands
    at a multiple of the width in a stream of such records;
  \<^item> \<open>op_invariant\<close> and \<open>op_machine\<close>: an object driven by a list of operations, with an
    invariant;
  \<^item> \<open>byte_source\<close>: a connection that delivers its pending bytes in pieces of its own
    choice; its clients are the read loops of \<^verbatim>\<open>usbip.ReadExactly\<close> and \<^verbatim>\<open>io.ReadFull\<close>.

  The collection \<open>wire_simps\<close> holds the length, slicing and round-trip laws of byte
  layouts that the codec proofs of all components use.
\<close>

unbundle bit_operations_syntax

named_theorems wire_simps \<open>lengths, slices and round trips of wire layouts\<close>

section \<open>Machine integers and byte slices\<close>

type_synonym u8 = "8 word"
type_synonym u16 = "16 word"
type_synonym u32 = "32 word"
type_synonym u64 = "64 word"
type_synonym bytes = "8 word list"

text \<open>\<open>slice b i j\<close> is Go's \<open>b[i:j]\<close> for \<open>i \<le> j \<le> len(b)\<close>; every use in the models
  stands behind the length check that the source makes first.\<close>

definition slice :: "'a list \<Rightarrow> nat \<Rightarrow> nat \<Rightarrow> 'a list" where
  "slice b i j = take (j - i) (drop i b)"

text \<open>\<open>copy_into dst src\<close> is the array \<open>dst\<close> after Go's \<open>copy(dst, src)\<close>.\<close>

definition copy_into :: "'a list \<Rightarrow> 'a list \<Rightarrow> 'a list" where
  "copy_into dst src = take (length dst) src @ drop (length src) dst"

text \<open>The byte orders: \<open>le_bytes n\<close> is \<open>LittleEndian.PutUint\<close> at width \<open>8 * n\<close>,
  \<open>le_word\<close> the matching \<open>LittleEndian.Uint\<close>; \<open>be_bytes\<close> and \<open>be_word\<close> are the
  \<open>BigEndian\<close> ones.\<close>

fun le_bytes :: "nat \<Rightarrow> 'a::len word \<Rightarrow> bytes" where
  "le_bytes 0 v = []"
| "le_bytes (Suc n) v = ucast v # le_bytes n (drop_bit 8 v)"

fun le_word :: "bytes \<Rightarrow> 'a::len word" where
  "le_word [] = 0"
| "le_word (b # bs) = ucast b OR push_bit 8 (le_word bs)"

definition be_bytes :: "nat \<Rightarrow> 'a::len word \<Rightarrow> bytes" where
  "be_bytes n v = rev (le_bytes n v)"

definition be_word :: "bytes \<Rightarrow> 'a::len word" where
  "be_word bs = le_word (rev bs)"

abbreviation zeros :: "nat \<Rightarrow> bytes" where
  "zeros n \<equiv> replicate n 0"

abbreviation bool_byte :: "bool \<Rightarrow> u8" where
  "bool_byte b \<equiv> (if b then 1 else 0)"

lemma length_le_bytes [simp, wire_simps]: "length (le_bytes n v) = n"
  by (induction n arbitrary: v) auto

lemma length_be_bytes [simp, wire_simps]: "length (be_bytes n v) = n"
  by (simp add: be_bytes_def)

lemma nth_le_bytes: "k < n \<Longrightarrow> le_bytes n v ! k = ucast (drop_bit (8 * k) v)"
proof (induction n arbitrary: v k)
  case 0
  then show ?case by simp
next
  case (Suc n)
  then show ?case
    by (cases k) (simp_all add: drop_bit_drop_bit add.commute)
qed

lemma bit_le_word:
  "bit (le_word bs :: 'a::len word) m \<longleftrightarrow>
     m < LENGTH('a) \<and> m div 8 < length bs \<and> bit (bs ! (m div 8)) (m mod 8)"
proof (induction bs arbitrary: m)
  case Nil
  then show ?case by simp
next
  case (Cons b bs)
  show ?case
  proof (cases "m < 8")
    case True
    then show ?thesis by (auto simp: bit_simps)
  next
    case False
    then obtain k where k: "m = k + 8" by (metis add.commute le_Suc_ex not_less)
    then have "m div 8 = Suc (k div 8)" "m mod 8 = k mod 8" by simp_all
    then show ?thesis using k Cons.IH [of k]
      by (auto simp: bit_simps dest: bit_imp_le_length)
  qed
qed

lemma le_word_le_bytes [simp, wire_simps]:
  fixes v :: "'a::len word"
  assumes "LENGTH('a) = 8 * n"
  shows "le_word (le_bytes n v) = v"
proof (rule bit_word_eqI)
  fix m assume m: "m < LENGTH('a)"
  with assms have d: "m div 8 < n" by simp
  have "bit (le_bytes n v ! (m div 8)) (m mod 8) = bit v (8 * (m div 8) + m mod 8)"
    using d by (simp add: nth_le_bytes bit_simps)
  then show "bit (le_word (le_bytes n v) :: 'a word) m = bit v m"
    using m d by (simp add: bit_le_word)
qed

lemma le_bytes_le_word [simp, wire_simps]:
  assumes "LENGTH('a::len) = 8 * length bs" and "length bs = n"
  shows "le_bytes n (le_word bs :: 'a word) = bs"
proof (rule nth_equalityI)
  show "length (le_bytes n (le_word bs :: 'a word)) = length bs"
    using assms by simp
next
  fix k assume "k < length (le_bytes n (le_word bs :: 'a word))"
  then have k: "k < n" by simp
  show "le_bytes n (le_word bs :: 'a word) ! k = bs ! k"
  proof (rule bit_word_eqI)
    fix m assume "m < LENGTH(8)"
    then have m: "m < 8" by simp
    then have "(8 * k + m) div 8 = k" "(8 * k + m) mod 8 = m" by simp_all
    moreover have "8 * k + m < LENGTH('a)" using k m assms by simp
    ultimately show "bit (le_bytes n (le_word bs :: 'a word) ! k) m = bit (bs ! k) m"
      using k m assms by (simp add: nth_le_bytes bit_simps bit_le_word)
  qed
qed

lemma be_word_be_bytes [simp, wire_simps]:
  "LENGTH('a::len) = 8 * n \<Longrightarrow> be_word (be_bytes n (v :: 'a word)) = v"
  by (simp add: be_word_def be_bytes_def)

lemma be_bytes_be_word [simp, wire_simps]:
  "LENGTH('a::len) = 8 * length bs \<Longrightarrow> length bs = n \<Longrightarrow>
     be_bytes n (be_word bs :: 'a word) = bs"
  by (simp add: be_word_def be_bytes_def)

subsection \<open>Slices of concatenated fields\<close>

lemma length_slice [simp, wire_simps]:
  "j \<le> length b \<Longrightarrow> length (slice b i j) = j - i"
  by (simp add: slice_def)

lemma slice_append_skip [simp, wire_simps]:
  "length p \<le> i \<Longrightarrow> slice (p @ q) i j = slice q (i - length p) (j - length p)"
  by (simp add: slice_def)

lemma slice_append_hit [simp, wire_simps]:
  "length p = j \<Longrightarrow> slice (p @ q) 0 j = p"
  by (simp add: slice_def)

lemma slice_append_within [simp, wire_simps]:
  "j \<le> length p \<Longrightarrow> slice (p @ q) 0 j = slice p 0 j"
  by (simp add: slice_def)

lemma slice_all [simp, wire_simps]: "length p \<le> j \<Longrightarrow> slice p 0 j = p"
  by (simp add: slice_def)

lemma slice_Cons_skip [simp, wire_simps]:
  "0 < i \<Longrightarrow> slice (x # q) i j = slice q (i - 1) (j - 1)"
  by (simp add: slice_def drop_Cons')

lemma slice_split: "i \<le> j \<Longrightarrow> j \<le> k \<Longrightarrow> slice b i j @ slice b j k = slice b i k"
proof -
  assume ij: "i \<le> j" "j \<le> k"
  then have "slice b j k = take (k - j) (drop (j - i) (drop i b))"
    by (simp add: slice_def)
  moreover have "take (j - i) (drop i b) @ take (k - j) (drop (j - i) (drop i b))
      = take ((j - i) + (k - j)) (drop i b)"
    by (simp add: take_add)
  ultimately show ?thesis using ij by (simp add: slice_def)
qed

lemma slice_join: "i \<le> j \<Longrightarrow> j \<le> k \<Longrightarrow> slice b i j @ slice b j k @ xs = slice b i k @ xs"
  using slice_split [of i j k b] by (simp flip: append_assoc)

lemma slice_single: "i < length b \<Longrightarrow> slice b i (Suc i) = [b ! i]"
  by (simp add: slice_def take_Suc hd_drop_conv_nth)

lemma le_bytes_of_word:
  "(le_word bs :: 'a::len word) = v \<Longrightarrow> LENGTH('a) = 8 * length bs \<Longrightarrow> length bs = n \<Longrightarrow>
   le_bytes n v = bs"
  by (erule subst) (rule le_bytes_le_word)

text \<open>Reading a layout from the front: the first field and the rest.\<close>

lemma split_at: "n \<le> length w \<Longrightarrow> length x = n \<Longrightarrow> w = x @ y \<longleftrightarrow> slice w 0 n = x \<and> drop n w = y"
  by (auto simp: slice_def) (metis append_take_drop_id)

lemma le_field_iff:
  fixes a :: "'a::len word"
  assumes "LENGTH('a) = 8 * n" "n \<le> length w"
  shows "w = le_bytes n a @ y \<longleftrightarrow> a = le_word (slice w 0 n) \<and> drop n w = y"
proof
  assume "w = le_bytes n a @ y"
  then show "a = le_word (slice w 0 n) \<and> drop n w = y" using assms(1) by simp
next
  assume h: "a = le_word (slice w 0 n) \<and> drop n w = y"
  then have "le_bytes n a = slice w 0 n" using assms by simp
  then show "w = le_bytes n a @ y" using h append_take_drop_id [of n w] by (simp add: slice_def)
qed

lemma le_field_end_iff:
  fixes a :: "'a::len word"
  assumes "LENGTH('a) = 8 * n" "length w = n"
  shows "w = le_bytes n a \<longleftrightarrow> a = le_word (slice w 0 n)"
  using le_field_iff [of n w a "[]"] assms by simp

lemma slice_drop: "slice (drop k w) i j = slice w (k + i) (k + j)"
  by (simp add: slice_def add.commute)

lemma length_copy_into [simp, wire_simps]: "length (copy_into dst src) = length dst"
  by (simp add: copy_into_def)

lemma copy_into_full: "length src = length dst \<Longrightarrow> copy_into dst src = src"
  by (simp add: copy_into_def)

lemma copy_into_short:
  "length src \<le> length dst \<Longrightarrow> copy_into dst src = src @ drop (length src) dst"
  by (simp add: copy_into_def)

section \<open>Writers\<close>

text \<open>An \<^verbatim>\<open>io.Writer\<close> is a function from the bytes of one \<open>Write\<close> call and the state of
  the sink to an optional error and the new state. The wire types of the sources write
  field by field and return at the first error.\<close>

type_synonym ('w, 'e) writer = "bytes \<Rightarrow> 'w \<Rightarrow> 'e option \<times> 'w"

fun write_seq :: "('w, 'e) writer \<Rightarrow> bytes list \<Rightarrow> 'w \<Rightarrow> 'e option \<times> 'w" where
  "write_seq w [] s = (None, s)"
| "write_seq w (c # cs) s =
     (case w c s of
        (Some e, s') \<Rightarrow> (Some e, s')
      | (None, s') \<Rightarrow> write_seq w cs s')"

text \<open>Two sinks: a growing buffer that never fails, and a sink that takes \<open>n\<close> more bytes
  and reports an error on the write that does not fit (after taking what fits).\<close>

definition buffer_writer :: "(bytes, 'e) writer" where
  "buffer_writer c s = (None, s @ c)"

definition limited_writer :: "(bytes \<times> nat, unit) writer" where
  "limited_writer c = (\<lambda>(s, n). if length c \<le> n then (None, (s @ c, n - length c))
     else (Some (), (s @ take n c, 0)))"

lemma write_seq_buffer: "write_seq buffer_writer cs s = (None, s @ concat cs)"
  by (induction cs arbitrary: s) (auto simp: buffer_writer_def)

lemma write_seq_limited:
  "write_seq limited_writer cs (s, n) =
     (if length (concat cs) \<le> n then (None, (s @ concat cs, n - length (concat cs)))
      else (Some (), (s @ take n (concat cs), 0)))"
  by (induction cs arbitrary: s n) (auto simp: limited_writer_def)

section \<open>Fixed-width codecs\<close>

locale fixed_codec =
  fixes enc :: "'a \<Rightarrow> bytes"
    and dec :: "bytes \<Rightarrow> 'e + 'a"
    and width :: nat
    and wf :: "'a \<Rightarrow> bool"
  assumes width_pos: "0 < width"
    and enc_width: "wf x \<Longrightarrow> length (enc x) = width"
    and dec_enc: "wf x \<Longrightarrow> dec (enc x) = Inr x"
begin

lemma enc_inj: "wf x \<Longrightarrow> wf y \<Longrightarrow> enc x = enc y \<Longrightarrow> x = y"
  by (metis dec_enc sum.inject(2))

lemma enc_prefix_free:
  assumes "wf x" "wf y" "enc x @ p = enc y @ q"
  shows "x = y \<and> p = q"
proof -
  have "length (enc x) = length (enc y)" using assms enc_width by simp
  with assms(3) have "enc x = enc y" "p = q" by simp_all
  then show ?thesis using assms enc_inj by blast
qed

text \<open>The records of a stream stand at the multiples of the width.\<close>

lemma slice_image:
  assumes "\<forall>x\<in>set xs. wf x" "i < length xs"
  shows "slice (concat (map enc xs) @ tail) (i * width) (i * width + width) = enc (xs ! i)"
  using assms
proof (induction xs arbitrary: i)
  case Nil
  then show ?case by simp
next
  case (Cons x xs)
  then have x: "length (enc x) = width" using enc_width by simp
  show ?case
  proof (cases i)
    case 0
    then show ?thesis using x by (simp add: slice_def)
  next
    case (Suc j)
    then have "slice (concat (map enc xs) @ tail) (j * width) (j * width + width) = enc (xs ! j)"
      using Cons by simp
    then show ?thesis using x Suc by (simp add: slice_def)
  qed
qed

lemma image_length: "\<forall>x\<in>set xs. wf x \<Longrightarrow> length (concat (map enc xs)) = length xs * width"
  by (induction xs) (simp_all add: enc_width)

end

section \<open>Readers\<close>

text \<open>An \<^verbatim>\<open>io.Reader\<close>: a request for at most \<open>k\<close> bytes returns some bytes and an optional
  error. A \<open>byte_source\<close> delivers a pending byte sequence: while bytes are pending it
  returns a nonempty piece of them and no error, afterwards it returns an error.\<close>

type_synonym ('s, 'e) reader = "nat \<Rightarrow> 's \<Rightarrow> (bytes \<times> 'e option) \<times> 's"

locale byte_source =
  fixes rd :: "('s, 'e) reader"
    and pending :: "'s \<Rightarrow> bytes"
  assumes rd_some: "0 < k \<Longrightarrow> pending s \<noteq> [] \<Longrightarrow>
      \<exists>m s'. rd k s = ((take m (pending s), None), s') \<and> 0 < m \<and> m \<le> k \<and>
        m \<le> length (pending s) \<and> pending s' = drop m (pending s)"
    and rd_end: "0 < k \<Longrightarrow> pending s = [] \<Longrightarrow>
      \<exists>e s'. rd k s = (([], Some e), s') \<and> pending s' = []"

text \<open>A TCP connection as its list of arrived segments, the concrete source.\<close>

fun segment_read :: "(bytes list, unit) reader" where
  "segment_read k [] = (([], Some ()), [])"
| "segment_read k (seg # segs) =
     (if seg = [] then segment_read k segs
      else ((take k seg, None), if length seg \<le> k then segs else drop k seg # segs))"

lemma segment_read_some:
  "0 < k \<Longrightarrow> concat segs \<noteq> [] \<Longrightarrow>
     \<exists>m s'. segment_read k segs = ((take m (concat segs), None), s') \<and> 0 < m \<and> m \<le> k \<and>
       m \<le> length (concat segs) \<and> concat s' = drop m (concat segs)"
proof (induction segs)
  case Nil
  then show ?case by simp
next
  case (Cons seg segs)
  show ?case
  proof (cases "seg = []")
    case True
    then show ?thesis using Cons by simp
  next
    case False
    define m where "m = min k (length seg)"
    have "0 < m" "m \<le> k" "m \<le> length (concat (seg # segs))"
      using False Cons.prems by (auto simp: m_def)
    moreover have "take k seg = take m (concat (seg # segs))" by (simp add: m_def min_def)
    moreover have "concat (if length seg \<le> k then segs else drop k seg # segs)
        = drop m (concat (seg # segs))" by (simp add: m_def min_def)
    ultimately show ?thesis using False
      by (intro exI [of _ m] exI [of _ "if length seg \<le> k then segs else drop k seg # segs"])
        simp
  qed
qed

lemma segment_read_end:
  "concat segs = [] \<Longrightarrow> \<exists>s'. segment_read k segs = (([], Some ()), s') \<and> concat s' = []"
  by (induction segs) auto

interpretation tcp: byte_source segment_read concat
  using segment_read_some segment_read_end by unfold_locales blast+

section \<open>Machines driven by operations\<close>

text \<open>Several components are objects whose operations arrive in any order. A run is the fold of
  a step function over the list of operations; an invariant that holds at the start and survives
  every operation holds after every run.\<close>

locale op_invariant =
  fixes step :: "'o \<Rightarrow> 's \<Rightarrow> 's"
    and inv :: "'s \<Rightarrow> bool"
  assumes inv_step: "inv s \<Longrightarrow> inv (step x s)"
begin

lemma inv_fold: "inv s \<Longrightarrow> inv (fold step ops s)"
  by (induction ops arbitrary: s) (simp_all add: inv_step)

end

locale op_machine = op_invariant step inv
  for step :: "'o \<Rightarrow> 's \<Rightarrow> 's" and inv :: "'s \<Rightarrow> bool" +
  fixes start :: 's
  assumes inv_start: "inv start"
begin

lemma inv_run: "inv (fold step ops start)"
  by (rule inv_fold) (rule inv_start)

end

section \<open>Small words\<close>

lemma unat_of_nat_less: "n < 2 ^ LENGTH('a) \<Longrightarrow> unat (of_nat n :: 'a::len word) = n"
  by (simp add: unat_of_nat)

end
