(* ===== verification/Usbip_Wire.thy ===== *)
theory Usbip_Wire
  imports Go_Prelude
begin

text \<open>
  The USB/IP wire format of \<^verbatim>\<open>usbip/usbip.go\<close>: the management headers and device entries,
  the URB command and reply headers (48 bytes each), the isochronous packet descriptors
  (16 bytes each), \<^verbatim>\<open>ReadExactly\<close>, and \<^verbatim>\<open>io.ReadFull\<close> as its callers use it. All numbers are big-endian. Each \<open>Write\<close> method is
  the list of the \<^verbatim>\<open>io.Writer\<close> calls it makes, run by \<open>write_seq\<close>. Go's \<open>int32\<close> fields are
  32-bit words read by \<open>sint\<close>; a fixed array field is a byte list whose length the
  well-formedness predicate of its record states.
\<close>

section \<open>Constants and record types\<close>

definition Version :: u16 where "Version = 0x0111"
definition OpReqDevlist :: u16 where "OpReqDevlist = 0x8005"
definition OpRepDevlist :: u16 where "OpRepDevlist = 0x0005"
definition OpReqImport :: u16 where "OpReqImport = 0x8003"
definition OpRepImport :: u16 where "OpRepImport = 0x0003"
definition CmdSubmitCode :: u32 where "CmdSubmitCode = 1"
definition CmdUnlinkCode :: u32 where "CmdUnlinkCode = 2"
definition RetSubmitCode :: u32 where "RetSubmitCode = 3"
definition RetUnlinkCode :: u32 where "RetUnlinkCode = 4"
definition DirOut :: u32 where "DirOut = 0"
definition DirIn :: u32 where "DirIn = 1"

lemmas usbip_consts = Version_def OpReqDevlist_def OpRepDevlist_def OpReqImport_def
  OpRepImport_def CmdSubmitCode_def CmdUnlinkCode_def RetSubmitCode_def RetUnlinkCode_def
  DirOut_def DirIn_def

record MgmtHeader =
  mh_Version :: u16
  mh_Command :: u16
  mh_Status :: u32

record DevListReplyHeader =
  NDevices :: u32

record ExportMeta =
  em_Path :: bytes      \<comment> \<open>\<open>[256]byte\<close>\<close>
  em_USBBusID :: bytes  \<comment> \<open>\<open>[32]byte\<close>\<close>
  em_BusID :: u32
  em_DevID :: u32

record InterfaceDesc =
  id_Class :: u8
  id_SubClass :: u8
  id_Protocol :: u8

record ExportedDevice =
  ed_Meta :: ExportMeta
  ed_Speed :: u32
  ed_IDVendor :: u16
  ed_IDProduct :: u16
  ed_BcdDevice :: u16
  ed_BDeviceClass :: u8
  ed_BDeviceSubClass :: u8
  ed_BDeviceProtocol :: u8
  ed_BConfigurationValue :: u8
  ed_BNumConfigurations :: u8
  ed_BNumInterfaces :: u8
  ed_Interfaces :: "InterfaceDesc list"

record HeaderBasic =
  hb_Command :: u32
  hb_Seqnum :: u32
  hb_Devid :: u32
  hb_Dir :: u32
  hb_Ep :: u32

record CmdSubmit =
  cs_Basic :: HeaderBasic
  cs_TransferFlags :: u32
  cs_TransferBufferLen :: u32
  cs_StartFrame :: u32
  cs_NumberOfPackets :: u32
  cs_Interval :: u32
  cs_Setup :: bytes     \<comment> \<open>\<open>[8]byte\<close>\<close>

record RetSubmit =
  rs_Basic :: HeaderBasic
  rs_Status :: u32
  rs_ActualLength :: u32
  rs_StartFrame :: u32
  rs_NumberOfPackets :: u32
  rs_ErrorCount :: u32
  rs_Padding :: bytes   \<comment> \<open>\<open>[8]byte\<close>\<close>

record IsoPacketDescriptor =
  iso_Offset :: u32
  iso_Length :: u32
  iso_ActualLength :: u32
  iso_Status :: u32

definition IsoPacketDescriptorSize :: nat where "IsoPacketDescriptorSize = 16"

record CmdUnlink =
  cu_Basic :: HeaderBasic
  cu_UnlinkSeqnum :: u32
  cu_Padding :: bytes   \<comment> \<open>\<open>[24]byte\<close>\<close>

record RetUnlink =
  ru_Basic :: HeaderBasic
  ru_Status :: u32
  ru_Padding :: bytes   \<comment> \<open>\<open>[24]byte\<close>\<close>

definition wf_ExportMeta :: "ExportMeta \<Rightarrow> bool" where
  "wf_ExportMeta m \<longleftrightarrow> length (em_Path m) = 256 \<and> length (em_USBBusID m) = 32"

definition wf_ExportedDevice :: "ExportedDevice \<Rightarrow> bool" where
  "wf_ExportedDevice d \<longleftrightarrow> wf_ExportMeta (ed_Meta d)"

definition wf_CmdSubmit :: "CmdSubmit \<Rightarrow> bool" where
  "wf_CmdSubmit c \<longleftrightarrow> length (cs_Setup c) = 8"

definition wf_RetSubmit :: "RetSubmit \<Rightarrow> bool" where
  "wf_RetSubmit r \<longleftrightarrow> length (rs_Padding r) = 8"

definition wf_CmdUnlink :: "CmdUnlink \<Rightarrow> bool" where
  "wf_CmdUnlink c \<longleftrightarrow> length (cu_Padding c) = 24"

definition wf_RetUnlink :: "RetUnlink \<Rightarrow> bool" where
  "wf_RetUnlink r \<longleftrightarrow> length (ru_Padding r) = 24"

lemmas usbip_wf_defs = wf_ExportMeta_def wf_ExportedDevice_def wf_CmdSubmit_def
  wf_RetSubmit_def wf_CmdUnlink_def wf_RetUnlink_def

section \<open>The Write methods\<close>

definition MgmtHeader_chunks :: "MgmtHeader \<Rightarrow> bytes list" where
  "MgmtHeader_chunks h =
     [be_bytes 2 (mh_Version h) @ be_bytes 2 (mh_Command h) @ be_bytes 4 (mh_Status h)]"

definition MgmtHeader_Write :: "('w, 'e) writer \<Rightarrow> MgmtHeader \<Rightarrow> 'w \<Rightarrow> 'e option \<times> 'w" where
  "MgmtHeader_Write w h = write_seq w (MgmtHeader_chunks h)"

definition DevListReplyHeader_Write ::
    "('w, 'e) writer \<Rightarrow> DevListReplyHeader \<Rightarrow> 'w \<Rightarrow> 'e option \<times> 'w" where
  "DevListReplyHeader_Write w d = write_seq w [be_bytes 4 (NDevices d)]"

definition import_chunks :: "ExportedDevice \<Rightarrow> bytes list" where
  "import_chunks d =
     [em_Path (ed_Meta d),
      em_USBBusID (ed_Meta d),
      be_bytes 4 (em_BusID (ed_Meta d)),
      be_bytes 4 (em_DevID (ed_Meta d)),
      be_bytes 4 (ed_Speed d),
      be_bytes 2 (ed_IDVendor d),
      be_bytes 2 (ed_IDProduct d),
      be_bytes 2 (ed_BcdDevice d),
      [ed_BDeviceClass d, ed_BDeviceSubClass d, ed_BDeviceProtocol d,
       ed_BConfigurationValue d, ed_BNumConfigurations d, ed_BNumInterfaces d]]"

definition devlist_chunks :: "ExportedDevice \<Rightarrow> bytes list" where
  "devlist_chunks d = import_chunks d @
     map (\<lambda>i. [id_Class i, id_SubClass i, id_Protocol i, 0]) (ed_Interfaces d)"

definition WriteDevlist :: "('w, 'e) writer \<Rightarrow> ExportedDevice \<Rightarrow> 'w \<Rightarrow> 'e option \<times> 'w" where
  "WriteDevlist w d = write_seq w (devlist_chunks d)"

definition WriteImport :: "('w, 'e) writer \<Rightarrow> ExportedDevice \<Rightarrow> 'w \<Rightarrow> 'e option \<times> 'w" where
  "WriteImport w d = write_seq w (import_chunks d)"

definition basic_chunks :: "HeaderBasic \<Rightarrow> bytes list" where
  "basic_chunks b =
     [be_bytes 4 (hb_Command b), be_bytes 4 (hb_Seqnum b), be_bytes 4 (hb_Devid b),
      be_bytes 4 (hb_Dir b), be_bytes 4 (hb_Ep b)]"

definition CmdSubmit_chunks :: "CmdSubmit \<Rightarrow> bytes list" where
  "CmdSubmit_chunks c = basic_chunks (cs_Basic c) @
     [be_bytes 4 (cs_TransferFlags c), be_bytes 4 (cs_TransferBufferLen c),
      be_bytes 4 (cs_StartFrame c), be_bytes 4 (cs_NumberOfPackets c),
      be_bytes 4 (cs_Interval c), cs_Setup c]"

definition CmdSubmit_Write :: "('w, 'e) writer \<Rightarrow> CmdSubmit \<Rightarrow> 'w \<Rightarrow> 'e option \<times> 'w" where
  "CmdSubmit_Write w c = write_seq w (CmdSubmit_chunks c)"

definition RetSubmit_chunks :: "RetSubmit \<Rightarrow> bytes list" where
  "RetSubmit_chunks r = basic_chunks (rs_Basic r) @
     [be_bytes 4 (rs_Status r), be_bytes 4 (rs_ActualLength r),
      be_bytes 4 (rs_StartFrame r), be_bytes 4 (rs_NumberOfPackets r),
      be_bytes 4 (rs_ErrorCount r), rs_Padding r]"

definition RetSubmit_Write :: "('w, 'e) writer \<Rightarrow> RetSubmit \<Rightarrow> 'w \<Rightarrow> 'e option \<times> 'w" where
  "RetSubmit_Write w r = write_seq w (RetSubmit_chunks r)"

definition CmdUnlink_chunks :: "CmdUnlink \<Rightarrow> bytes list" where
  "CmdUnlink_chunks c =
     basic_chunks (cu_Basic c) @ [be_bytes 4 (cu_UnlinkSeqnum c), cu_Padding c]"

definition CmdUnlink_Write :: "('w, 'e) writer \<Rightarrow> CmdUnlink \<Rightarrow> 'w \<Rightarrow> 'e option \<times> 'w" where
  "CmdUnlink_Write w c = write_seq w (CmdUnlink_chunks c)"

definition RetUnlink_chunks :: "RetUnlink \<Rightarrow> bytes list" where
  "RetUnlink_chunks r =
     basic_chunks (ru_Basic r) @ [be_bytes 4 (ru_Status r), ru_Padding r]"

definition RetUnlink_Write :: "('w, 'e) writer \<Rightarrow> RetUnlink \<Rightarrow> 'w \<Rightarrow> 'e option \<times> 'w" where
  "RetUnlink_Write w r = write_seq w (RetUnlink_chunks r)"

definition IsoPacketDescriptor_chunks :: "IsoPacketDescriptor \<Rightarrow> bytes list" where
  "IsoPacketDescriptor_chunks d =
     [be_bytes 4 (iso_Offset d), be_bytes 4 (iso_Length d),
      be_bytes 4 (iso_ActualLength d), be_bytes 4 (iso_Status d)]"

definition IsoPacketDescriptor_Write ::
    "('w, 'e) writer \<Rightarrow> IsoPacketDescriptor \<Rightarrow> 'w \<Rightarrow> 'e option \<times> 'w" where
  "IsoPacketDescriptor_Write w d = write_seq w (IsoPacketDescriptor_chunks d)"

lemmas usbip_chunk_defs = MgmtHeader_chunks_def import_chunks_def devlist_chunks_def
  basic_chunks_def CmdSubmit_chunks_def RetSubmit_chunks_def CmdUnlink_chunks_def
  RetUnlink_chunks_def IsoPacketDescriptor_chunks_def

section \<open>Reading\<close>

datatype read_error = ErrUnexpectedEOF

definition IsoPacketDescriptor_Decode :: "bytes \<Rightarrow> read_error + IsoPacketDescriptor" where
  "IsoPacketDescriptor_Decode wire =
     (if length wire < IsoPacketDescriptorSize then Inl ErrUnexpectedEOF
      else Inr \<lparr>iso_Offset = be_word (slice wire 0 4),
                iso_Length = be_word (slice wire 4 8),
                iso_ActualLength = be_word (slice wire 8 12),
                iso_Status = be_word (slice wire 12 16)\<rparr>)"

text \<open>\<open>ReadExactly r buf\<close>: the loop asks the reader for the bytes still missing until the
  buffer is full and returns the first error. A reader that keeps returning no bytes and no
  error would make it run forever, which is the value \<open>None\<close>.\<close>

partial_function (option) ReadExactly ::
    "('s, 'e) reader \<Rightarrow> nat \<Rightarrow> bytes \<Rightarrow> 's \<Rightarrow> (('e + bytes) \<times> 's) option" where
  "ReadExactly r missing acc s =
     (if missing = 0 then Some (Inr acc, s)
      else case r missing s of
             ((bs, Some e), s') \<Rightarrow> Some (Inl e, s')
           | ((bs, None), s') \<Rightarrow> ReadExactly r (missing - length bs) (acc @ bs) s')"

context byte_source
begin

lemma ReadExactly_complete:
  "n \<le> length (pending s) \<Longrightarrow>
     \<exists>s'. ReadExactly rd n acc s = Some (Inr (acc @ take n (pending s)), s') \<and>
       pending s' = drop n (pending s)"
proof (induction n arbitrary: acc s rule: less_induct)
  case (less n)
  show ?case
  proof (cases "n = 0")
    case True
    then show ?thesis by (simp add: ReadExactly.simps)
  next
    case False
    then have "pending s \<noteq> []" using less.prems by auto
    then obtain m s1 where rd1: "rd n s = ((take m (pending s), None), s1)"
      and m: "0 < m" "m \<le> n" "m \<le> length (pending s)"
      and p1: "pending s1 = drop m (pending s)"
      using rd_some False by blast
    have "n - m \<le> length (pending s1)" using less.prems p1 by simp
    then obtain s2 where
      "ReadExactly rd (n - m) (acc @ take m (pending s)) s1
         = Some (Inr ((acc @ take m (pending s)) @ take (n - m) (pending s1)), s2)"
      and p2: "pending s2 = drop (n - m) (pending s1)"
      using less.IH [of "n - m" s1 "acc @ take m (pending s)"] m False by auto
    moreover have "take m (pending s) @ take (n - m) (pending s1) = take n (pending s)"
      using m p1 by (metis le_add_diff_inverse take_add)
    moreover have "pending s2 = drop n (pending s)" using p1 p2 m by simp
    ultimately show ?thesis using False rd1 m
      by (simp add: ReadExactly.simps [of rd n])
  qed
qed

lemma ReadExactly_starved:
  "length (pending s) < n \<Longrightarrow>
     \<exists>e s'. ReadExactly rd n acc s = Some (Inl e, s') \<and> pending s' = []"
proof (induction n arbitrary: acc s rule: less_induct)
  case (less n)
  then have n: "0 < n" by simp
  show ?case
  proof (cases "pending s = []")
    case True
    then show ?thesis using rd_end [OF n True] n by (auto simp: ReadExactly.simps [of rd n])
  next
    case False
    then obtain m s1 where rd1: "rd n s = ((take m (pending s), None), s1)"
      and m: "0 < m" "m \<le> n" "m \<le> length (pending s)"
      and p1: "pending s1 = drop m (pending s)"
      using rd_some n by blast
    have "length (pending s1) < n - m" using less.prems p1 m by simp
    then show ?thesis using less.IH [of "n - m" s1 "acc @ take m (pending s)"] m n rd1
      by (simp add: ReadExactly.simps [of rd n])
  qed
qed

end

text \<open>\<^verbatim>\<open>io.ReadFull\<close> of the standard library: a read that fills the buffer succeeds whatever
  error came with it; the end of the stream after some bytes becomes \<^verbatim>\<open>io.ErrUnexpectedEOF\<close>. The
  reader's other errors are handed on.\<close>

datatype 'e io_error = EOF | UnexpectedEOF | ReadFailed 'e

partial_function (option) ReadFull ::
    "('s, 'e io_error) reader \<Rightarrow> nat \<Rightarrow> bytes \<Rightarrow> 's \<Rightarrow> (('e io_error + bytes) \<times> 's) option" where
  "ReadFull r missing acc s =
     (if missing = 0 then Some (Inr acc, s)
      else case r missing s of
             ((bs, err), s') \<Rightarrow>
               if missing \<le> length bs then Some (Inr (acc @ bs), s')
               else (case err of
                   Some e \<Rightarrow>
                     Some (Inl (if acc @ bs \<noteq> [] \<and> e = EOF then UnexpectedEOF else e), s')
                 | None \<Rightarrow> ReadFull r (missing - length bs) (acc @ bs) s'))"

definition IsoPacketDescriptor_Read ::
    "('s, 'e io_error) reader \<Rightarrow> 's \<Rightarrow> (('e io_error + IsoPacketDescriptor) \<times> 's) option" where
  "IsoPacketDescriptor_Read r s =
     (case ReadFull r IsoPacketDescriptorSize [] s of
        None \<Rightarrow> None
      | Some (Inl e, s) \<Rightarrow> Some (Inl e, s)
      | Some (Inr wire, s) \<Rightarrow>
          Some (case IsoPacketDescriptor_Decode wire of
              Inl ErrUnexpectedEOF \<Rightarrow> Inl UnexpectedEOF
            | Inr d \<Rightarrow> Inr d, s))"

text \<open>A source that reports its end as \<^verbatim>\<open>io.EOF\<close>.\<close>

locale eof_source = byte_source rd pending
  for rd :: "('s, 'e io_error) reader" and pending :: "'s \<Rightarrow> bytes" +
  assumes rd_eof: "0 < k \<Longrightarrow> pending s = [] \<Longrightarrow> \<exists>s'. rd k s = (([], Some EOF), s')"
begin

lemma ReadFull_complete:
  "n \<le> length (pending s) \<Longrightarrow>
     \<exists>s'. ReadFull rd n acc s = Some (Inr (acc @ take n (pending s)), s') \<and>
       pending s' = drop n (pending s)"
proof (induction n arbitrary: acc s rule: less_induct)
  case (less n)
  show ?case
  proof (cases "n = 0")
    case True
    then show ?thesis by (simp add: ReadFull.simps)
  next
    case False
    then have "pending s \<noteq> []" using less.prems by auto
    then obtain m s1 where rd1: "rd n s = ((take m (pending s), None), s1)"
      and m: "0 < m" "m \<le> n" "m \<le> length (pending s)"
      and p1: "pending s1 = drop m (pending s)"
      using rd_some False by blast
    have len: "length (take m (pending s)) = m" using m by simp
    show ?thesis
    proof (cases "n \<le> m")
      case True
      then have "m = n" using m(2) by simp
      then have "ReadFull rd n acc s = Some (Inr (acc @ take n (pending s)), s1)"
        using rd1 len False by (simp add: ReadFull.simps [of rd n])
      then show ?thesis using p1 \<open>m = n\<close> by simp
    next
      case small: False
      have "n - m \<le> length (pending s1)" using less.prems p1 by simp
      then obtain s2 where
        "ReadFull rd (n - m) (acc @ take m (pending s)) s1
           = Some (Inr ((acc @ take m (pending s)) @ take (n - m) (pending s1)), s2)"
        and p2: "pending s2 = drop (n - m) (pending s1)"
        using less.IH [of "n - m" s1 "acc @ take m (pending s)"] m False by auto
      moreover have "take m (pending s) @ take (n - m) (pending s1) = take n (pending s)"
        using m p1 by (metis le_add_diff_inverse take_add)
      moreover have "pending s2 = drop n (pending s)" using p1 p2 m by simp
      ultimately show ?thesis using False rd1 m small
        by (simp add: ReadFull.simps [of rd n])
    qed
  qed
qed

lemma ReadFull_starved:
  "length (pending s) < n \<Longrightarrow>
     \<exists>s'. ReadFull rd n acc s =
       Some (Inl (if acc @ pending s = [] then EOF else UnexpectedEOF), s')"
proof (induction n arbitrary: acc s rule: less_induct)
  case (less n)
  then have n: "0 < n" by simp
  show ?case
  proof (cases "pending s = []")
    case True
    then show ?thesis using rd_eof [OF n True] n by (auto simp: ReadFull.simps [of rd n])
  next
    case False
    then obtain m s1 where rd1: "rd n s = ((take m (pending s), None), s1)"
      and m: "0 < m" "m \<le> n" "m \<le> length (pending s)"
      and p1: "pending s1 = drop m (pending s)"
      using rd_some [OF n] by blast
    have "length (pending s1) < n - m" using less.prems p1 m by simp
    moreover have "n - m < n" using n m by simp
    moreover have "\<not> n \<le> m" using less.prems m by simp
    moreover have "take m (pending s) @ pending s1 = pending s" using p1 by simp
    ultimately show ?thesis
      using less.IH [of "n - m" s1 "acc @ take m (pending s)"] n m(3) rd1 False
      by (simp add: ReadFull.simps [of rd n])
  qed
qed

end

text \<open>The connection of \<open>segment_read\<close> with its end reported as \<^verbatim>\<open>io.EOF\<close>.\<close>

definition connection_read :: "(bytes list, 'e io_error) reader" where
  "connection_read k s =
     (case segment_read k s of ((bs, err), s') \<Rightarrow> ((bs, map_option (\<lambda>_. EOF) err), s'))"

interpretation conn: eof_source connection_read concat
proof unfold_locales
  fix k :: nat and s :: "bytes list"
  assume k: "0 < k"
  show "\<exists>m s'. connection_read k s = ((take m (concat s), None), s') \<and> 0 < m \<and> m \<le> k \<and>
      m \<le> length (concat s) \<and> concat s' = drop m (concat s)" if "concat s \<noteq> []"
    using tcp.rd_some [OF k that] by (fastforce simp: connection_read_def)
  show "\<exists>e s'. connection_read k s = (([], Some e), s') \<and> concat s' = []"
    "\<exists>s'. connection_read k s = (([], Some EOF), s')" if "concat s = []"
    using segment_read_end [OF that, of k] by (auto simp: connection_read_def)
qed

section \<open>Layout of the written images\<close>

definition CmdSubmit_bytes :: "CmdSubmit \<Rightarrow> bytes" where
  "CmdSubmit_bytes c = concat (CmdSubmit_chunks c)"

definition RetSubmit_bytes :: "RetSubmit \<Rightarrow> bytes" where
  "RetSubmit_bytes r = concat (RetSubmit_chunks r)"

definition CmdUnlink_bytes :: "CmdUnlink \<Rightarrow> bytes" where
  "CmdUnlink_bytes c = concat (CmdUnlink_chunks c)"

definition RetUnlink_bytes :: "RetUnlink \<Rightarrow> bytes" where
  "RetUnlink_bytes r = concat (RetUnlink_chunks r)"

definition IsoPacketDescriptor_bytes :: "IsoPacketDescriptor \<Rightarrow> bytes" where
  "IsoPacketDescriptor_bytes d = concat (IsoPacketDescriptor_chunks d)"

lemmas usbip_bytes_defs = CmdSubmit_bytes_def RetSubmit_bytes_def CmdUnlink_bytes_def
  RetUnlink_bytes_def IsoPacketDescriptor_bytes_def

lemma urb_header_lengths [wire_simps]:
  "wf_CmdSubmit c \<Longrightarrow> length (CmdSubmit_bytes c) = 48"
  "wf_RetSubmit r \<Longrightarrow> length (RetSubmit_bytes r) = 48"
  "wf_CmdUnlink cu \<Longrightarrow> length (CmdUnlink_bytes cu) = 48"
  "wf_RetUnlink ru \<Longrightarrow> length (RetUnlink_bytes ru) = 48"
  by (simp_all add: usbip_bytes_defs usbip_chunk_defs usbip_wf_defs)

lemma length_IsoPacketDescriptor_bytes [simp, wire_simps]:
  "length (IsoPacketDescriptor_bytes d) = IsoPacketDescriptorSize"
  by (simp add: usbip_bytes_defs usbip_chunk_defs IsoPacketDescriptorSize_def)

lemma IsoPacketDescriptor_Decode_bytes:
  "IsoPacketDescriptor_Decode (IsoPacketDescriptor_bytes d @ rest) = Inr d"
  by (simp add: IsoPacketDescriptor_Decode_def usbip_bytes_defs usbip_chunk_defs
      IsoPacketDescriptorSize_def)

interpretation iso: fixed_codec IsoPacketDescriptor_bytes IsoPacketDescriptor_Decode
    IsoPacketDescriptorSize "\<lambda>_. True"
  using IsoPacketDescriptor_Decode_bytes [of _ "[]"]
  by unfold_locales (simp_all add: IsoPacketDescriptorSize_def)

text \<open>A descriptor that was written is read back from any connection.\<close>

lemma IsoPacketDescriptor_Read_Write:
  assumes "concat segs = snd (IsoPacketDescriptor_Write buffer_writer d []) @ rest"
  shows "\<exists>segs'. IsoPacketDescriptor_Read (connection_read :: (bytes list, 'e io_error) reader) segs =
      Some (Inr d, segs') \<and>
    concat segs' = rest"
proof -
  have "concat segs = IsoPacketDescriptor_bytes d @ rest"
    using assms by (simp add: IsoPacketDescriptor_Write_def write_seq_buffer IsoPacketDescriptor_bytes_def)
  then show ?thesis
    using conn.ReadFull_complete [of IsoPacketDescriptorSize segs "[]", where 'a = 'e] iso.dec_enc [of d]
    by (auto simp: IsoPacketDescriptor_Read_def)
qed

section \<open>Properties\<close>

text \<open>C13: \<open>ReadExactly\<close> does not depend on how the connection splits its bytes: if enough bytes
  arrive it returns the first \<open>n\<close> of them and leaves the rest, and if too few arrive it
  returns an error after draining the connection. It returns in every case.\<close>

theorem ReadExactly_any_segmentation:
  "\<exists>segs'. if n \<le> length (concat segs)
     then ReadExactly segment_read n [] segs = Some (Inr (take n (concat segs)), segs') \<and>
       concat segs' = drop n (concat segs)
     else ReadExactly segment_read n [] segs = Some (Inl (), segs') \<and> concat segs' = []"
  using tcp.ReadExactly_complete [of n segs "[]"] tcp.ReadExactly_starved [of segs n "[]"]
  by (cases "n \<le> length (concat segs)") auto

text \<open>An import reply is 312 bytes and a device-list entry is the same image followed by
  four bytes per interface; on a connection that fails after \<open>n\<close> bytes exactly the first
  \<open>n\<close> bytes of the image have been sent, and the failure is reported.\<close>

lemma export_images:
  assumes "wf_ExportedDevice d"
  shows "length (concat (import_chunks d)) = 312 \<and>
    concat (devlist_chunks d) = concat (import_chunks d) @
      concat (map (\<lambda>i. [id_Class i, id_SubClass i, id_Protocol i, 0]) (ed_Interfaces d)) \<and>
    WriteDevlist (buffer_writer :: (bytes, unit) writer) d s = (None, s @ concat (devlist_chunks d)) \<and>
    WriteImport limited_writer d (s, n) =
      (if 312 \<le> n then (None, (s @ concat (import_chunks d), n - 312))
       else (Some (), (s @ take n (concat (import_chunks d)), 0)))"
proof -
  have "length (concat (import_chunks d)) = 312"
    using assms by (simp add: import_chunks_def usbip_wf_defs)
  then show ?thesis
    by (simp add: WriteDevlist_def WriteImport_def write_seq_buffer write_seq_limited
        devlist_chunks_def)
qed

definition demo_export :: ExportedDevice where
  "demo_export = \<lparr>ed_Meta = \<lparr>em_Path = replicate 256 0x2F, em_USBBusID = replicate 32 0x31,
       em_BusID = 1, em_DevID = 2\<rparr>,
     ed_Speed = 3, ed_IDVendor = 0x045E, ed_IDProduct = 0x028E, ed_BcdDevice = 0x0114,
     ed_BDeviceClass = 0xFF, ed_BDeviceSubClass = 0xFF, ed_BDeviceProtocol = 0xFF,
     ed_BConfigurationValue = 1, ed_BNumConfigurations = 1, ed_BNumInterfaces = 1,
     ed_Interfaces = [\<lparr>id_Class = 0xFF, id_SubClass = 0x5D, id_Protocol = 1\<rparr>]\<rparr>"

lemma export_images_witness:
  "wf_ExportedDevice demo_export \<and>
   WriteImport limited_writer demo_export ([], 100) =
     (Some (), (take 100 (concat (import_chunks demo_export)), 0))"
proof -
  have "wf_ExportedDevice demo_export" by (simp add: demo_export_def usbip_wf_defs)
  then show ?thesis using export_images [of demo_export "[]" 100] by simp
qed

end
