(* ===== verification/Urb_Stream.thy ===== *)
theory Urb_Stream
  imports Usbip_Wire
begin

text \<open>
  Two ends of the server's URB stream (\<^verbatim>\<open>internal/server/usb\<close>): the reading of the ISO packet
  descriptors of a submission (\<^verbatim>\<open>readIsoPacketDescriptors\<close> and \<^verbatim>\<open>decodeIsoPacketDescriptors\<close> of
  \<^verbatim>\<open>urb_stream.go\<close>) and the packet that answers one (\<^verbatim>\<open>buildRetSubmitPacket\<close> of
  \<^verbatim>\<open>response_writer.go\<close>). A slice that a function fills is an argument and a result; the scratch
  buffer of the reader is given by its length, as its contents are overwritten before use.
\<close>

section \<open>Reading descriptors\<close>





section \<open>The answer\<close>

text \<open>\<open>PutUint32 dst offset\<close> is \<^verbatim>\<open>BigEndian.PutUint32(dst[offset:offset+4], v)\<close>. The destination is
  given with its capacity; it is replaced when it is too small and cleared otherwise.\<close>

definition PutUint32 :: "bytes \<Rightarrow> nat \<Rightarrow> u32 \<Rightarrow> bytes" where
  "PutUint32 dst offset v = take offset dst @ be_bytes 4 v @ drop (offset + 4) dst"

definition retSubmitHeaderSize :: nat where "retSubmitHeaderSize = 0x30"

definition isoPacketDescriptorSize :: nat where "isoPacketDescriptorSize = 16"

fun put_packets :: "bytes \<Rightarrow> nat \<Rightarrow> IsoPacketDescriptor list \<Rightarrow> bytes" where
  "put_packets dst offset [] = dst"
| "put_packets dst offset (packet # isoPackets) =
     (let dst = PutUint32 dst offset (iso_Offset packet);
          dst = PutUint32 dst (offset + 4) (iso_Length packet);
          dst = PutUint32 dst (offset + 8) (iso_ActualLength packet);
          dst = PutUint32 dst (offset + 12) (iso_Status packet)
      in put_packets dst (offset + isoPacketDescriptorSize) isoPackets)"

definition buildRetSubmitPacket ::
    "bytes \<Rightarrow> u32 \<Rightarrow> u32 \<Rightarrow> u32 \<Rightarrow> bytes \<Rightarrow> IsoPacketDescriptor list \<Rightarrow> bool \<Rightarrow> bytes" where
  "buildRetSubmitPacket dst seq status actualLen respData isoPackets isIso =
     (let total = retSubmitHeaderSize + length respData;
          total = (if isIso then total + length isoPackets * isoPacketDescriptorSize else total);
          dst = (if length dst < total then zeros total else map (\<lambda>_. 0) (take total dst));
          dst = PutUint32 dst 0 RetSubmitCode;
          dst = PutUint32 dst 4 seq;
          dst = PutUint32 dst 20 status;
          dst = PutUint32 dst 24 actualLen;
          packetCount = (if isIso then of_nat (length isoPackets) else - 1);
          dst = PutUint32 dst 32 packetCount;
          offset = retSubmitHeaderSize;
          dst = take offset dst @ copy_into (drop offset dst) respData;
          offset = offset + length respData
      in if isIso then put_packets dst offset isoPackets else dst)"

section \<open>The written and the read image\<close>



lemma write_descriptors_buffer:
  "foldl (\<lambda>s d. snd (IsoPacketDescriptor_Write buffer_writer d s)) s ds =
     s @ concat (map IsoPacketDescriptor_bytes ds)"
  by (induction ds arbitrary: s)
    (simp_all add: IsoPacketDescriptor_Write_def write_seq_buffer IsoPacketDescriptor_bytes_def)

text \<open>The record that a return message stands for.\<close>

definition ret_submit :: "u32 \<Rightarrow> u32 \<Rightarrow> u32 \<Rightarrow> u32 \<Rightarrow> RetSubmit" where
  "ret_submit seq status actualLen count =
     \<lparr> rs_Basic = \<lparr> hb_Command = RetSubmitCode, hb_Seqnum = seq, hb_Devid = 0, hb_Dir = 0, hb_Ep = 0 \<rparr>,
       rs_Status = status, rs_ActualLength = actualLen, rs_StartFrame = 0,
       rs_NumberOfPackets = count, rs_ErrorCount = 0, rs_Padding = zeros 8 \<rparr>"

lemma PutUint32_at:
  "offset = length p \<Longrightarrow> PutUint32 (p @ q) offset v = (p @ be_bytes 4 v) @ drop 4 q"
  by (simp add: PutUint32_def)

lemma put_packets_append:
  "length q = length isoPackets * 16 \<Longrightarrow>
   put_packets (p @ q) (length p) isoPackets = p @ concat (map IsoPacketDescriptor_bytes isoPackets)"
proof (induction isoPackets arbitrary: p q)
  case Nil
  then show ?case by simp
next
  case (Cons d ds)
  have "put_packets (p @ q) (length p) (d # ds) =
      put_packets ((p @ IsoPacketDescriptor_bytes d) @ drop 16 q)
        (length (p @ IsoPacketDescriptor_bytes d)) ds"
    by (simp add: PutUint32_at Let_def IsoPacketDescriptor_bytes_def IsoPacketDescriptor_chunks_def
        isoPacketDescriptorSize_def PutUint32_def IsoPacketDescriptorSize_def)
  also have "\<dots> = (p @ IsoPacketDescriptor_bytes d) @ concat (map IsoPacketDescriptor_bytes ds)"
    using Cons.prems by (intro Cons.IH) simp
  finally show ?case by simp
qed

lemma header_filled:
  fixes seq status actualLen count :: u32
  shows "PutUint32 (PutUint32 (PutUint32 (PutUint32 (PutUint32 (zeros 48 @ q) 0 RetSubmitCode) 4 seq)
      20 status) 24 actualLen) 32 count = RetSubmit_bytes (ret_submit seq status actualLen count) @ q"
proof -
  have z: "be_bytes (Suc (Suc (Suc (Suc 0)))) (0 :: u32) = [0, 0, 0, 0]" by (simp add: be_bytes_def)
  have "zeros 48 = zeros 4 @ zeros 4 @ zeros 12 @ zeros 4 @ zeros 4 @ zeros 4 @ zeros 4 @ zeros 12"
    by (simp add: replicate_add [symmetric])
  then show ?thesis
    by (simp add: PutUint32_def RetSubmit_bytes_def RetSubmit_chunks_def basic_chunks_def
        ret_submit_def z numeral_eq_Suc)
qed

lemma buildRetSubmitPacket_image:
  "buildRetSubmitPacket dst seq status actualLen respData isoPackets isIso =
     RetSubmit_bytes (ret_submit seq status actualLen
        (if isIso then of_nat (length isoPackets) else - 1)) @ respData @
     (if isIso then concat (map IsoPacketDescriptor_bytes isoPackets) else [])"
proof -
  define rest where "rest = (if isIso then length isoPackets * 16 else 0)"
  let ?count = "if isIso then of_nat (length isoPackets) else - 1 :: u32"
  let ?h = "RetSubmit_bytes (ret_submit seq status actualLen ?count)"
  have len: "length (RetSubmit_bytes (ret_submit seq status actualLen c)) = 48" for c
    by (intro urb_header_lengths) (simp add: usbip_wf_defs ret_submit_def)
  have cleared: "(if length dst < n then zeros n else map (\<lambda>_. 0) (take n dst)) = zeros n" for n
    by (simp add: map_replicate_const)
  have "buildRetSubmitPacket dst seq status actualLen respData isoPackets isIso =
      (let d = (?h @ respData) @ zeros rest in
       if isIso then put_packets d (length (?h @ respData)) isoPackets else d)"
    unfolding buildRetSubmitPacket_def Let_def cleared
    by (simp add: retSubmitHeaderSize_def isoPacketDescriptorSize_def replicate_add header_filled
        len rest_def copy_into_def)
  then show ?thesis using put_packets_append [of "zeros rest" isoPackets "?h @ respData"]
    by (cases isIso) (simp_all add: rest_def Let_def)
qed

text \<open>The packet is what the \<open>Write\<close> methods of the wire types write.\<close>

lemma buildRetSubmitPacket_writes:
  "buildRetSubmitPacket dst seq status actualLen respData isoPackets isIso =
     (let count = (if isIso then of_nat (length isoPackets) else - 1);
          sent = snd (RetSubmit_Write buffer_writer (ret_submit seq status actualLen count) []) @ respData
      in if isIso then foldl (\<lambda>s d. snd (IsoPacketDescriptor_Write buffer_writer d s)) sent isoPackets
         else sent)"
  by (simp add: buildRetSubmitPacket_image RetSubmit_Write_def write_seq_buffer RetSubmit_bytes_def
      write_descriptors_buffer Let_def)

section \<open>Properties\<close>




end
