(* ===== verification/Microphone_Buffer.thy ===== *)
theory Microphone_Buffer
  imports Go_Prelude "HOL-Library.Sublist"
begin

text \<open>
  The PCM jitter buffer of \<^verbatim>\<open>device/internal/microphonebuffer/buffer.go\<close>: a ring of bytes
  that takes complete client frames and gives out one USB packet at a time, with the
  packet length steered by an occupancy filter and a servo. Every method of the package is
  a definition; \<^verbatim>\<open>time.Now()\<close> is the argument \<open>now\<close> (nanoseconds), a zero \<^verbatim>\<open>time.Time\<close> is
  \<open>None\<close>. Lengths and indices are \<open>nat\<close>, the signed servo quantities \<open>int\<close>, the counters
  64-bit words. \<open>contents\<close> abstracts the ring to the queued byte sequence.
\<close>

section \<open>The state\<close>

record Buffer =
  mb_data :: bytes
  mb_head :: nat
  mb_size :: nat
  mb_packetSize :: nat
  mb_pcmFrameSize :: nat
  mb_frameSize :: nat
  mb_targetSize :: nat
  mb_recoverySize :: nat
  mb_queueCenter :: nat
  mb_lowRailSize :: nat
  mb_highRailSize :: nat
  mb_nominalPacketFrames :: nat
  mb_filteredQueueQ16 :: int
  mb_filterInitialized :: bool
  mb_servoAccumulator :: int
  mb_servoRatePPM :: int
  mb_primed :: bool
  mb_needsReprime :: bool
  mb_underruns :: u64
  mb_reprimes :: u64
  mb_droppedBytes :: u64
  mb_packetsRead :: u64
  mb_zeroPackets :: u64
  mb_overflowEvents :: u64
  mb_shortPackets :: u64
  mb_longPackets :: u64
  mb_lowWaterBytes :: int
  mb_highWaterBytes :: nat
  mb_queueFrames :: u64
  mb_queueFastGaps :: u64
  mb_queueLateGaps :: u64
  mb_queueMinGap :: int
  mb_queueMaxGap :: int
  mb_readFastGaps :: u64
  mb_readLateGaps :: u64
  mb_readMinGap :: int
  mb_readMaxGap :: int
  mb_lastQueueTime :: "int option"
  mb_lastReadTime :: "int option"


record State =
  st_QueuedBytes :: nat
  st_TargetBytes :: nat
  st_MaximumBytes :: nat
  st_FilteredBytes :: int
  st_Primed :: bool
  st_Underruns :: u64
  st_Reprimes :: u64
  st_DroppedBytes :: u64
  st_PacketsRead :: u64
  st_ZeroPackets :: u64
  st_OverflowEvents :: u64
  st_ShortPackets :: u64
  st_LongPackets :: u64
  st_ServoRatePPM :: int
  st_LowWaterBytes :: int
  st_HighWaterBytes :: nat
  st_QueueFrames :: u64
  st_QueueFastGaps :: u64
  st_QueueLateGaps :: u64
  st_QueueMinGapUS :: int
  st_QueueMaxGapUS :: int
  st_ReadFastGaps :: u64
  st_ReadLateGaps :: u64
  st_ReadMinGapUS :: int
  st_ReadMaxGapUS :: int

definition occupancyFilterShift :: nat where "occupancyFilterShift = 6"
definition servoGainPPMPerMS :: int where "servoGainPPMPerMS = 2000"
definition servoLimitPPM :: int where "servoLimitPPM = 10000"
definition servoPulseScale :: int where "servoPulseScale = 1000000"
definition recoveryClientFrames :: nat where "recoveryClientFrames = 2"

lemmas mb_consts = occupancyFilterShift_def servoGainPPMPerMS_def servoLimitPPM_def
  servoPulseScale_def recoveryClientFrames_def

section \<open>The operations\<close>

text \<open>\<open>New\<close> panics on an invalid geometry, which is \<open>None\<close>.\<close>

definition New_valid :: "int \<Rightarrow> int \<Rightarrow> int \<Rightarrow> int \<Rightarrow> int \<Rightarrow> bool" where
  "New_valid packetSize pcmFrameSize frameSize targetFrames maximumFrames \<longleftrightarrow>
     \<not> (packetSize \<le> 0 \<or> pcmFrameSize \<le> 0 \<or> packetSize mod pcmFrameSize \<noteq> 0 \<or>
        frameSize \<le> 0 \<or> frameSize mod packetSize \<noteq> 0) \<and>
     \<not> (targetFrames \<le> 0 \<or> maximumFrames < targetFrames)"

definition New :: "int \<Rightarrow> int \<Rightarrow> int \<Rightarrow> int \<Rightarrow> int \<Rightarrow> Buffer option" where
  "New packetSize pcmFrameSize frameSize targetFrames maximumFrames =
     (if \<not> New_valid packetSize pcmFrameSize frameSize targetFrames maximumFrames then None
      else let capacity = frameSize * maximumFrames in
        Some \<lparr>mb_data = replicate (nat capacity) 0,
              mb_head = 0,
              mb_size = 0,
              mb_packetSize = nat packetSize,
              mb_pcmFrameSize = nat pcmFrameSize,
              mb_frameSize = nat frameSize,
              mb_targetSize = nat (frameSize * targetFrames),
              mb_recoverySize = nat (frameSize * min targetFrames (int recoveryClientFrames)),
              mb_queueCenter = nat (frameSize * targetFrames - frameSize div 2),
              mb_lowRailSize = nat (max pcmFrameSize
                 (frameSize * targetFrames - frameSize * 3 div 2)),
              mb_highRailSize = nat (min (capacity - pcmFrameSize)
                 (frameSize * targetFrames + frameSize div 2)),
              mb_nominalPacketFrames = nat (packetSize div pcmFrameSize),
              mb_filteredQueueQ16 = 0, mb_filterInitialized = False,
              mb_servoAccumulator = 0, mb_servoRatePPM = 0,
              mb_primed = False, mb_needsReprime = False,
              mb_underruns = 0, mb_reprimes = 0, mb_droppedBytes = 0, mb_packetsRead = 0,
              mb_zeroPackets = 0, mb_overflowEvents = 0, mb_shortPackets = 0,
              mb_longPackets = 0, mb_lowWaterBytes = -1, mb_highWaterBytes = 0,
              mb_queueFrames = 0, mb_queueFastGaps = 0, mb_queueLateGaps = 0,
              mb_queueMinGap = 0, mb_queueMaxGap = 0, mb_readFastGaps = 0,
              mb_readLateGaps = 0, mb_readMinGap = 0, mb_readMaxGap = 0,
              mb_lastQueueTime = None, mb_lastReadTime = None\<rparr>)"

definition mb_discard :: "nat \<Rightarrow> Buffer \<Rightarrow> Buffer" where
  "mb_discard count b =
     (if count = 0 then b
      else if count \<ge> mb_size b then b\<lparr>mb_head := 0, mb_size := 0\<rparr>
      else b\<lparr>mb_head := (mb_head b + count) mod length (mb_data b),
             mb_size := mb_size b - count\<rparr>)"

definition mb_write :: "bytes \<Rightarrow> Buffer \<Rightarrow> Buffer" where
  "mb_write src b =
     (let cap = length (mb_data b);
          tail = (mb_head b + mb_size b) mod cap;
          first = min (length src) (cap - tail);
          data1 = take tail (mb_data b) @ take first src @ drop (tail + first) (mb_data b);
          data2 = copy_into data1 (drop first src)
      in b\<lparr>mb_data := data2, mb_size := mb_size b + length src\<rparr>)"

definition mb_read :: "nat \<Rightarrow> Buffer \<Rightarrow> bytes \<times> Buffer" where
  "mb_read n b =
     (let first = min n (length (mb_data b) - mb_head b);
          out = slice (mb_data b) (mb_head b) (mb_head b + first) @
                slice (mb_data b) 0 (n - first)
      in (out, mb_discard n b))"

definition recordWatermark :: "Buffer \<Rightarrow> Buffer" where
  "recordWatermark b =
     (if \<not> mb_primed b then b
      else let b1 = (if mb_lowWaterBytes b < 0 \<or> int (mb_size b) < mb_lowWaterBytes b
                     then b\<lparr>mb_lowWaterBytes := int (mb_size b)\<rparr> else b)
           in if mb_size b1 > mb_highWaterBytes b1
              then b1\<lparr>mb_highWaterBytes := mb_size b1\<rparr> else b1)"

definition resetServo :: "Buffer \<Rightarrow> Buffer" where
  "resetServo b = b\<lparr>mb_filteredQueueQ16 := 0, mb_filterInitialized := False,
     mb_servoAccumulator := 0, mb_servoRatePPM := 0\<rparr>"

definition filteredQueueBytes :: "Buffer \<Rightarrow> int" where
  "filteredQueueBytes b =
     (if \<not> mb_filterInitialized b then 0 else (mb_filteredQueueQ16 b + 2 ^ 15) div 2 ^ 16)"

definition recordQueueTime :: "int \<Rightarrow> Buffer \<Rightarrow> Buffer" where
  "recordQueueTime now b =
     (let b1 = b\<lparr>mb_queueFrames := mb_queueFrames b + 1\<rparr>;
          b2 = (case mb_lastQueueTime b1 of
                  None \<Rightarrow> b1
                | Some prev \<Rightarrow>
                    let gap = now - prev in
                    b1\<lparr>mb_queueMinGap := (if mb_queueMinGap b1 = 0 \<or> gap < mb_queueMinGap b1
                                          then gap else mb_queueMinGap b1),
                       mb_queueMaxGap := (if gap > mb_queueMaxGap b1
                                          then gap else mb_queueMaxGap b1),
                       mb_queueFastGaps := (if gap < 5 * 1000000
                                            then mb_queueFastGaps b1 + 1 else mb_queueFastGaps b1),
                       mb_queueLateGaps := (if gap > 15 * 1000000
                                            then mb_queueLateGaps b1 + 1 else mb_queueLateGaps b1)\<rparr>)
      in b2\<lparr>mb_lastQueueTime := Some now\<rparr>)"

definition recordReadTime :: "int \<Rightarrow> Buffer \<Rightarrow> Buffer" where
  "recordReadTime now b =
     (let b2 = (case mb_lastReadTime b of
                  None \<Rightarrow> b
                | Some prev \<Rightarrow>
                    let gap = now - prev in
                    b\<lparr>mb_readMinGap := (if mb_readMinGap b = 0 \<or> gap < mb_readMinGap b
                                         then gap else mb_readMinGap b),
                      mb_readMaxGap := (if gap > mb_readMaxGap b
                                         then gap else mb_readMaxGap b),
                      mb_readFastGaps := (if gap < 500 * 1000
                                           then mb_readFastGaps b + 1 else mb_readFastGaps b),
                      mb_readLateGaps := (if gap > 1500 * 1000
                                           then mb_readLateGaps b + 1 else mb_readLateGaps b)\<rparr>)
      in b2\<lparr>mb_lastReadTime := Some now\<rparr>)"

text \<open>The rate computation of \<open>nextPacketSize\<close>. The Go divisions have nonnegative operands
  here, so that truncation and floor agree.\<close>

definition servo_rate :: "Buffer \<Rightarrow> int \<Rightarrow> int" where
  "servo_rate b filtered =
     (let bytesPerMillisecond = max 1 (int (mb_frameSize b) div 10);
          deadband = bytesPerMillisecond;
          center = int (mb_queueCenter b);
          rate = (if filtered < int (mb_lowRailSize b) then - servoLimitPPM
                  else if filtered > int (mb_highRailSize b) then servoLimitPPM
                  else if filtered > center + deadband
                  then (filtered - center - deadband) * servoGainPPMPerMS div bytesPerMillisecond
                  else if filtered < center - deadband
                  then - ((center - deadband - filtered) * servoGainPPMPerMS
                          div bytesPerMillisecond)
                  else 0)
      in if rate > servoLimitPPM then servoLimitPPM
         else if rate < - servoLimitPPM then - servoLimitPPM else rate)"

definition observe_queue :: "Buffer \<Rightarrow> Buffer" where
  "observe_queue b =
     (let projectedSize = mb_size b - mb_packetSize b;
          currentQ16 = int projectedSize * 2 ^ 16;
          b1 = (if mb_filterInitialized b then b
                else b\<lparr>mb_filteredQueueQ16 := int (mb_queueCenter b) * 2 ^ 16,
                       mb_filterInitialized := True\<rparr>)
      in b1\<lparr>mb_filteredQueueQ16 := mb_filteredQueueQ16 b1 +
              (currentQ16 - mb_filteredQueueQ16 b1) div 2 ^ occupancyFilterShift\<rparr>)"

definition nextPacketSize :: "Buffer \<Rightarrow> nat \<times> Buffer" where
  "nextPacketSize b =
     (let b1 = observe_queue b;
          ratePPM = servo_rate b1 (filteredQueueBytes b1);
          b2 = b1\<lparr>mb_servoRatePPM := ratePPM,
                  mb_servoAccumulator := mb_servoAccumulator b1 +
                    ratePPM * int (mb_nominalPacketFrames b1)\<rparr>;
          packetSize = (if mb_servoAccumulator b2 \<ge> servoPulseScale
                        then mb_packetSize b2 + mb_pcmFrameSize b2
                        else if mb_servoAccumulator b2 \<le> - servoPulseScale
                        then mb_packetSize b2 - mb_pcmFrameSize b2
                        else mb_packetSize b2)
      in (packetSize, b2))"

definition commitPacketSize :: "nat \<Rightarrow> Buffer \<Rightarrow> Buffer" where
  "commitPacketSize packetSize b =
     (if packetSize = mb_packetSize b - mb_pcmFrameSize b
      then b\<lparr>mb_servoAccumulator := mb_servoAccumulator b + servoPulseScale,
             mb_shortPackets := mb_shortPackets b + 1\<rparr>
      else if packetSize = mb_packetSize b + mb_pcmFrameSize b
      then b\<lparr>mb_servoAccumulator := mb_servoAccumulator b - servoPulseScale,
             mb_longPackets := mb_longPackets b + 1\<rparr>
      else b)"

text \<open>The two parts of \<open>QueueFrame\<close> after its length check: making room, and the priming
  decision that follows the write.\<close>

definition make_room :: "nat \<Rightarrow> Buffer \<Rightarrow> Buffer" where
  "make_room len b =
     (let overflow = mb_size b + len - length (mb_data b) in
      if overflow > 0
      then (let b1 = mb_discard overflow b in
            b1\<lparr>mb_droppedBytes := mb_droppedBytes b1 + of_nat overflow,
               mb_overflowEvents := mb_overflowEvents b1 + 1\<rparr>)
      else b)"

definition primeSize :: "Buffer \<Rightarrow> nat" where
  "primeSize b = (if mb_needsReprime b then mb_recoverySize b else mb_targetSize b)"

definition update_priming :: "Buffer \<Rightarrow> Buffer" where
  "update_priming b =
     (if \<not> mb_primed b \<and> mb_size b \<ge> primeSize b
      then (let b1 = b\<lparr>mb_primed := True\<rparr> in
            if mb_needsReprime b1
            then b1\<lparr>mb_reprimes := mb_reprimes b1 + 1, mb_needsReprime := False\<rparr> else b1)
      else b)"

definition QueueFrame :: "int \<Rightarrow> bytes \<Rightarrow> Buffer \<Rightarrow> bool \<times> Buffer" where
  "QueueFrame now frame b =
     (if length frame \<noteq> mb_frameSize b then (False, b)
      else let b1 = recordQueueTime now b;
               b2 = make_room (length frame) b1;
               b3 = mb_write frame b2;
               b4 = update_priming b3
           in (True, recordWatermark b4))"

definition underrun :: "Buffer \<Rightarrow> Buffer" where
  "underrun b =
     (let b1 = b\<lparr>mb_primed := False, mb_needsReprime := True,
                 mb_underruns := mb_underruns b + 1,
                 mb_size := mb_size b - mb_size b mod mb_pcmFrameSize b\<rparr>;
          b2 = (if mb_size b1 = 0 then b1\<lparr>mb_head := 0\<rparr> else b1)
      in recordWatermark (resetServo b2))"

text \<open>\<open>ReadPacket dst\<close> returns the number of bytes (0 on failure), whether a packet was
  served, the destination afterwards and the buffer.\<close>

definition serve_packet :: "int \<Rightarrow> bytes \<Rightarrow> nat \<Rightarrow> Buffer \<Rightarrow> (nat \<times> bool \<times> bytes) \<times> Buffer" where
  "serve_packet now dst actualSize b =
     (let b1 = commitPacketSize actualSize b;
          (out, b2) = mb_read actualSize b1;
          b3 = recordReadTime now b2;
          b4 = b3\<lparr>mb_packetsRead := mb_packetsRead b3 + 1\<rparr>
      in ((actualSize, True, out @ drop actualSize dst), recordWatermark b4))"

definition ReadPacket :: "int \<Rightarrow> bytes \<Rightarrow> Buffer \<Rightarrow> (nat \<times> bool \<times> bytes) \<times> Buffer" where
  "ReadPacket now dst b =
     (if length dst < mb_packetSize b + mb_pcmFrameSize b then ((0, False, dst), b)
      else if \<not> mb_primed b then ((0, False, dst), b)
      else let (actualSize, b1) = nextPacketSize b in
        if mb_size b1 < actualSize
        then (let shortSize = mb_packetSize b1 - mb_pcmFrameSize b1 in
              if mb_size b1 \<ge> mb_packetSize b1 then serve_packet now dst (mb_packetSize b1) b1
              else if mb_size b1 \<ge> shortSize then serve_packet now dst shortSize b1
              else ((0, False, dst), underrun b1))
        else serve_packet now dst actualSize b1)"

definition RecordZeroPacket :: "Buffer \<Rightarrow> Buffer" where
  "RecordZeroPacket b = b\<lparr>mb_zeroPackets := mb_zeroPackets b + 1\<rparr>"

definition Reset :: "Buffer \<Rightarrow> Buffer" where
  "Reset b =
     (let b1 = b\<lparr>mb_head := 0, mb_size := 0, mb_primed := False, mb_needsReprime := False\<rparr>;
          b2 = resetServo b1;
          b3 = b2\<lparr>mb_lastQueueTime := None, mb_lastReadTime := None\<rparr>
      in recordWatermark b3)"

definition Microseconds :: "int \<Rightarrow> int" where
  "Microseconds d = sgn d * (\<bar>d\<bar> div 1000)"

definition Buffer_State :: "Buffer \<Rightarrow> State" where
  "Buffer_State b =
     \<lparr>st_QueuedBytes = mb_size b, st_TargetBytes = mb_targetSize b,
      st_MaximumBytes = length (mb_data b), st_FilteredBytes = filteredQueueBytes b,
      st_Primed = mb_primed b, st_Underruns = mb_underruns b, st_Reprimes = mb_reprimes b,
      st_DroppedBytes = mb_droppedBytes b, st_PacketsRead = mb_packetsRead b,
      st_ZeroPackets = mb_zeroPackets b, st_OverflowEvents = mb_overflowEvents b,
      st_ShortPackets = mb_shortPackets b, st_LongPackets = mb_longPackets b,
      st_ServoRatePPM = mb_servoRatePPM b, st_LowWaterBytes = mb_lowWaterBytes b,
      st_HighWaterBytes = mb_highWaterBytes b, st_QueueFrames = mb_queueFrames b,
      st_QueueFastGaps = mb_queueFastGaps b, st_QueueLateGaps = mb_queueLateGaps b,
      st_QueueMinGapUS = Microseconds (mb_queueMinGap b),
      st_QueueMaxGapUS = Microseconds (mb_queueMaxGap b),
      st_ReadFastGaps = mb_readFastGaps b, st_ReadLateGaps = mb_readLateGaps b,
      st_ReadMinGapUS = Microseconds (mb_readMinGap b),
      st_ReadMaxGapUS = Microseconds (mb_readMaxGap b)\<rparr>"

section \<open>The ring as a byte sequence\<close>


definition contents :: "Buffer \<Rightarrow> bytes" where
  "contents b = take (mb_size b) (rotate (mb_head b) (mb_data b))"

definition ring_ok :: "Buffer \<Rightarrow> bool" where
  "ring_ok b \<longleftrightarrow> mb_head b < length (mb_data b) \<and> mb_size b \<le> length (mb_data b)"

lemma mod_below_twice: "(a::nat) < 2 * c \<Longrightarrow> a mod c = (if a < c then a else a - c)"
  by (simp add: le_mod_geq)

lemma length_contents [simp]: "ring_ok b \<Longrightarrow> length (contents b) = mb_size b"
  by (simp add: contents_def ring_ok_def)

lemma nth_contents:
  "ring_ok b \<Longrightarrow> i < mb_size b \<Longrightarrow>
     contents b ! i = mb_data b ! ((mb_head b + i) mod length (mb_data b))"
  by (simp add: contents_def ring_ok_def nth_rotate)

lemma mb_discard_data [simp]: "mb_data (mb_discard n b) = mb_data b"
  by (simp add: mb_discard_def)

lemma mb_discard_size [simp]: "mb_size (mb_discard n b) = mb_size b - n"
  by (simp add: mb_discard_def)

lemma mb_discard_head:
  "ring_ok b \<Longrightarrow> n < mb_size b \<Longrightarrow>
     mb_head (mb_discard n b) = (mb_head b + n) mod length (mb_data b)"
  by (simp add: mb_discard_def ring_ok_def)

lemma ring_ok_discard [intro]: "ring_ok b \<Longrightarrow> ring_ok (mb_discard n b)"
  by (cases "length (mb_data b)") (auto simp: ring_ok_def mb_discard_def)

lemma contents_discard:
  assumes ok: "ring_ok b"
  shows "contents (mb_discard n b) = drop n (contents b)"
proof (rule nth_equalityI)
  show "length (contents (mb_discard n b)) = length (drop n (contents b))"
    using ok by (simp add: ring_ok_discard)
next
  fix i assume "i < length (contents (mb_discard n b))"
  then have i: "i < mb_size b - n" using ok by (simp add: ring_ok_discard)
  then have "contents (mb_discard n b) ! i
      = mb_data b ! ((mb_head b + n + i) mod length (mb_data b))"
    using ok by (simp add: nth_contents ring_ok_discard mb_discard_head mod_add_left_eq)
  then show "contents (mb_discard n b) ! i = drop n (contents b) ! i"
    using ok i by (simp add: nth_contents add.assoc)
qed

lemma ring_store_nth:
  fixes d src :: "'a list"
  assumes tail: "tail < length d" and fits: "length src \<le> length d" and k: "k < length d"
  defines "first \<equiv> min (length src) (length d - tail)"
  shows "copy_into (take tail d @ take first src @ drop (tail + first) d) (drop first src) ! k =
     (if k < length src - first then src ! (first + k)
      else if tail \<le> k \<and> k < tail + first then src ! (k - tail) else d ! k)"
proof (cases "length src \<le> length d - tail")
  case True
  then have "first = length src" by (simp add: first_def)
  then show ?thesis using tail k True by (auto simp: copy_into_def nth_append)
next
  case False
  then have f: "first = length d - tail" by (simp add: first_def)
  then have "tail + first = length d" using tail by simp
  then show ?thesis using f tail k False fits
    by (auto simp: copy_into_def nth_append not_less)
qed

lemma mb_write_frame [simp]:
  "mb_head (mb_write src b) = mb_head b"
  "mb_size (mb_write src b) = mb_size b + length src"
  by (simp_all add: mb_write_def Let_def)

lemma mb_write_length:
  "ring_ok b \<Longrightarrow> length (mb_data (mb_write src b)) = length (mb_data b)"
proof -
  assume "ring_ok b"
  then have "(mb_head b + mb_size b) mod length (mb_data b) < length (mb_data b)"
    unfolding ring_ok_def by (metis gr_zeroI less_nat_zero_code mod_less_divisor)
  then show ?thesis by (simp add: mb_write_def Let_def)
qed

lemma ring_ok_write:
  "ring_ok b \<Longrightarrow> mb_size b + length src \<le> length (mb_data b) \<Longrightarrow> ring_ok (mb_write src b)"
  by (simp add: ring_ok_def mb_write_length [unfolded ring_ok_def])

lemma contents_write:
  assumes ok: "ring_ok b" and fits: "mb_size b + length src \<le> length (mb_data b)"
  shows "contents (mb_write src b) = contents b @ src"
proof (rule nth_equalityI)
  show "length (contents (mb_write src b)) = length (contents b @ src)"
    using assms by (simp add: ring_ok_write)
next
  let ?c = "length (mb_data b)"
  let ?tail = "(mb_head b + mb_size b) mod ?c"
  let ?first = "min (length src) (?c - ?tail)"
  fix i assume "i < length (contents (mb_write src b))"
  then have i: "i < mb_size b + length src" using assms by (simp add: ring_ok_write)
  have h: "mb_head b < ?c" "mb_size b \<le> ?c" using ok by (simp_all add: ring_ok_def)
  then have c: "0 < ?c" by linarith
  then have tail: "?tail < ?c" by simp
  let ?k = "(mb_head b + i) mod ?c"
  have k: "?k < ?c" using c by simp
  have D: "contents (mb_write src b) ! i = mb_data (mb_write src b) ! ?k"
    using assms i by (simp add: nth_contents ring_ok_write mb_write_length)
  also have "\<dots> = (if ?k < length src - ?first then src ! (?first + ?k)
      else if ?tail \<le> ?k \<and> ?k < ?tail + ?first then src ! (?k - ?tail) else mb_data b ! ?k)"
    using ring_store_nth [OF tail _ k, of src] fits by (simp add: mb_write_def Let_def)
  also have "\<dots> = (contents b @ src) ! i"
  proof (cases "i < mb_size b")
    case True
    then have "\<not> ?k < length src - ?first" "\<not> (?tail \<le> ?k \<and> ?k < ?tail + ?first)"
      using h fits i by (auto simp: mod_below_twice min_def split: if_splits)
    then show ?thesis using True ok by (auto simp: nth_append nth_contents)
  next
    case False
    then have "if ?k < length src - ?first then ?first + ?k = i - mb_size b
        else ?tail \<le> ?k \<and> ?k < ?tail + ?first \<and> ?k - ?tail = i - mb_size b"
      using h fits i by (auto simp: mod_below_twice min_def split: if_splits)
    then show ?thesis using False ok by (auto simp: nth_append split: if_splits)
  qed
  finally show "contents (mb_write src b) ! i = (contents b @ src) ! i" .
qed

lemma mb_read_contents:
  assumes ok: "ring_ok b" and n: "n \<le> mb_size b"
  shows "mb_read n b = (take n (contents b), mb_discard n b)"
proof -
  let ?c = "length (mb_data b)"
  have h: "mb_head b < ?c" "mb_size b \<le> ?c" using ok by (simp_all add: ring_ok_def)
  have "rotate (mb_head b) (mb_data b) = drop (mb_head b) (mb_data b) @ take (mb_head b) (mb_data b)"
    using h by (simp add: rotate_drop_take)
  moreover have "take n (contents b) = take n (rotate (mb_head b) (mb_data b))"
    using n by (simp add: contents_def)
  moreover have "n - (?c - mb_head b) \<le> mb_head b" using h n by linarith
  ultimately have "take n (contents b)
      = take n (drop (mb_head b) (mb_data b)) @ take (n - (?c - mb_head b)) (mb_data b)"
    by (simp add: min_absorb1)
  then show ?thesis using h n
    by (auto simp: mb_read_def Let_def slice_def min_def)
qed

section \<open>Frame conditions\<close>

lemma recordWatermark_frame [simp]:
  "mb_data (recordWatermark b) = mb_data b" "mb_head (recordWatermark b) = mb_head b"
  "mb_size (recordWatermark b) = mb_size b"
  "mb_packetSize (recordWatermark b) = mb_packetSize b"
  "mb_pcmFrameSize (recordWatermark b) = mb_pcmFrameSize b"
  "mb_frameSize (recordWatermark b) = mb_frameSize b"
  "mb_targetSize (recordWatermark b) = mb_targetSize b"
  "mb_recoverySize (recordWatermark b) = mb_recoverySize b"
  "mb_queueCenter (recordWatermark b) = mb_queueCenter b"
  "mb_filteredQueueQ16 (recordWatermark b) = mb_filteredQueueQ16 b"
  "mb_servoRatePPM (recordWatermark b) = mb_servoRatePPM b"
  "mb_primed (recordWatermark b) = mb_primed b"
  "mb_needsReprime (recordWatermark b) = mb_needsReprime b"
  "mb_droppedBytes (recordWatermark b) = mb_droppedBytes b"
  "mb_underruns (recordWatermark b) = mb_underruns b"
  by (simp_all add: recordWatermark_def Let_def)

lemma recordQueueTime_frame [simp]:
  "mb_data (recordQueueTime t b) = mb_data b" "mb_head (recordQueueTime t b) = mb_head b"
  "mb_size (recordQueueTime t b) = mb_size b"
  "mb_packetSize (recordQueueTime t b) = mb_packetSize b"
  "mb_pcmFrameSize (recordQueueTime t b) = mb_pcmFrameSize b"
  "mb_frameSize (recordQueueTime t b) = mb_frameSize b"
  "mb_targetSize (recordQueueTime t b) = mb_targetSize b"
  "mb_recoverySize (recordQueueTime t b) = mb_recoverySize b"
  "mb_queueCenter (recordQueueTime t b) = mb_queueCenter b"
  "mb_filteredQueueQ16 (recordQueueTime t b) = mb_filteredQueueQ16 b"
  "mb_servoRatePPM (recordQueueTime t b) = mb_servoRatePPM b"
  "mb_primed (recordQueueTime t b) = mb_primed b"
  "mb_needsReprime (recordQueueTime t b) = mb_needsReprime b"
  "mb_droppedBytes (recordQueueTime t b) = mb_droppedBytes b"
  by (simp_all add: recordQueueTime_def Let_def split: option.split)

lemma recordReadTime_frame [simp]:
  "mb_data (recordReadTime t b) = mb_data b" "mb_head (recordReadTime t b) = mb_head b"
  "mb_size (recordReadTime t b) = mb_size b"
  "mb_packetSize (recordReadTime t b) = mb_packetSize b"
  "mb_pcmFrameSize (recordReadTime t b) = mb_pcmFrameSize b"
  "mb_frameSize (recordReadTime t b) = mb_frameSize b"
  "mb_targetSize (recordReadTime t b) = mb_targetSize b"
  "mb_recoverySize (recordReadTime t b) = mb_recoverySize b"
  "mb_queueCenter (recordReadTime t b) = mb_queueCenter b"
  "mb_filteredQueueQ16 (recordReadTime t b) = mb_filteredQueueQ16 b"
  "mb_servoRatePPM (recordReadTime t b) = mb_servoRatePPM b"
  "mb_primed (recordReadTime t b) = mb_primed b"
  "mb_needsReprime (recordReadTime t b) = mb_needsReprime b"
  "mb_droppedBytes (recordReadTime t b) = mb_droppedBytes b"
  by (simp_all add: recordReadTime_def Let_def split: option.split)

lemma mb_discard_frame [simp]:
  "mb_packetSize (mb_discard n b) = mb_packetSize b"
  "mb_pcmFrameSize (mb_discard n b) = mb_pcmFrameSize b"
  "mb_frameSize (mb_discard n b) = mb_frameSize b"
  "mb_targetSize (mb_discard n b) = mb_targetSize b"
  "mb_recoverySize (mb_discard n b) = mb_recoverySize b"
  "mb_queueCenter (mb_discard n b) = mb_queueCenter b"
  "mb_filteredQueueQ16 (mb_discard n b) = mb_filteredQueueQ16 b"
  "mb_servoRatePPM (mb_discard n b) = mb_servoRatePPM b"
  "mb_primed (mb_discard n b) = mb_primed b"
  "mb_needsReprime (mb_discard n b) = mb_needsReprime b"
  "mb_droppedBytes (mb_discard n b) = mb_droppedBytes b"
  by (simp_all add: mb_discard_def)

lemma mb_write_frame2 [simp]:
  "mb_packetSize (mb_write src b) = mb_packetSize b"
  "mb_pcmFrameSize (mb_write src b) = mb_pcmFrameSize b"
  "mb_frameSize (mb_write src b) = mb_frameSize b"
  "mb_targetSize (mb_write src b) = mb_targetSize b"
  "mb_recoverySize (mb_write src b) = mb_recoverySize b"
  "mb_queueCenter (mb_write src b) = mb_queueCenter b"
  "mb_filteredQueueQ16 (mb_write src b) = mb_filteredQueueQ16 b"
  "mb_servoRatePPM (mb_write src b) = mb_servoRatePPM b"
  "mb_primed (mb_write src b) = mb_primed b"
  "mb_needsReprime (mb_write src b) = mb_needsReprime b"
  "mb_droppedBytes (mb_write src b) = mb_droppedBytes b"
  by (simp_all add: mb_write_def Let_def)

section \<open>The invariant\<close>

definition geometry_ok :: "Buffer \<Rightarrow> bool" where
  "geometry_ok b \<longleftrightarrow> 0 < mb_pcmFrameSize b \<and> 0 < mb_packetSize b \<and> 0 < mb_frameSize b \<and>
     mb_pcmFrameSize b dvd mb_packetSize b \<and> mb_packetSize b dvd mb_frameSize b \<and>
     mb_frameSize b dvd length (mb_data b) \<and> mb_frameSize b \<le> length (mb_data b) \<and>
     mb_targetSize b \<le> length (mb_data b) \<and> mb_recoverySize b \<le> mb_targetSize b \<and>
     mb_frameSize b \<le> mb_recoverySize b \<and> mb_queueCenter b \<le> length (mb_data b)"

definition servo_ok :: "Buffer \<Rightarrow> bool" where
  "servo_ok b \<longleftrightarrow> 0 \<le> mb_filteredQueueQ16 b \<and>
     mb_filteredQueueQ16 b \<le> int (length (mb_data b)) * 2 ^ 16 \<and>
     \<bar>mb_servoRatePPM b\<bar> \<le> servoLimitPPM"

definition buffer_inv :: "Buffer \<Rightarrow> bool" where
  "buffer_inv b \<longleftrightarrow> ring_ok b \<and> geometry_ok b \<and> servo_ok b \<and>
     mb_pcmFrameSize b dvd mb_size b"

lemmas buffer_inv_defs = buffer_inv_def ring_ok_def geometry_ok_def servo_ok_def

lemma buffer_invD:
  assumes "buffer_inv b"
  shows "ring_ok b" "geometry_ok b" "servo_ok b" "mb_size b \<le> length (mb_data b)"
    "mb_frameSize b \<le> length (mb_data b)" "mb_pcmFrameSize b dvd mb_size b"
    "mb_pcmFrameSize b \<le> mb_packetSize b"
  using assms by (simp_all add: buffer_inv_defs dvd_imp_le)

lemma geometry_pcm_dvd:
  assumes "geometry_ok b"
  shows "mb_pcmFrameSize b dvd length (mb_data b)" "mb_pcmFrameSize b dvd mb_frameSize b"
proof -
  have d: "mb_pcmFrameSize b dvd mb_packetSize b" "mb_packetSize b dvd mb_frameSize b"
    "mb_frameSize b dvd length (mb_data b)"
    using assms by (simp_all add: geometry_ok_def)
  show f: "mb_pcmFrameSize b dvd mb_frameSize b" using d(1,2) by (rule dvd_trans)
  with d show "mb_pcmFrameSize b dvd length (mb_data b)" by (blast intro: dvd_trans)
qed

lemma New_fields:
  assumes "New p c f t m = Some b"
  shows "New_valid p c f t m" "mb_data b = replicate (nat (f * m)) 0" "mb_head b = 0"
    "mb_size b = 0" "mb_packetSize b = nat p" "mb_pcmFrameSize b = nat c"
    "mb_frameSize b = nat f" "mb_targetSize b = nat (f * t)"
    "mb_recoverySize b = nat (f * min t 2)" "mb_queueCenter b = nat (f * t - f div 2)"
    "mb_filteredQueueQ16 b = 0" "mb_servoRatePPM b = 0" "\<not> mb_primed b"
    "\<not> mb_needsReprime b"
  using assms by (auto simp: New_def Let_def recoveryClientFrames_def split: if_splits)

lemma New_inv:
  assumes "New p c f t m = Some b"
  shows "buffer_inv b \<and> contents b = []"
proof -
  note F = New_fields [OF assms]
  have v: "0 < p" "0 < c" "c dvd p" "0 < f" "p dvd f" "0 < t" "t \<le> m"
    using F(1) by (auto simp: New_valid_def mod_eq_0_iff_dvd)
  have f1: "f * 1 \<le> f * min t 2" by (rule mult_left_mono) (use v in auto)
  have f2: "f * min t 2 \<le> f * t" by (rule mult_left_mono) (use v in auto)
  have f3: "f * t \<le> f * m" by (rule mult_left_mono) (use v in auto)
  have f4: "f * t - f div 2 \<le> f * m" using f3 v(4) by linarith
  have d: "nat c dvd nat p" "nat p dvd nat f" "nat f dvd nat (f * m)"
    using v by (simp_all add: nat_dvd_iff)
  have l: "length (mb_data b) = nat (f * m)" by (simp add: F)
  have "0 < nat (f * m)" using v f1 f2 f3 by simp
  then have "ring_ok b" by (simp add: ring_ok_def F(3,4) l)
  moreover have "geometry_ok b"
    unfolding geometry_ok_def l F(5-10) using v d f1 f2 f3 f4 by (simp add: nat_mono)
  moreover have "servo_ok b" by (simp add: servo_ok_def F(11,12) servoLimitPPM_def)
  moreover have "contents b = []" by (simp add: contents_def F(4))
  ultimately show ?thesis by (simp add: buffer_inv_def F(4))
qed

lemma abs_clamp_le:
  "(0::int) \<le> l \<Longrightarrow> \<bar>if r > l then l else if r < - l then - l else r\<bar> \<le> l"
  by auto

lemma abs_le_servo_rate: "\<bar>servo_rate b f\<bar> \<le> servoLimitPPM"
  unfolding servo_rate_def Let_def by (rule abs_clamp_le) (simp add: servoLimitPPM_def)

lemma filter_step_bounds:
  fixes q cur M :: int
  assumes "0 \<le> q" "q \<le> M" "0 \<le> cur" "cur \<le> M"
  shows "0 \<le> q + (cur - q) div 64 \<and> q + (cur - q) div 64 \<le> M"
proof -
  define x where "x = cur - q"
  have "64 * (x div 64) + x mod 64 = x" "0 \<le> x mod 64" "x mod 64 < 64" by simp_all
  then have "x \<ge> 0 \<Longrightarrow> 0 \<le> x div 64 \<and> x div 64 \<le> x" "x < 0 \<Longrightarrow> x \<le> x div 64 \<and> x div 64 \<le> 0"
    by linarith+
  then show ?thesis using assms unfolding x_def [symmetric]
    by (cases "x \<ge> 0") (use x_def in linarith)+
qed

lemma observe_queue_frame [simp]:
  "mb_data (observe_queue b) = mb_data b" "mb_head (observe_queue b) = mb_head b"
  "mb_size (observe_queue b) = mb_size b"
  "mb_packetSize (observe_queue b) = mb_packetSize b"
  "mb_pcmFrameSize (observe_queue b) = mb_pcmFrameSize b"
  "mb_frameSize (observe_queue b) = mb_frameSize b"
  "mb_targetSize (observe_queue b) = mb_targetSize b"
  "mb_recoverySize (observe_queue b) = mb_recoverySize b"
  "mb_queueCenter (observe_queue b) = mb_queueCenter b"
  "mb_servoRatePPM (observe_queue b) = mb_servoRatePPM b"
  "mb_primed (observe_queue b) = mb_primed b"
  "mb_needsReprime (observe_queue b) = mb_needsReprime b"
  "mb_droppedBytes (observe_queue b) = mb_droppedBytes b"
  by (simp_all add: observe_queue_def Let_def)

lemma observe_queue_filter:
  assumes "buffer_inv b"
  shows "0 \<le> mb_filteredQueueQ16 (observe_queue b) \<and>
     mb_filteredQueueQ16 (observe_queue b) \<le> int (length (mb_data b)) * 2 ^ 16"
proof -
  define q where "q = (if mb_filterInitialized b then mb_filteredQueueQ16 b
    else int (mb_queueCenter b) * 2 ^ 16)"
  define cur where "cur = int (mb_size b - mb_packetSize b) * 2 ^ 16"
  have g: "0 \<le> mb_filteredQueueQ16 b" "mb_filteredQueueQ16 b \<le> int (length (mb_data b)) * 2 ^ 16"
    "mb_queueCenter b \<le> length (mb_data b)" "mb_size b - mb_packetSize b \<le> length (mb_data b)"
    using buffer_invD [OF assms] by (simp_all add: geometry_ok_def servo_ok_def)
  have "0 \<le> q" "q \<le> int (length (mb_data b)) * 2 ^ 16" using g by (simp_all add: q_def)
  moreover have "0 \<le> cur" "cur \<le> int (length (mb_data b)) * 2 ^ 16"
    using g by (simp_all add: cur_def)
  moreover have "mb_filteredQueueQ16 (observe_queue b) = q + (cur - q) div 64"
    by (simp add: observe_queue_def Let_def occupancyFilterShift_def q_def cur_def)
  ultimately show ?thesis by (simp only: filter_step_bounds)
qed

section \<open>Queueing\<close>


lemma update_priming_frame [simp]:
  "mb_data (update_priming b) = mb_data b" "mb_head (update_priming b) = mb_head b"
  "mb_size (update_priming b) = mb_size b"
  "mb_packetSize (update_priming b) = mb_packetSize b"
  "mb_pcmFrameSize (update_priming b) = mb_pcmFrameSize b"
  "mb_frameSize (update_priming b) = mb_frameSize b"
  "mb_targetSize (update_priming b) = mb_targetSize b"
  "mb_recoverySize (update_priming b) = mb_recoverySize b"
  "mb_queueCenter (update_priming b) = mb_queueCenter b"
  "mb_filteredQueueQ16 (update_priming b) = mb_filteredQueueQ16 b"
  "mb_servoRatePPM (update_priming b) = mb_servoRatePPM b"
  "mb_droppedBytes (update_priming b) = mb_droppedBytes b"
  by (simp_all add: update_priming_def Let_def)

lemma make_room_frame [simp]:
  "mb_data (make_room n b) = mb_data b"
  "mb_size (make_room n b) = mb_size b - (mb_size b + n - length (mb_data b))"
  "mb_packetSize (make_room n b) = mb_packetSize b"
  "mb_pcmFrameSize (make_room n b) = mb_pcmFrameSize b"
  "mb_frameSize (make_room n b) = mb_frameSize b"
  "mb_targetSize (make_room n b) = mb_targetSize b"
  "mb_recoverySize (make_room n b) = mb_recoverySize b"
  "mb_queueCenter (make_room n b) = mb_queueCenter b"
  "mb_filteredQueueQ16 (make_room n b) = mb_filteredQueueQ16 b"
  "mb_servoRatePPM (make_room n b) = mb_servoRatePPM b"
  "mb_primed (make_room n b) = mb_primed b"
  "mb_needsReprime (make_room n b) = mb_needsReprime b"
  "mb_droppedBytes (make_room n b) =
     mb_droppedBytes b + of_nat (mb_size b + n - length (mb_data b))"
  by (simp_all add: make_room_def Let_def)

lemma contents_eqI:
  "mb_data b' = mb_data b \<Longrightarrow> mb_head b' = mb_head b \<Longrightarrow> mb_size b' = mb_size b \<Longrightarrow>
     contents b' = contents b"
  by (simp add: contents_def)

lemma ring_ok_eqI:
  "ring_ok b \<Longrightarrow> mb_data b' = mb_data b \<Longrightarrow> mb_head b' = mb_head b \<Longrightarrow>
     mb_size b' = mb_size b \<Longrightarrow> ring_ok b'"
  by (simp add: ring_ok_def)

lemma make_room_ring:
  assumes "ring_ok b"
  shows "ring_ok (make_room n b) \<and>
     contents (make_room n b) = drop (mb_size b + n - length (mb_data b)) (contents b)"
proof -
  let ?k = "mb_size b + n - length (mb_data b)"
  have "mb_head (make_room n b) = mb_head (mb_discard ?k b)"
    by (simp add: make_room_def Let_def mb_discard_def)
  then have "contents (make_room n b) = contents (mb_discard ?k b)"
    "ring_ok (make_room n b) = ring_ok (mb_discard ?k b)"
    by (simp_all add: contents_def ring_ok_def)
  then show ?thesis using assms by (simp add: contents_discard ring_ok_discard)
qed

lemma QueueFrame_ring:
  fixes now :: int
  assumes inv: "buffer_inv b" and len: "length frame = mb_frameSize b"
  defines "b1 \<equiv> recordQueueTime now b"
  defines "b3 \<equiv> mb_write frame (make_room (length frame) b1)"
  shows "ring_ok b3 \<and>
     contents b3 = drop (mb_size b + length frame - length (mb_data b)) (contents b @ frame)"
proof -
  let ?k = "mb_size b + length frame - length (mb_data b)"
  note D = buffer_invD [OF inv]
  have ok: "ring_ok b1" using D(1) by (rule ring_ok_eqI) (simp_all add: b1_def)
  have c1: "contents b1 = contents b" by (rule contents_eqI) (simp_all add: b1_def)
  have r: "ring_ok (make_room (length frame) b1)"
    "contents (make_room (length frame) b1) = drop ?k (contents b)"
    using make_room_ring [OF ok, of "length frame"] by (simp_all add: c1) (simp add: b1_def)
  have fits: "mb_size (make_room (length frame) b1) + length frame
      \<le> length (mb_data (make_room (length frame) b1))"
    using D(4,5) len by (simp add: b1_def)
  have "?k \<le> length (contents b)" using D len by simp
  then show ?thesis using r fits by (simp add: b3_def ring_ok_write contents_write)
qed

lemma QueueFrame_size:
  assumes "buffer_inv b" "length frame = mb_frameSize b"
  shows "mb_size (snd (QueueFrame now frame b)) = min (length (mb_data b)) (mb_size b + length frame)"
  using buffer_invD [OF assms(1)] assms(2) by (simp add: QueueFrame_def Let_def min_def)

lemma QueueFrame_contents:
  assumes "buffer_inv b" "length frame = mb_frameSize b"
  shows "contents (snd (QueueFrame now frame b)) =
     drop (mb_size b + length frame - length (mb_data b)) (contents b @ frame)"
proof -
  let ?b3 = "mb_write frame (make_room (length frame) (recordQueueTime now b))"
  have "contents (snd (QueueFrame now frame b)) = contents ?b3"
    using assms(2) by (intro contents_eqI) (simp_all add: QueueFrame_def Let_def)
  then show ?thesis using QueueFrame_ring [OF assms] by simp
qed

lemma QueueFrame_frame [simp]:
  "ring_ok b \<Longrightarrow> length (mb_data (snd (QueueFrame now frame b))) = length (mb_data b)"
  "mb_packetSize (snd (QueueFrame now frame b)) = mb_packetSize b"
  "mb_pcmFrameSize (snd (QueueFrame now frame b)) = mb_pcmFrameSize b"
  "mb_frameSize (snd (QueueFrame now frame b)) = mb_frameSize b"
  "mb_targetSize (snd (QueueFrame now frame b)) = mb_targetSize b"
  "mb_recoverySize (snd (QueueFrame now frame b)) = mb_recoverySize b"
  "mb_queueCenter (snd (QueueFrame now frame b)) = mb_queueCenter b"
  "mb_filteredQueueQ16 (snd (QueueFrame now frame b)) = mb_filteredQueueQ16 b"
  "mb_servoRatePPM (snd (QueueFrame now frame b)) = mb_servoRatePPM b"
proof -
  assume ok: "ring_ok b"
  have "ring_ok (make_room n (recordQueueTime now b))" for n
    using make_room_ring [OF ring_ok_eqI [OF ok]] by simp
  then show "length (mb_data (snd (QueueFrame now frame b))) = length (mb_data b)"
    by (simp add: QueueFrame_def Let_def mb_write_length)
qed (simp_all add: QueueFrame_def Let_def)

lemma pcm_dvd_min:
  "(d::nat) dvd a \<Longrightarrow> d dvd b \<Longrightarrow> d dvd min a b"
  by (simp add: min_def)

lemma QueueFrame_inv:
  assumes inv: "buffer_inv b"
  shows "buffer_inv (snd (QueueFrame now frame b))"
proof (cases "length frame = mb_frameSize b")
  case False
  then show ?thesis using inv by (simp add: QueueFrame_def)
next
  case True
  note D = buffer_invD [OF inv]
  let ?b' = "snd (QueueFrame now frame b)"
  have "ring_ok ?b'" 
    by (rule ring_ok_eqI [OF conjunct1 [OF QueueFrame_ring [OF inv True, of now]]])
      (simp_all add: QueueFrame_def Let_def True)
  moreover have "geometry_ok ?b'" "servo_ok ?b'"
    using D(1-3) by (simp_all add: geometry_ok_def servo_ok_def)
  moreover have "mb_pcmFrameSize b dvd mb_size ?b'"
    using D geometry_pcm_dvd [OF D(2)] True by (simp add: QueueFrame_size inv pcm_dvd_min)
  ultimately show ?thesis by (simp add: buffer_inv_def)
qed

section \<open>ReadPacket\<close>

lemma nextPacketSize_frame [simp]:
  "mb_data (snd (nextPacketSize b)) = mb_data b" "mb_head (snd (nextPacketSize b)) = mb_head b"
  "mb_size (snd (nextPacketSize b)) = mb_size b"
  "mb_packetSize (snd (nextPacketSize b)) = mb_packetSize b"
  "mb_pcmFrameSize (snd (nextPacketSize b)) = mb_pcmFrameSize b"
  "mb_frameSize (snd (nextPacketSize b)) = mb_frameSize b"
  "mb_targetSize (snd (nextPacketSize b)) = mb_targetSize b"
  "mb_recoverySize (snd (nextPacketSize b)) = mb_recoverySize b"
  "mb_queueCenter (snd (nextPacketSize b)) = mb_queueCenter b"
  "mb_filteredQueueQ16 (snd (nextPacketSize b)) = mb_filteredQueueQ16 (observe_queue b)"
  "\<bar>mb_servoRatePPM (snd (nextPacketSize b))\<bar> \<le> servoLimitPPM"
  "mb_primed (snd (nextPacketSize b)) = mb_primed b"
  "mb_needsReprime (snd (nextPacketSize b)) = mb_needsReprime b"
  "mb_droppedBytes (snd (nextPacketSize b)) = mb_droppedBytes b"
  by (simp_all add: nextPacketSize_def Let_def abs_le_servo_rate)

definition legal_packet :: "Buffer \<Rightarrow> nat \<Rightarrow> bool" where
  "legal_packet b n \<longleftrightarrow> n = mb_packetSize b - mb_pcmFrameSize b \<or> n = mb_packetSize b \<or>
     n = mb_packetSize b + mb_pcmFrameSize b"

lemma nextPacketSize_legal: "legal_packet b (fst (nextPacketSize b))"
  by (simp add: nextPacketSize_def Let_def legal_packet_def)

lemma legal_packet_dvd:
  "geometry_ok b \<Longrightarrow> legal_packet b n \<Longrightarrow> mb_pcmFrameSize b dvd n"
  by (auto simp: geometry_ok_def legal_packet_def)

lemma nextPacketSize_inv:
  assumes "buffer_inv b"
  shows "buffer_inv (snd (nextPacketSize b))"
  using assms buffer_invD [OF assms] observe_queue_filter [OF assms]
  by (simp add: buffer_inv_def ring_ok_def geometry_ok_def servo_ok_def)

lemma commitPacketSize_frame [simp]:
  "mb_data (commitPacketSize n b) = mb_data b" "mb_head (commitPacketSize n b) = mb_head b"
  "mb_size (commitPacketSize n b) = mb_size b"
  "mb_packetSize (commitPacketSize n b) = mb_packetSize b"
  "mb_pcmFrameSize (commitPacketSize n b) = mb_pcmFrameSize b"
  "mb_frameSize (commitPacketSize n b) = mb_frameSize b"
  "mb_targetSize (commitPacketSize n b) = mb_targetSize b"
  "mb_recoverySize (commitPacketSize n b) = mb_recoverySize b"
  "mb_queueCenter (commitPacketSize n b) = mb_queueCenter b"
  "mb_filteredQueueQ16 (commitPacketSize n b) = mb_filteredQueueQ16 b"
  "mb_servoRatePPM (commitPacketSize n b) = mb_servoRatePPM b"
  "mb_primed (commitPacketSize n b) = mb_primed b"
  "mb_needsReprime (commitPacketSize n b) = mb_needsReprime b"
  "mb_droppedBytes (commitPacketSize n b) = mb_droppedBytes b"
  by (simp_all add: commitPacketSize_def)

lemma serve_packet_spec:
  assumes inv: "buffer_inv b" and n: "n \<le> mb_size b" "mb_pcmFrameSize b dvd n"
  obtains b' where
    "serve_packet now dst n b = ((n, True, take n (contents b) @ drop n dst), b')"
    "contents b' = drop n (contents b)" "buffer_inv b'" "length (mb_data b') = length (mb_data b)"
    "mb_droppedBytes b' = mb_droppedBytes b" "mb_primed b' = mb_primed b"
proof -
  note D = buffer_invD [OF inv]
  let ?b1 = "commitPacketSize n b"
  have ok1: "ring_ok ?b1" using D(1) by (rule ring_ok_eqI) simp_all
  have c1: "contents ?b1 = contents b" by (rule contents_eqI) simp_all
  have rd: "mb_read n ?b1 = (take n (contents b), mb_discard n ?b1)"
    using mb_read_contents [OF ok1] n by (simp add: c1)
  define b' where "b' = snd (serve_packet now dst n b)"
  have f: "serve_packet now dst n b = ((n, True, take n (contents b) @ drop n dst), b')"
    by (simp add: b'_def serve_packet_def Let_def rd)
  have same: "mb_data b' = mb_data (mb_discard n ?b1)" "mb_head b' = mb_head (mb_discard n ?b1)"
    "mb_size b' = mb_size (mb_discard n ?b1)"
    by (simp_all add: b'_def serve_packet_def Let_def rd)
  have "contents b' = drop n (contents b)"
    using contents_eqI [OF same] contents_discard [OF ok1] by (simp add: c1)
  moreover have "ring_ok b'" using ring_ok_eqI [OF ring_ok_discard [OF ok1] same] .
  moreover have "geometry_ok b'" "servo_ok b'" "mb_pcmFrameSize b' dvd mb_size b'"
    using D(2,3,6) n by (simp_all add: b'_def serve_packet_def Let_def rd geometry_ok_def servo_ok_def)
  ultimately show ?thesis using that [OF f]
    by (simp add: buffer_inv_def) (simp add: b'_def serve_packet_def Let_def rd)
qed

lemma underrun_spec:
  assumes inv: "buffer_inv b"
  shows "buffer_inv (underrun b) \<and> contents (underrun b) = contents b \<and>
    length (mb_data (underrun b)) = length (mb_data b) \<and>
    mb_droppedBytes (underrun b) = mb_droppedBytes b \<and> \<not> mb_primed (underrun b) \<and>
    mb_needsReprime (underrun b)"
proof -
  note D = buffer_invD [OF inv]
  have "mb_size b mod mb_pcmFrameSize b = 0" using D(6) by simp
  then have fields: "mb_data (underrun b) = mb_data b" "mb_size (underrun b) = mb_size b"
    "mb_head (underrun b) = (if mb_size b = 0 then 0 else mb_head b)"
    by (simp_all add: underrun_def resetServo_def Let_def)
  then have "ring_ok (underrun b)" "contents (underrun b) = contents b"
    using D(1) by (auto simp: ring_ok_def contents_def)
  moreover have "geometry_ok (underrun b)" "servo_ok (underrun b)"
    using D(2) by (simp_all add: underrun_def resetServo_def Let_def geometry_ok_def servo_ok_def
        servoLimitPPM_def)
  moreover have "mb_pcmFrameSize (underrun b) = mb_pcmFrameSize b"
    by (simp add: underrun_def resetServo_def Let_def)
  ultimately show ?thesis using fields D(6)
    by (simp add: buffer_inv_def) (simp add: underrun_def resetServo_def Let_def)
qed

lemma ReadPacket_cases:
  assumes inv: "buffer_inv b"
  obtains (served) n b' where
    "ReadPacket now dst b = ((n, True, take n (contents b) @ drop n dst), b')"
    "legal_packet b n" "n \<le> mb_size b" "mb_primed b" "contents b' = drop n (contents b)"
    "buffer_inv b'" "length (mb_data b') = length (mb_data b)"
    "mb_droppedBytes b' = mb_droppedBytes b"
  | (refused) "ReadPacket now dst b = ((0, False, dst), b)"
    "length dst < mb_packetSize b + mb_pcmFrameSize b \<or> \<not> mb_primed b"
  | (starved) b' where "ReadPacket now dst b = ((0, False, dst), b')" "mb_primed b"
    "mb_size b < mb_packetSize b - mb_pcmFrameSize b" "contents b' = contents b"
    "buffer_inv b'" "length (mb_data b') = length (mb_data b)"
    "mb_droppedBytes b' = mb_droppedBytes b" "\<not> mb_primed b'" "mb_needsReprime b'"
proof (cases "length dst < mb_packetSize b + mb_pcmFrameSize b \<or> \<not> mb_primed b")
  case True
  then show ?thesis using refused by (auto simp: ReadPacket_def)
next
  case False
  let ?b1 = "snd (nextPacketSize b)" and ?a = "fst (nextPacketSize b)"
  let ?short = "mb_packetSize b - mb_pcmFrameSize b"
  have inv1: "buffer_inv ?b1" using inv by (rule nextPacketSize_inv)
  have c1: "contents ?b1 = contents b" by (rule contents_eqI) simp_all
  have serve: ?thesis if n: "legal_packet b n" "n \<le> mb_size b"
    and rp: "ReadPacket now dst b = serve_packet now dst n ?b1" for n
  proof -
    have "mb_pcmFrameSize b dvd n" using legal_packet_dvd buffer_invD(2) [OF inv] n by blast
    then have d: "n \<le> mb_size ?b1" "mb_pcmFrameSize ?b1 dvd n" using n by simp_all
    obtain b' where
      "serve_packet now dst n ?b1 = ((n, True, take n (contents ?b1) @ drop n dst), b')"
      "contents b' = drop n (contents ?b1)" "buffer_inv b'"
      "length (mb_data b') = length (mb_data ?b1)" "mb_droppedBytes b' = mb_droppedBytes ?b1"
      using serve_packet_spec [OF inv1 d, of now dst] by blast
    then show ?thesis using served n rp False by (simp add: c1)
  qed
  have legal: "legal_packet b (mb_packetSize b)" "legal_packet b ?short"
    by (simp_all add: legal_packet_def)
  consider "?a \<le> mb_size b" | "mb_size b < ?a" "mb_packetSize b \<le> mb_size b"
    | "mb_size b < ?a" "mb_size b < mb_packetSize b" "?short \<le> mb_size b"
    | "mb_size b < ?a" "mb_size b < ?short" by linarith
  then show ?thesis
  proof cases
    case 1
    then show ?thesis using False nextPacketSize_legal
      by (intro serve [of ?a]) (simp_all add: ReadPacket_def split_beta)
  next
    case 2
    then show ?thesis using False legal
      by (intro serve [of "mb_packetSize b"]) (simp_all add: ReadPacket_def split_beta)
  next
    case 3
    then show ?thesis using False legal
      by (intro serve [of ?short]) (simp_all add: ReadPacket_def split_beta)
  next
    case 4
    then have "ReadPacket now dst b = ((0, False, dst), underrun ?b1)"
      using False by (auto simp: ReadPacket_def split_beta Let_def)
    then show ?thesis using underrun_spec [OF inv1] False 4
      by (intro starved [of "underrun ?b1"]) (simp_all add: c1)
  qed
qed

lemma ReadPacket_inv: "buffer_inv b \<Longrightarrow> buffer_inv (snd (ReadPacket now dst b))"
  by (rule ReadPacket_cases [of b now dst]) simp_all

section \<open>The buffer as a bounded, lossy queue\<close>

datatype ('i, 'r) fifo_op = Put 'i | Get 'r

fun fifo_run ::
    "('i \<Rightarrow> 'b \<Rightarrow> bool \<times> 'b) \<Rightarrow> ('i \<Rightarrow> bytes) \<Rightarrow> ('r \<Rightarrow> 'b \<Rightarrow> bytes \<times> 'b) \<Rightarrow>
     ('i, 'r) fifo_op list \<Rightarrow> 'b \<Rightarrow> bytes \<times> bytes \<times> 'b" where
  "fifo_run put payload get [] b = ([], [], b)"
| "fifo_run put payload get (Put i # ops) b =
     (let (ok, b1) = put i b; (ins, outs, b2) = fifo_run put payload get ops b1
      in (if ok then payload i @ ins else ins, outs, b2))"
| "fifo_run put payload get (Get r # ops) b =
     (let (out, b1) = get r b; (ins, outs, b2) = fifo_run put payload get ops b1
      in (ins, out @ outs, b2))"

locale pcm_fifo =
  fixes inv :: "'b \<Rightarrow> bool"
    and queued :: "'b \<Rightarrow> bytes"
    and capacity :: "'b \<Rightarrow> nat"
    and put :: "'i \<Rightarrow> 'b \<Rightarrow> bool \<times> 'b"
    and payload :: "'i \<Rightarrow> bytes"
    and get :: "'r \<Rightarrow> 'b \<Rightarrow> bytes \<times> 'b"
    and dropped :: "'b \<Rightarrow> u64"
  assumes put_inv: "inv b \<Longrightarrow> inv (snd (put i b))"
    and put_capacity: "inv b \<Longrightarrow> capacity (snd (put i b)) = capacity b"
    and put_accepts: "inv b \<Longrightarrow> fst (put i b) \<Longrightarrow> queued (snd (put i b)) =
      drop (length (queued b) + length (payload i) - capacity b) (queued b @ payload i)"
    and put_rejects: "inv b \<Longrightarrow> \<not> fst (put i b) \<Longrightarrow> snd (put i b) = b"
    and get_inv: "inv b \<Longrightarrow> inv (snd (get r b))"
    and get_capacity: "inv b \<Longrightarrow> capacity (snd (get r b)) = capacity b"
    and get_prefix: "inv b \<Longrightarrow> queued b = fst (get r b) @ queued (snd (get r b))"
    and bounded: "inv b \<Longrightarrow> length (queued b) \<le> capacity b"
    and put_dropped: "inv b \<Longrightarrow> fst (put i b) \<Longrightarrow> dropped (snd (put i b)) =
      dropped b + of_nat (length (queued b) + length (payload i) - capacity b)"
    and get_dropped: "inv b \<Longrightarrow> dropped (snd (get r b)) = dropped b"
begin

lemma run_inv: "inv b \<Longrightarrow> inv (snd (snd (fifo_run put payload get ops b)))"
proof (induction ops arbitrary: b)
  case Nil
  then show ?case by simp
next
  case (Cons op ops)
  then show ?case
    by (cases op) (simp_all add: split_beta Let_def put_inv get_inv)
qed

lemma run_capacity:
  "inv b \<Longrightarrow> capacity (snd (snd (fifo_run put payload get ops b))) = capacity b"
proof (induction ops arbitrary: b)
  case Nil
  then show ?case by simp
next
  case (Cons op ops)
  then show ?case
    by (cases op) (simp_all add: split_beta Let_def put_inv get_inv put_capacity get_capacity)
qed

lemma put_accounting:
  assumes "inv b" "fst (put i b)"
  shows "dropped (snd (put i b)) + of_nat (length (queued (snd (put i b)))) =
    dropped b + of_nat (length (queued b) + length (payload i))"
proof -
  let ?n = "length (queued b) + length (payload i)"
  let ?k = "?n - capacity b"
  have "length (queued (snd (put i b))) = ?n - ?k" using put_accepts [OF assms] by simp
  then have "of_nat (length (queued (snd (put i b)))) + of_nat ?k = (of_nat ?n :: u64)"
    by (metis diff_le_self le_add_diff_inverse2 of_nat_add)
  then show ?thesis using put_dropped [OF assms] by (simp add: algebra_simps)
qed

lemma run_accounting:
  assumes "inv b" "fifo_run put payload get ops b = (ins, outs, b')"
  shows "dropped b' + of_nat (length outs + length (queued b')) =
    dropped b + of_nat (length (queued b) + length ins)"
  using assms
proof (induction ops arbitrary: b ins outs)
  case Nil
  then show ?case by simp
next
  case (Cons op ops)
  show ?case
  proof (cases op)
    case (Put i)
    obtain ins1 where run: "fifo_run put payload get ops (snd (put i b)) = (ins1, outs, b')"
      and ins: "ins = (if fst (put i b) then payload i @ ins1 else ins1)"
      using Cons.prems Put
      by (cases "fifo_run put payload get ops (snd (put i b))") (auto simp: split_beta)
    note IH = Cons.IH [OF put_inv [OF Cons.prems(1)] run]
    show ?thesis
    proof (cases "fst (put i b)")
      case True
      then show ?thesis using IH ins put_accounting [OF Cons.prems(1) True]
        by (simp add: algebra_simps)
    next
      case False
      then show ?thesis using IH ins put_rejects [OF Cons.prems(1) False] by simp
    qed
  next
    case (Get r)
    obtain outs1 where run: "fifo_run put payload get ops (snd (get r b)) = (ins, outs1, b')"
      and outs: "outs = fst (get r b) @ outs1"
      using Cons.prems Get
      by (cases "fifo_run put payload get ops (snd (get r b))") (simp add: split_beta)
    have "length (queued b) = length (fst (get r b)) + length (queued (snd (get r b)))"
      using get_prefix [OF Cons.prems(1), of r] by (metis length_append)
    then show ?thesis
      using Cons.IH [OF get_inv [OF Cons.prems(1)] run] outs get_dropped [OF Cons.prems(1)]
      by (simp add: algebra_simps)
  qed
qed

lemma run_subseq:
  assumes "inv b" "fifo_run put payload get ops b = (ins, outs, b')"
  shows "subseq (outs @ queued b') (queued b @ ins)"
  using assms
proof (induction ops arbitrary: b ins outs)
  case Nil
  then show ?case by simp
next
  case (Cons op ops)
  show ?case
  proof (cases op)
    case (Put i)
    obtain ins1 where run: "fifo_run put payload get ops (snd (put i b)) = (ins1, outs, b')"
      and ins: "ins = (if fst (put i b) then payload i @ ins1 else ins1)"
      using Cons.prems Put
      by (cases "fifo_run put payload get ops (snd (put i b))") (auto simp: split_beta)
    have "subseq (outs @ queued b') (queued (snd (put i b)) @ ins1)"
      using Cons.IH [OF put_inv [OF Cons.prems(1)] run] .
    moreover have "subseq (queued (snd (put i b)) @ ins1) (queued b @ ins)"
    proof (cases "fst (put i b)")
      case True
      have "suffix (queued (snd (put i b))) (queued b @ payload i)"
        unfolding put_accepts [OF Cons.prems(1) True] by (rule suffix_drop)
      then show ?thesis using True ins
        by (metis append.assoc list_emb_append_mono suffix_imp_subseq subseq_order.refl)
    next
      case False
      then show ?thesis using ins put_rejects Cons.prems(1) by simp
    qed
    ultimately show ?thesis by (rule subseq_order.trans)
  next
    case (Get r)
    obtain outs1 where run: "fifo_run put payload get ops (snd (get r b)) = (ins, outs1, b')"
      and outs: "outs = fst (get r b) @ outs1"
      using Cons.prems Get
      by (cases "fifo_run put payload get ops (snd (get r b))") (simp add: split_beta)
    have "subseq (outs1 @ queued b') (queued (snd (get r b)) @ ins)"
      using Cons.IH [OF get_inv [OF Cons.prems(1)] run] .
    then have "subseq (fst (get r b) @ outs1 @ queued b')
        (fst (get r b) @ queued (snd (get r b)) @ ins)"
      by (rule list_emb_append_mono [OF subseq_order.refl])
    then show ?thesis using outs get_prefix [OF Cons.prems(1), of r] by (metis append.assoc)
  qed
qed

end

definition read_bytes :: "int \<times> bytes \<Rightarrow> Buffer \<Rightarrow> bytes \<times> Buffer" where
  "read_bytes r b = (let ((n, ok, dst'), b') = ReadPacket (fst r) (snd r) b in (take n dst', b'))"

definition queue_frame :: "int \<times> bytes \<Rightarrow> Buffer \<Rightarrow> bool \<times> Buffer" where
  "queue_frame i b = QueueFrame (fst i) (snd i) b"

lemma read_bytes_spec:
  assumes "buffer_inv b"
  shows "buffer_inv (snd (read_bytes r b)) \<and>
    length (mb_data (snd (read_bytes r b))) = length (mb_data b) \<and>
    contents b = fst (read_bytes r b) @ contents (snd (read_bytes r b)) \<and>
    mb_droppedBytes (snd (read_bytes r b)) = mb_droppedBytes b"
  using assms
  by (cases rule: ReadPacket_cases [OF assms, of "fst r" "snd r"])
    (simp_all add: read_bytes_def buffer_invD(1))

interpretation mic: pcm_fifo buffer_inv contents "\<lambda>b. length (mb_data b)" queue_frame snd read_bytes
    mb_droppedBytes
proof
  fix b :: Buffer and i r :: "int \<times> bytes"
  assume inv: "buffer_inv b"
  note D = buffer_invD [OF inv]
  show "buffer_inv (snd (queue_frame i b))" using inv by (simp add: queue_frame_def QueueFrame_inv)
  show "length (mb_data (snd (queue_frame i b))) = length (mb_data b)"
    using D(1) by (simp add: queue_frame_def)
  show "length (contents b) \<le> length (mb_data b)" using D by simp
  show "buffer_inv (snd (read_bytes r b))"
    "length (mb_data (snd (read_bytes r b))) = length (mb_data b)"
    "contents b = fst (read_bytes r b) @ contents (snd (read_bytes r b))"
    "mb_droppedBytes (snd (read_bytes r b)) = mb_droppedBytes b"
    using read_bytes_spec [OF inv, of r] by simp_all
  show "snd (queue_frame i b) = b" if "\<not> fst (queue_frame i b)"
    using that by (simp add: queue_frame_def QueueFrame_def Let_def split: if_splits)
  show "contents (snd (queue_frame i b))
      = drop (length (contents b) + length (snd i) - length (mb_data b)) (contents b @ snd i)"
    if ok: "fst (queue_frame i b)"
  proof -
    have "length (snd i) = mb_frameSize b"
      using ok by (simp add: queue_frame_def QueueFrame_def split: if_splits)
    then show ?thesis using QueueFrame_contents [OF inv] D(1) by (simp add: queue_frame_def)
  qed
  show "mb_droppedBytes (snd (queue_frame i b)) = mb_droppedBytes b +
      of_nat (length (contents b) + length (snd i) - length (mb_data b))"
    if "fst (queue_frame i b)"
    using that D(1) by (simp add: queue_frame_def QueueFrame_def Let_def split: if_splits)
qed

lemma QueueFrame_primes:
  assumes "\<not> mb_primed b" "mb_primed (snd (QueueFrame now frame b))"
  shows "primeSize b \<le> mb_size (snd (QueueFrame now frame b)) \<and>
    \<not> mb_needsReprime (snd (QueueFrame now frame b))"
  using assms
  by (auto simp: QueueFrame_def Let_def update_priming_def primeSize_def split: if_splits)

lemma ReadPacket_never_primes:
  assumes "buffer_inv b" "mb_primed (snd (ReadPacket now dst b))"
  shows "mb_primed b"
  using assms by (cases rule: ReadPacket_cases [OF assms(1), of now dst]) simp_all

section \<open>Properties\<close>

text \<open>C8: Start from any valid geometry and run any interleaving of \<open>QueueFrame\<close> and
  \<open>ReadPacket\<close> calls. The buffer keeps its invariant and its latency bound, and what the host
  has read followed by what is still queued is a subsequence of the accepted frames: capture
  is never reordered, duplicated or invented, overflow only removes bytes.\<close>

theorem mic_run_fifo:
  assumes "New packetSize pcmFrameSize frameSize targetFrames maximumFrames = Some b0"
    and "fifo_run queue_frame snd read_bytes ops b0 = (accepted, emitted, b)"
  shows "buffer_inv b \<and> length (contents b) \<le> nat (frameSize * maximumFrames) \<and>
    subseq (emitted @ contents b) accepted"
proof -
  have inv0: "buffer_inv b0" and c0: "contents b0 = []" using New_inv [OF assms(1)] by simp_all
  have inv: "buffer_inv b" using mic.run_inv [OF inv0, of ops] assms(2) by simp
  have "length (mb_data b) = length (mb_data b0)"
    using mic.run_capacity [OF inv0, of ops] assms(2) by simp
  then have "length (contents b) \<le> nat (frameSize * maximumFrames)"
    using mic.bounded [OF inv] New_fields(2) [OF assms(1)] by simp
  then show ?thesis using inv mic.run_subseq [OF inv0 assms(2)] c0 by simp
qed

definition demo_mic :: Buffer where
  "demo_mic = the (New 2 1 4 1 2)"

definition demo_mic_ops :: "(int \<times> bytes, int \<times> bytes) fifo_op list" where
  "demo_mic_ops = [Put (0, [1, 2, 3, 4]), Get (1, [0, 0, 0]), Put (2, [5, 6, 7, 8]),
     Put (3, [9, 10, 11, 12]), Get (4, [0, 0, 0])]"

lemma demo_mic_New: "New 2 1 4 1 2 = Some demo_mic"
  by code_simp

lemma demo_mic_run:
  "fst (fifo_run queue_frame snd read_bytes demo_mic_ops demo_mic)
     = [1, 2, 3, 4, 5, 6, 7, 8, 9, 10, 11, 12]"
  "fst (snd (fifo_run queue_frame snd read_bytes demo_mic_ops demo_mic)) = [1, 2, 5, 6]"
  by code_simp+

theorem mic_run_fifo_witness:
  "buffer_inv (snd (snd (fifo_run queue_frame snd read_bytes demo_mic_ops demo_mic))) \<and>
   subseq ([1, 2, 5, 6] @ contents (snd (snd (fifo_run queue_frame snd read_bytes demo_mic_ops demo_mic))))
     [1, 2, 3, 4, 5, 6, 7, 8, 9, 10, 11, 12]"
  using mic_run_fifo [OF demo_mic_New, of demo_mic_ops] demo_mic_run
  by (metis prod.collapse)


text \<open>C9: In every such run the counter \<open>droppedBytes\<close> accounts for each missing byte: bytes
  accepted are bytes emitted plus bytes still queued plus bytes counted as dropped (in the
  64-bit arithmetic of the counter).\<close>

theorem mic_run_accounting:
  assumes "New packetSize pcmFrameSize frameSize targetFrames maximumFrames = Some b0"
    and "fifo_run queue_frame snd read_bytes ops b0 = (accepted, emitted, b)"
  shows "of_nat (length accepted) =
    mb_droppedBytes b + of_nat (length emitted + length (contents b))"
proof -
  have inv0: "buffer_inv b0" and c0: "contents b0 = []" using New_inv [OF assms(1)] by simp_all
  have "mb_droppedBytes b0 = 0"
    using assms(1) by (auto simp: New_def Let_def split: if_splits)
  then show ?thesis using mic.run_accounting [OF inv0 assms(2)] c0 by simp
qed

theorem mic_run_accounting_witness:
  "of_nat 12 =
     mb_droppedBytes (snd (snd (fifo_run queue_frame snd read_bytes demo_mic_ops demo_mic))) +
     of_nat (4 + length (contents
       (snd (snd (fifo_run queue_frame snd read_bytes demo_mic_ops demo_mic)))))"
proof -
  let ?r = "fifo_run queue_frame snd read_bytes demo_mic_ops demo_mic"
  have "?r = (fst ?r, fst (snd ?r), snd (snd ?r))" by simp
  from mic_run_accounting [OF demo_mic_New this] show ?thesis by (simp add: demo_mic_run)
qed

text \<open>C10: \<open>ReadPacket\<close> on every branch. A served packet has one PCM sample frame fewer than,
  exactly, or one more than the nominal size, holds the oldest queued bytes, and removes just
  these; otherwise the destination and the queued bytes are unchanged. A primed buffer with a
  destination of sufficient length fails to serve only when fewer bytes than the shortest
  legal packet are queued, and is then unprimed.\<close>

theorem ReadPacket_branches:
  assumes "buffer_inv b" and "ReadPacket now dst b = ((n, ok, dst'), b')"
  shows "(ok \<longrightarrow> mb_primed b \<and> legal_packet b n \<and> n \<le> mb_size b \<and>
            dst' = take n (contents b) @ drop n dst \<and> contents b' = drop n (contents b)) \<and>
         (\<not> ok \<longrightarrow> n = 0 \<and> dst' = dst \<and> contents b' = contents b) \<and>
         (\<not> ok \<and> mb_primed b \<and> mb_packetSize b + mb_pcmFrameSize b \<le> length dst \<longrightarrow>
            mb_size b < mb_packetSize b - mb_pcmFrameSize b \<and> \<not> mb_primed b' \<and>
            mb_needsReprime b')"
  using assms by (cases rule: ReadPacket_cases [OF assms(1), of now dst]) auto

definition demo_mic_primed :: Buffer where
  "demo_mic_primed = snd (QueueFrame 0 [1, 2, 3, 4] demo_mic)"

theorem ReadPacket_branches_witness:
  "ReadPacket 1 [0, 0, 0] demo_mic_primed =
     ((2, True, [1, 2, 0]), snd (ReadPacket 1 [0, 0, 0] demo_mic_primed)) \<and>
   contents (snd (ReadPacket 1 [0, 0, 0] demo_mic_primed)) = drop 2 (contents demo_mic_primed)"
proof -
  have inv: "buffer_inv demo_mic_primed"
    using New_inv [OF demo_mic_New] by (simp add: demo_mic_primed_def QueueFrame_inv)
  have rp: "ReadPacket 1 [0, 0, 0] demo_mic_primed =
     ((2, True, [1, 2, 0]), snd (ReadPacket 1 [0, 0, 0] demo_mic_primed))"
    by code_simp
  show ?thesis using ReadPacket_branches [OF inv rp] rp by simp
qed

lemma update_priming_primed:
  "mb_primed (update_priming b) = (mb_primed b \<or> primeSize b \<le> mb_size b)"
  by (simp add: update_priming_def Let_def)

lemma QueueFrame_primed:
  "length frame = mb_frameSize b \<Longrightarrow>
     mb_primed (snd (QueueFrame now frame b)) =
       (mb_primed b \<or> primeSize b \<le> mb_size (snd (QueueFrame now frame b)))"
  by (simp add: QueueFrame_def Let_def update_priming_primed) (simp add: primeSize_def)

text \<open>C11: \<open>QueueFrame\<close> on every branch. A frame of the wrong length is refused and changes
  nothing; an accepted frame leaves the newest bytes that fit. A buffer that was not primed
  becomes primed only when the level that applies is reached: the full target at first, the
  smaller recovery cushion after an underrun.\<close>

theorem QueueFrame_branches:
  assumes "buffer_inv b" and "QueueFrame now frame b = (ok, b')"
  shows "ok = (length frame = mb_frameSize b) \<and> buffer_inv b' \<and>
    (\<not> ok \<longrightarrow> b' = b) \<and>
    (ok \<longrightarrow> contents b' =
       drop (mb_size b + length frame - length (mb_data b)) (contents b @ frame)) \<and>
    (ok \<and> \<not> mb_primed b \<longrightarrow>
       mb_primed b' = (primeSize b \<le> min (length (mb_data b)) (mb_size b + length frame)))"
proof (cases "length frame = mb_frameSize b")
  case False
  then show ?thesis using assms by (simp add: QueueFrame_def)
next
  case True
  then have "ok" using assms(2) by (simp add: QueueFrame_def Let_def)
  then show ?thesis
    using True assms(2) QueueFrame_inv [OF assms(1), of now frame]
      QueueFrame_contents [OF assms(1) True, of now]
      QueueFrame_size [OF assms(1) True, of now] QueueFrame_primed [OF True, of now]
    by simp
qed

theorem QueueFrame_branches_witness:
  "fst (QueueFrame 0 [1, 2, 3, 4] demo_mic) \<and> mb_primed demo_mic_primed \<and>
   contents demo_mic_primed = [1, 2, 3, 4]"
proof -
  have q: "QueueFrame 0 [1, 2, 3, 4] demo_mic = (True, demo_mic_primed)"
    unfolding demo_mic_primed_def by code_simp
  have "mb_primed demo_mic = False" "primeSize demo_mic = 4" "length (mb_data demo_mic) = 8"
    "mb_size demo_mic = 0" by code_simp+
  then show ?thesis using QueueFrame_branches [OF conjunct1 [OF New_inv [OF demo_mic_New]] q]
      New_inv [OF demo_mic_New] q by simp
qed

end
