(* ===== verification/Input_Channel.thy ===== *)
theory Input_Channel
  imports Go_Prelude "HOL-Library.Sublist"
begin

text \<open>
  The one-element channel \<open>inputCh\<close> by which the keyboard, mouse and DualShock 4 devices pass
  input from \<open>UpdateInputState\<close> to \<open>HandleTransfer\<close>, as a step relation at the granularity of
  single channel operations. A publisher (the callers are serialised by \<open>inputPublishMu\<close>)
  first drains the channel without blocking, then sends, which waits for room. A transfer
  takes a state and, on the mouse, offers the same buttons without the motion back to the
  channel without blocking; the parameter \<open>residue\<close> says what is offered back.
  One transfer runs at a time, as the single worker of an endpoint (\<^verbatim>\<open>endpointWorker\<close> of
  \<^verbatim>\<open>internal/server/usb/endpoint_scheduler.go\<close>) issues them.
\<close>

datatype 'st slot = Published (slot_state: 'st) | Residue (slot_state: 'st)

record 'st latch =
  lt_ch :: "'st slot option"        \<comment> \<open>the channel, capacity 1\<close>
  lt_pub :: "'st option"            \<comment> \<open>a publisher between its drain and its send\<close>
  lt_host :: "'st option"           \<comment> \<open>a transfer that still has to offer this residue\<close>
  lt_published :: "'st list"        \<comment> \<open>the states sent so far\<close>
  lt_reported :: "'st slot list"    \<comment> \<open>the states taken by transfers so far\<close>

definition latch_init :: "'st \<Rightarrow> 'st latch" where
  "latch_init st = \<lparr>lt_ch = Some (Published st), lt_pub = None, lt_host = None,
     lt_published = [st], lt_reported = []\<rparr>"

inductive latch_step :: "('st \<Rightarrow> 'st option) \<Rightarrow> 'st latch \<Rightarrow> 'st latch \<Rightarrow> bool" for residue where
  drain: "lt_pub s = None \<Longrightarrow>
    latch_step residue s (s\<lparr>lt_ch := None, lt_pub := Some st\<rparr>)"
| send: "lt_pub s = Some st \<Longrightarrow> lt_ch s = None \<Longrightarrow>
    latch_step residue s (s\<lparr>lt_ch := Some (Published st), lt_pub := None,
      lt_published := lt_published s @ [st]\<rparr>)"
| take_state: "lt_ch s = Some x \<Longrightarrow> lt_host s = None \<Longrightarrow>
    latch_step residue s (s\<lparr>lt_ch := None, lt_host := residue (slot_state x),
      lt_reported := lt_reported s @ [x]\<rparr>)"
| put_back: "lt_host s = Some r \<Longrightarrow> lt_ch s = None \<Longrightarrow>
    latch_step residue s (s\<lparr>lt_ch := Some (Residue r), lt_host := None\<rparr>)"
| put_drop: "lt_host s = Some r \<Longrightarrow> lt_ch s \<noteq> None \<Longrightarrow>
    latch_step residue s (s\<lparr>lt_host := None\<rparr>)"

inductive latch_reach :: "('st \<Rightarrow> 'st option) \<Rightarrow> 'st latch \<Rightarrow> 'st latch \<Rightarrow> bool" for residue s0 where
  start: "latch_reach residue s0 s0"
| more: "latch_reach residue s0 s \<Longrightarrow> latch_step residue s s' \<Longrightarrow> latch_reach residue s0 s'"

fun originals :: "'st slot list \<Rightarrow> 'st list" where
  "originals [] = []"
| "originals (Published st # xs) = st # originals xs"
| "originals (Residue st # xs) = originals xs"

fun paired :: "('st \<Rightarrow> 'st option) \<Rightarrow> 'st slot option \<Rightarrow> 'st slot list \<Rightarrow> bool" where
  "paired residue prev [] = True"
| "paired residue prev (Published st # xs) = paired residue (Some (Published st)) xs"
| "paired residue prev (Residue r # xs) =
     ((case prev of Some (Published st) \<Rightarrow> residue st = Some r | _ \<Rightarrow> False) \<and>
      paired residue (Some (Residue r)) xs)"

lemma originals_append [simp]: "originals (xs @ ys) = originals xs @ originals ys"
  by (induction xs rule: originals.induct) auto

lemma paired_snoc:
  "paired residue prev (xs @ [x]) \<longleftrightarrow> paired residue prev xs \<and>
     paired residue (if xs = [] then prev else Some (last xs)) [x]"
  by (induction residue prev xs rule: paired.induct) auto

lemma subseq_snoc: "subseq xs ys \<Longrightarrow> subseq xs (ys @ [y])"
  by (metis append_Nil2 list_emb_append_mono list_emb_Nil)

definition last_report :: "'st latch \<Rightarrow> 'st slot option" where
  "last_report s = (if lt_reported s = [] then None else Some (last (lt_reported s)))"

definition owed :: "('st \<Rightarrow> 'st option) \<Rightarrow> 'st latch \<Rightarrow> 'st \<Rightarrow> bool" where
  "owed residue s r \<longleftrightarrow>
     (\<exists>st. last_report s = Some (Published st) \<and> residue st = Some r)"

definition latch_inv :: "('st \<Rightarrow> 'st option) \<Rightarrow> 'st latch \<Rightarrow> bool" where
  "latch_inv residue s \<longleftrightarrow>
     lt_published s \<noteq> [] \<and> paired residue None (lt_reported s) \<and>
     (\<forall>r. lt_host s = Some r \<longrightarrow> owed residue s r) \<and>
     (case lt_ch s of
        Some (Published st) \<Rightarrow> lt_pub s = None \<and>
          (\<exists>p. lt_published s = p @ [st] \<and> subseq (originals (lt_reported s)) p)
      | Some (Residue r) \<Rightarrow> lt_host s = None \<and> owed residue s r \<and>
          subseq (originals (lt_reported s)) (lt_published s)
      | None \<Rightarrow> subseq (originals (lt_reported s)) (lt_published s)) \<and>
     (lt_pub s = None \<longrightarrow> (\<forall>st. lt_ch s \<noteq> Some (Published st)) \<longrightarrow>
        originals (lt_reported s) \<noteq> [] \<and>
        last (originals (lt_reported s)) = last (lt_published s))"

locale input_latch =
  fixes residue :: "'st \<Rightarrow> 'st option"
    and levels :: "'st \<Rightarrow> 'l"
  assumes residue_quiet: "residue st = Some r \<Longrightarrow> residue r = None"
    and residue_levels: "residue st = Some r \<Longrightarrow> levels r = levels st"
begin

lemma init_inv: "latch_inv residue (latch_init st)"
  by (simp add: latch_inv_def latch_init_def)

lemma step_inv:
  assumes "latch_step residue s s'" "latch_inv residue s"
  shows "latch_inv residue s'"
  using assms(1)
proof (cases rule: latch_step.cases)
  case (drain st)
  then show ?thesis using assms(2)
    by (auto simp: latch_inv_def owed_def last_report_def
        split: option.splits slot.splits intro: list_emb_append2 subseq_snoc)
next
  case (send st)
  then show ?thesis using assms(2)
    by (auto simp: latch_inv_def owed_def last_report_def)
next
  case (take_state x)
  then show ?thesis using assms(2)
    by (cases x) (auto simp: latch_inv_def owed_def last_report_def paired_snoc residue_quiet)
next
  case (put_back r)
  then show ?thesis using assms(2)
    by (auto simp: latch_inv_def owed_def last_report_def)
next
  case (put_drop r)
  then show ?thesis using assms(2)
    by (auto simp: latch_inv_def owed_def last_report_def split: slot.splits)
qed

lemma reach_inv: "latch_reach residue (latch_init st) s \<Longrightarrow> latch_inv residue s"
  by (induction rule: latch_reach.induct) (auto intro: init_inv step_inv)

text \<open>No state is reported twice or out of order, and what is not a published state is the
  residue of the report just before it.\<close>

lemma reports_in_order:
  assumes "latch_reach residue (latch_init st) s"
  shows "subseq (originals (lt_reported s)) (lt_published s) \<and>
    paired residue None (lt_reported s)"
  using reach_inv [OF assms]
  by (auto simp: latch_inv_def split: option.splits slot.splits intro: subseq_snoc)

text \<open>Once nothing is under way and the channel is empty, the host has the last state sent.\<close>

lemma nothing_lost:
  assumes "latch_reach residue (latch_init st) s" "lt_pub s = None" "lt_ch s = None"
  shows "last (originals (lt_reported s)) = last (lt_published s) \<and>
    levels (slot_state (last (lt_reported s))) = levels (last (lt_published s))"
proof -
  have o: "originals (lt_reported s) \<noteq> []"
      "last (originals (lt_reported s)) = last (lt_published s)"
    and p: "paired residue None (lt_reported s)"
    using reach_inv [OF assms(1)] assms(2,3) by (auto simp: latch_inv_def)
  obtain xs x where xs: "lt_reported s = xs @ [x]"
    using o(1) by (cases "lt_reported s" rule: rev_cases) auto
  show ?thesis
  proof (cases x)
    case (Published u) then show ?thesis using o xs by simp
  next
    case (Residue r)
    have "xs \<noteq> []" "\<exists>u. last xs = Published u \<and> residue u = Some r"
      using p unfolding xs Residue paired_snoc by (auto split: slot.splits if_splits)
    then obtain ys u where "xs = ys @ [Published u]" "residue u = Some r"
      by (metis append_butlast_last_id)
    then show ?thesis using o xs Residue residue_levels by auto
  qed
qed

text \<open>A publisher waits for room only behind a residue, and the next transfer makes the
  room: after that transfer its send is enabled.\<close>

lemma publisher_progress:
  assumes "latch_reach residue (latch_init st0) s" "lt_pub s = Some st" "lt_ch s \<noteq> None"
  shows "\<exists>s1 s2. latch_step residue s s1 \<and> latch_step residue s1 s2 \<and>
    lt_ch s2 = Some (Published st) \<and> lt_pub s2 = None"
proof -
  obtain r where r: "lt_ch s = Some (Residue r)" "lt_host s = None" "residue r = None"
    using reach_inv [OF assms(1)] assms(2,3) residue_quiet
    by (auto simp: latch_inv_def owed_def split: option.splits slot.splits)
  define s1 where "s1 = s\<lparr>lt_ch := None, lt_host := residue r,
    lt_reported := lt_reported s @ [Residue r]\<rparr>"
  have "latch_step residue s s1"
    using take_state [OF r(1,2), of residue] by (simp add: s1_def)
  moreover have "latch_step residue s1 (s1\<lparr>lt_ch := Some (Published st), lt_pub := None,
      lt_published := lt_published s1 @ [st]\<rparr>)"
    by (rule send) (simp_all add: s1_def assms(2))
  ultimately show ?thesis by force
qed

end

end
