(* ===== verification/Hid_Devices.thy ===== *)
theory Hid_Devices
  imports Usbip_Wire Input_Channel
begin

text \<open>
  The keyboard and mouse devices: \<^verbatim>\<open>device/keyboard\<close> and \<^verbatim>\<open>device/mouse\<close> (\<^verbatim>\<open>inputstate.go\<close>,
  the state and transfer handling of \<^verbatim>\<open>device.go\<close>, \<^verbatim>\<open>helpers.go\<close> and the reader loops of
  \<^verbatim>\<open>handler.go\<close>). The one-element channel \<open>inputCh\<close> of a device is an optional state; a
  receive from the empty channel blocks until the transfer is cancelled, and then the
  transfer has no data.
\<close>

section \<open>Keyboard\<close>

record KeyboardState =
  Modifiers :: u8
  KeyBitmap :: bytes   \<comment> \<open>\<open>[32]uint8\<close>\<close>

record LEDState =
  NumLock :: bool
  CapsLock :: bool
  ScrollLock :: bool
  Compose :: bool
  Kana :: bool

definition LEDNumLock :: u8 where "LEDNumLock = 0x01"
definition LEDCapsLock :: u8 where "LEDCapsLock = 0x02"
definition LEDScrollLock :: u8 where "LEDScrollLock = 0x04"
definition LEDCompose :: u8 where "LEDCompose = 0x08"
definition LEDKana :: u8 where "LEDKana = 0x10"

lemmas led_consts = LEDNumLock_def LEDCapsLock_def LEDScrollLock_def LEDCompose_def LEDKana_def

definition keyboard_NewInputState :: KeyboardState where
  "keyboard_NewInputState = \<lparr>Modifiers = 0, KeyBitmap = replicate 32 0\<rparr>"

definition wf_KeyboardState :: "KeyboardState \<Rightarrow> bool" where
  "wf_KeyboardState kb \<longleftrightarrow> length (KeyBitmap kb) = 32"

definition ledStateFromMask :: "u8 \<Rightarrow> LEDState" where
  "ledStateFromMask m =
     \<lparr>NumLock = (m AND LEDNumLock \<noteq> 0), CapsLock = (m AND LEDCapsLock \<noteq> 0),
      ScrollLock = (m AND LEDScrollLock \<noteq> 0), Compose = (m AND LEDCompose \<noteq> 0),
      Kana = (m AND LEDKana \<noteq> 0)\<rparr>"

definition LEDState_UnmarshalBinary :: "bytes \<Rightarrow> read_error + LEDState" where
  "LEDState_UnmarshalBinary data =
     (if length data < 1 then Inl ErrUnexpectedEOF else Inr (ledStateFromMask (data ! 0)))"

text \<open>The LED callback of the stream handler writes this byte to the client.\<close>

definition led_byte :: "LEDState \<Rightarrow> u8" where
  "led_byte led =
     (let b0 = 0;
          b1 = (if NumLock led then b0 OR LEDNumLock else b0);
          b2 = (if CapsLock led then b1 OR LEDCapsLock else b1);
          b3 = (if ScrollLock led then b2 OR LEDScrollLock else b2);
          b4 = (if Compose led then b3 OR LEDCompose else b3)
      in if Kana led then b4 OR LEDKana else b4)"

definition keyboard_BuildReport :: "KeyboardState \<Rightarrow> bytes" where
  "keyboard_BuildReport kb = [Modifiers kb, 0x00] @ KeyBitmap kb"

definition pressed_keys :: "KeyboardState \<Rightarrow> u8 list" where
  "pressed_keys kb =
     map of_nat (filter (\<lambda>i. KeyBitmap kb ! (i div 8) AND push_bit (i mod 8) 1 \<noteq> 0) [0..<256])"

definition keyboard_MarshalBinary :: "KeyboardState \<Rightarrow> bytes" where
  "keyboard_MarshalBinary kb =
     [Modifiers kb, of_nat (length (pressed_keys kb))] @ pressed_keys kb"

definition set_key :: "u8 \<Rightarrow> bytes \<Rightarrow> bytes" where
  "set_key keyCode bitmap =
     bitmap[unat keyCode div 8 :=
       bitmap ! (unat keyCode div 8) OR push_bit (unat keyCode mod 8) 1]"

text \<open>\<open>UnmarshalBinary\<close> stores the modifiers before it checks the key bytes, so a short
  message leaves the receiver with the new modifiers and its old keys.\<close>

definition keyboard_UnmarshalBinary ::
    "bytes \<Rightarrow> KeyboardState \<Rightarrow> read_error option \<times> KeyboardState" where
  "keyboard_UnmarshalBinary data kb =
     (if length data < 2 then (Some ErrUnexpectedEOF, kb)
      else let kb1 = kb\<lparr>Modifiers := data ! 0\<rparr>;
               keyCount = unat (data ! 1)
           in if length data < 2 + keyCount then (Some ErrUnexpectedEOF, kb1)
              else (None, kb1\<lparr>KeyBitmap :=
                     fold set_key (slice data 2 (2 + keyCount)) (replicate 32 0)\<rparr>))"

definition PressKeyWithMod :: "u8 \<Rightarrow> u8 list \<Rightarrow> KeyboardState" where
  "PressKeyWithMod modifiers keys =
     \<lparr>Modifiers = modifiers, KeyBitmap = fold set_key keys (replicate 32 0)\<rparr>"

definition PressKey :: "u8 list \<Rightarrow> KeyboardState" where
  "PressKey keys = PressKeyWithMod 0 keys"

definition Release :: KeyboardState where
  "Release = \<lparr>Modifiers = 0, KeyBitmap = replicate 32 0\<rparr>"

text \<open>The character tables of \<^verbatim>\<open>const.go\<close>, with the usage codes of the letter keys \<open>KeyA\<close> to \<open>KeyZ\<close>,
  of the digit keys \<open>Key1\<close> to \<open>Key9\<close>, \<open>Key0\<close>, and of the symbol keys from \<open>KeyMinus\<close> to \<open>KeySlash\<close> in
  the order of the table.\<close>

definition ModLeftShift :: u8 where "ModLeftShift = 0x02"

definition letter_keys :: "u8 list" where
  "letter_keys = [0x04, 0x05, 0x06, 0x07, 0x08, 0x09, 0x0A, 0x0B, 0x0C, 0x0D, 0x0E, 0x0F, 0x10,
     0x11, 0x12, 0x13, 0x14, 0x15, 0x16, 0x17, 0x18, 0x19, 0x1A, 0x1B, 0x1C, 0x1D]"

definition digit_keys :: "u8 list" where
  "digit_keys = [0x1E, 0x1F, 0x20, 0x21, 0x22, 0x23, 0x24, 0x25, 0x26, 0x27]"

definition symbol_keys :: "u8 list" where
  "symbol_keys = [0x2D, 0x2E, 0x2F, 0x30, 0x31, 0x33, 0x34, 0x35, 0x36, 0x37, 0x38]"

definition CharToKey_table :: "(char \<times> u8) list" where
  "CharToKey_table =
     zip ''abcdefghijklmnopqrstuvwxyz'' letter_keys @
     zip ''ABCDEFGHIJKLMNOPQRSTUVWXYZ'' letter_keys @
     zip ''1234567890'' digit_keys @
     zip ''!@#$%^&*()'' digit_keys @
     zip [CHR ''-'', CHR ''='', CHR ''['', CHR '']'', CHR 0x5C, CHR '';'', CHR 0x27, CHR 0x60, CHR '','', CHR ''.'', CHR ''/''] symbol_keys @
     zip [CHR ''_'', CHR ''+'', CHR ''{'', CHR ''}'', CHR ''|'', CHR '':'', CHR 0x22, CHR ''~'', CHR ''<'', CHR ''>'', CHR ''?''] symbol_keys @
     [(CHR 0x20, 0x2C), (CHR 0x0A, 0x28), (CHR 0x0D, 0x28), (CHR 0x09, 0x2B)]"

definition ShiftChars :: "char list" where
  "ShiftChars = ''ABCDEFGHIJKLMNOPQRSTUVWXYZ'' @ ''!@#$%^&*()'' @
     [CHR ''_'', CHR ''+'', CHR ''{'', CHR ''}'', CHR ''|'', CHR '':'', CHR 0x22, CHR ''~'', CHR ''<'', CHR ''>'', CHR ''?'']"

definition CharToHID :: "char \<Rightarrow> u8" where
  "CharToHID c = (case map_of CharToKey_table c of Some code \<Rightarrow> code | None \<Rightarrow> 0)"

definition NeedsShift :: "char \<Rightarrow> bool" where
  "NeedsShift c \<longleftrightarrow> c \<in> set ShiftChars"

definition TypeChar :: "char \<Rightarrow> KeyboardState \<times> KeyboardState" where
  "TypeChar c =
     (let keyCode = CharToHID c in
      if keyCode = 0 then (keyboard_NewInputState, keyboard_NewInputState)
      else let modifiers = (if NeedsShift c then ModLeftShift else 0)
           in (PressKeyWithMod modifiers [keyCode], Release))"

fun TypeString :: "string \<Rightarrow> KeyboardState list" where
  "TypeString [] = []"
| "TypeString (c # s) =
     (let (press, release) = TypeChar c in press # release # TypeString s)"

text \<open>The reader loop of the stream handler: two header bytes, then as many key bytes as the
  header says; a complete message is decoded into a fresh state and published. The result
  is the list of published states and whether the stream ended inside a message.\<close>

function keyboard_stream :: "bytes \<Rightarrow> KeyboardState list \<times> bool" where
  "keyboard_stream bs =
     (if bs = [] then ([], True)
      else if length bs < 2 then ([], False)
      else let keyCount = unat (bs ! 1) in
        if length bs < 2 + keyCount then ([], False)
        else (case keyboard_UnmarshalBinary (take (2 + keyCount) bs) keyboard_NewInputState of
                (Some e, st) \<Rightarrow> ([], False)
              | (None, st) \<Rightarrow> (case keyboard_stream (drop (2 + keyCount) bs) of
                  (sts, ok) \<Rightarrow> (st # sts, ok))))"
  by pat_completeness auto
termination
  by (relation "measure length") (auto simp: Let_def)

declare keyboard_stream.simps [simp del]

record Keyboard =
  kb_inputCh :: "KeyboardState option"
  kb_ledState :: u8
  kb_ledSeen :: bool
  kb_ledCallback :: bool   \<comment> \<open>a callback is installed\<close>

definition keyboard_New :: Keyboard where
  "keyboard_New = \<lparr>kb_inputCh = Some keyboard_NewInputState, kb_ledState = 0,
     kb_ledSeen = False, kb_ledCallback = False\<rparr>"

definition keyboard_UpdateInputState :: "KeyboardState \<Rightarrow> Keyboard \<Rightarrow> Keyboard" where
  "keyboard_UpdateInputState st k = k\<lparr>kb_inputCh := Some st\<rparr>"

text \<open>The two channel operations of \<open>UpdateInputState\<close>, between which a transfer may run: the
  receive that does not wait, and the send, which is blocked, \<open>None\<close>, while the channel is full.\<close>

definition keyboard_drain :: "Keyboard \<Rightarrow> Keyboard" where
  "keyboard_drain k =
     (case kb_inputCh k of
        Some st \<Rightarrow> k\<lparr>kb_inputCh := None\<rparr>
      | None \<Rightarrow> k)"

definition keyboard_send :: "KeyboardState \<Rightarrow> Keyboard \<Rightarrow> Keyboard option" where
  "keyboard_send st k =
     (case kb_inputCh k of
        None \<Rightarrow> Some (k\<lparr>kb_inputCh := Some st\<rparr>)
      | Some st' \<Rightarrow> None)"

text \<open>\<open>SetLEDCallback\<close> and \<open>HandleTransfer\<close> return the LED states that they hand to the
  installed callback.\<close>

definition SetLEDCallback :: "bool \<Rightarrow> Keyboard \<Rightarrow> LEDState list \<times> Keyboard" where
  "SetLEDCallback f k =
     (let k1 = k\<lparr>kb_ledCallback := f\<rparr>
      in (if f \<and> kb_ledSeen k1 then [ledStateFromMask (kb_ledState k1)] else [], k1))"

definition GetLEDState :: "Keyboard \<Rightarrow> LEDState" where
  "GetLEDState k = ledStateFromMask (kb_ledState k)"

definition keyboard_HandleTransfer ::
    "bool \<Rightarrow> u32 \<Rightarrow> u32 \<Rightarrow> bytes \<Rightarrow> Keyboard \<Rightarrow> (bytes option \<times> LEDState list) \<times> Keyboard" where
  "keyboard_HandleTransfer done ep dir out k =
     (if dir = DirIn then
        (if ep = 1 then
           (if done then ((None, []), k) else case kb_inputCh k of
              None \<Rightarrow> ((None, []), k)
            | Some st \<Rightarrow> ((Some (keyboard_BuildReport st), []), k\<lparr>kb_inputCh := None\<rparr>))
         else ((None, []), k))
      else if dir = DirOut \<and> ep = 1 then
        (if length out \<ge> 1 then
           (let k1 = k\<lparr>kb_ledState := out ! 0, kb_ledSeen := True\<rparr>
            in ((None, if kb_ledCallback k1 then [ledStateFromMask (out ! 0)] else []), k1))
         else ((None, []), k))
      else ((None, []), k))"

section \<open>Mouse\<close>

record MouseState =
  ms_Buttons :: u8
  ms_DX :: u16
  ms_DY :: u16
  ms_Wheel :: u16
  ms_Pan :: u16

definition mouse_NewInputState :: MouseState where
  "mouse_NewInputState = \<lparr>ms_Buttons = 0, ms_DX = 0, ms_DY = 0, ms_Wheel = 0, ms_Pan = 0\<rparr>"

definition mouse_BuildReport :: "MouseState \<Rightarrow> bytes" where
  "mouse_BuildReport m =
     [ms_Buttons m AND 0x1F] @ le_bytes 2 (ms_DX m) @ le_bytes 2 (ms_DY m) @
     le_bytes 2 (ms_Wheel m) @ le_bytes 2 (ms_Pan m)"

definition mouse_MarshalBinary :: "MouseState \<Rightarrow> bytes" where
  "mouse_MarshalBinary m =
     [ms_Buttons m] @ le_bytes 2 (ms_DX m) @ le_bytes 2 (ms_DY m) @
     le_bytes 2 (ms_Wheel m) @ le_bytes 2 (ms_Pan m)"

definition mouse_UnmarshalBinary :: "bytes \<Rightarrow> read_error + MouseState" where
  "mouse_UnmarshalBinary data =
     (if length data < 9 then Inl ErrUnexpectedEOF
      else Inr \<lparr>ms_Buttons = data ! 0,
                ms_DX = le_word (slice data 1 3), ms_DY = le_word (slice data 3 5),
                ms_Wheel = le_word (slice data 5 7), ms_Pan = le_word (slice data 7 9)\<rparr>)"

record Mouse =
  mouse_inputCh :: "MouseState option"

definition mouse_New :: Mouse where
  "mouse_New = \<lparr>mouse_inputCh = Some mouse_NewInputState\<rparr>"

definition mouse_UpdateInputState :: "MouseState \<Rightarrow> Mouse \<Rightarrow> Mouse" where
  "mouse_UpdateInputState st m = m\<lparr>mouse_inputCh := Some st\<rparr>"

definition moving :: "MouseState \<Rightarrow> bool" where
  "moving st \<longleftrightarrow> ms_DX st \<noteq> 0 \<or> ms_DY st \<noteq> 0 \<or> ms_Wheel st \<noteq> 0 \<or> ms_Pan st \<noteq> 0"

definition stop_motion :: "MouseState \<Rightarrow> MouseState" where
  "stop_motion st =
     \<lparr>ms_Buttons = ms_Buttons st, ms_DX = 0, ms_DY = 0, ms_Wheel = 0, ms_Pan = 0\<rparr>"

text \<open>An IN transfer takes the pending state; after a motion it queues the same buttons
  without the motion, unless a publisher has filled the channel between the two steps. The
  argument \<open>raced\<close> is the state published in that window, if any.\<close>

definition mouse_HandleTransfer ::
    "bool \<Rightarrow> MouseState option \<Rightarrow> u32 \<Rightarrow> u32 \<Rightarrow> Mouse \<Rightarrow> bytes option \<times> Mouse" where
  "mouse_HandleTransfer done raced ep dir m =
     (if dir = DirIn then
        (if ep = 1 then
           (if done then (None, m) else case mouse_inputCh m of
              None \<Rightarrow> (None, m)
            | Some st \<Rightarrow>
                let m1 = m\<lparr>mouse_inputCh := raced\<rparr>;
                    m2 = (if moving st then
                            (case mouse_inputCh m1 of
                               None \<Rightarrow> m1\<lparr>mouse_inputCh := Some (stop_motion st)\<rparr>
                             | Some _ \<Rightarrow> m1)
                          else m1)
                in (Some (mouse_BuildReport st), m2))
         else (None, m))
      else (None, m))"

section \<open>Keyboard lemmas\<close>

lemma length_set_key [simp]: "length (set_key c bm) = length bm"
  by (simp add: set_key_def)

lemma length_fold_set_key [simp]: "length (fold set_key cs bm) = length bm"
  by (induction cs arbitrary: bm) simp_all

lemma div_mod_8_iff:
  fixes x :: nat
  assumes "k < 8"
  shows "x div 8 = j \<and> x mod 8 = k \<longleftrightarrow> x = 8 * j + k"
  using assms by auto

lemma bit_set_key:
  assumes "length bm = 32" "j < 32" "k < 8"
  shows "bit (set_key c bm ! j) k \<longleftrightarrow> bit (bm ! j) k \<or> unat c = 8 * j + k"
proof -
  have "unat c div 8 = j \<and> unat c mod 8 = k \<longleftrightarrow> unat c = 8 * j + k"
    by (rule div_mod_8_iff [OF assms(3)])
  moreover have "unat c div 8 < 32" using unsigned_less [where ?'a = nat, of c] by simp
  ultimately show ?thesis using assms
    by (auto simp: set_key_def nth_list_update bit_simps)
qed

lemma bit_fold_set_key:
  assumes "length bm = 32" "j < 32" "k < 8"
  shows "bit (fold set_key cs bm ! j) k \<longleftrightarrow>
    bit (bm ! j) k \<or> 8 * j + k \<in> unat ` set cs"
  using assms by (induction cs arbitrary: bm) (auto simp: bit_set_key)

lemma pressed_keys_iff:
  assumes "j < 32" "k < 8"
  shows "8 * j + k \<in> unat ` set (pressed_keys kb) \<longleftrightarrow> bit (KeyBitmap kb ! j) k"
proof -
  have "unat ` set (pressed_keys kb) =
      (\<lambda>i. i mod 256) ` {i. i < 256 \<and> bit (KeyBitmap kb ! (i div 8)) (i mod 8)}"
    by (simp add: pressed_keys_def image_image unat_of_nat
        and_exp_eq_0_iff_not_bit atLeast0LessThan lessThan_def)
  also have "\<dots> = {i. i < 256 \<and> bit (KeyBitmap kb ! (i div 8)) (i mod 8)}"
    by force
  finally have "unat ` set (pressed_keys kb)
      = {i. i < 256 \<and> bit (KeyBitmap kb ! (i div 8)) (i mod 8)}" .
  then show ?thesis using assms by simp
qed

lemma fold_pressed_keys:
  assumes "wf_KeyboardState kb"
  shows "fold set_key (pressed_keys kb) (replicate 32 0) = KeyBitmap kb"
proof (rule nth_equalityI)
  show "length (fold set_key (pressed_keys kb) (replicate 32 0)) = length (KeyBitmap kb)"
    using assms by (simp add: wf_KeyboardState_def)
next
  fix j assume "j < length (fold set_key (pressed_keys kb) (replicate 32 (0::u8)))"
  then have j: "j < 32" by simp
  show "fold set_key (pressed_keys kb) (replicate 32 0) ! j = KeyBitmap kb ! j"
  proof (rule bit_word_eqI)
    fix k assume "k < LENGTH(8)"
    then have "k < 8" by simp
    then show "bit (fold set_key (pressed_keys kb) (replicate 32 0) ! j) k
        = bit (KeyBitmap kb ! j) k"
      using j by (simp add: bit_fold_set_key pressed_keys_iff)
  qed
qed

lemma keyboard_Unmarshal_Marshal:
  assumes "wf_KeyboardState kb" "length (pressed_keys kb) < 256"
  shows "keyboard_UnmarshalBinary (keyboard_MarshalBinary kb) st = (None, kb)"
proof -
  have "unat (of_nat (length (pressed_keys kb)) :: u8) = length (pressed_keys kb)"
    using assms(2) by (simp add: unat_of_nat)
  then show ?thesis using fold_pressed_keys [OF assms(1)]
    by (simp add: keyboard_UnmarshalBinary_def keyboard_MarshalBinary_def slice_def)
qed

lemma length_keyboard_MarshalBinary:
  "length (keyboard_MarshalBinary kb) = 2 + length (pressed_keys kb)"
  by (simp add: keyboard_MarshalBinary_def)

lemma keyboard_MarshalBinary_count:
  "length (pressed_keys kb) < 256 \<Longrightarrow>
   unat (keyboard_MarshalBinary kb ! 1) = length (pressed_keys kb)"
  by (simp add: keyboard_MarshalBinary_def unat_of_nat)

lemma pressed_keys_short:
  assumes "\<not> bit (KeyBitmap kb ! 0) 0"
  shows "length (pressed_keys kb) < 256"
proof -
  have "length (filter (\<lambda>i. KeyBitmap kb ! (i div 8) AND push_bit (i mod 8) 1 \<noteq> 0) [0..<256])
      < length [0..<256]"
    by (rule length_filter_less [of 0]) (use assms and_exp_eq_0_iff_not_bit [of "KeyBitmap kb ! 0" 0] in simp_all)
  then show ?thesis by (simp add: pressed_keys_def)
qed

lemma keyboard_stream_Cons:
  assumes "wf_KeyboardState kb" "length (pressed_keys kb) < 256"
  shows "keyboard_stream (keyboard_MarshalBinary kb @ rest)
    = (kb # fst (keyboard_stream rest), snd (keyboard_stream rest))"
proof -
  let ?m = "keyboard_MarshalBinary kb"
  define w where "w = 2 + length (pressed_keys kb)"
  have w: "length ?m = w" by (simp add: w_def length_keyboard_MarshalBinary)
  have "?m @ rest \<noteq> []" "\<not> length (?m @ rest) < 2" "\<not> length (?m @ rest) < w"
      "2 + unat ((?m @ rest) ! 1) = w"
    using keyboard_MarshalBinary_count [OF assms(2)] w
    by (auto simp: w_def nth_append)
  moreover have "take w (?m @ rest) = ?m" "drop w (?m @ rest) = rest"
    using w by simp_all
  ultimately show ?thesis
    by (subst keyboard_stream.simps)
      (simp add: Let_def keyboard_Unmarshal_Marshal [OF assms] split_beta
        del: One_nat_def add_2_eq_Suc take_append drop_append length_append append_is_Nil_conv)
qed

lemma keyboard_stream_Marshal:
  "\<forall>kb \<in> set kbs. wf_KeyboardState kb \<and> length (pressed_keys kb) < 256 \<Longrightarrow>
   keyboard_stream (concat (map keyboard_MarshalBinary kbs)) = (kbs, True)"
  by (induction kbs) (simp_all add: keyboard_stream_Cons, simp add: keyboard_stream.simps)

lemma ledStateFromMask_led_byte: "ledStateFromMask (led_byte led) = led"
  by (cases led) (auto simp: ledStateFromMask_def led_byte_def led_consts)

lemma led_byte_ledStateFromMask_all:
  "list_all (\<lambda>n. led_byte (ledStateFromMask (of_nat n)) = of_nat n AND 0x1F) [0..<256]"
  by code_simp

lemma led_byte_ledStateFromMask: "led_byte (ledStateFromMask m) = m AND 0x1F"
  using led_byte_ledStateFromMask_all unsigned_less [where ?'a = nat, of m]
  by (auto simp: list_all_iff dest: bspec [of _ _ "unat m"])

text \<open>The keys of a set of pressed usage codes, read back from the report.\<close>

lemma PressKeyWithMod_keys:
  assumes "j < 32" "k < 8"
  shows "bit (KeyBitmap (PressKeyWithMod mods keys) ! j) k \<longleftrightarrow> 8 * j + k \<in> unat ` set keys"
  using assms by (simp add: PressKeyWithMod_def bit_fold_set_key)

lemma PressKeyWithMod_inj:
  assumes "PressKeyWithMod m1 ks1 = PressKeyWithMod m2 ks2"
  shows "m1 = m2 \<and> set ks1 = set ks2"
proof -
  have "unat ` set ks1 = unat ` set ks2"
  proof (rule set_eqI)
    fix i
    show "i \<in> unat ` set ks1 \<longleftrightarrow> i \<in> unat ` set ks2"
    proof (cases "i < 256")
      case True
      then have "i div 8 < 32" "i mod 8 < 8" by auto
      then show ?thesis
        using PressKeyWithMod_keys [of "i div 8" "i mod 8" m1 ks1]
          PressKeyWithMod_keys [of "i div 8" "i mod 8" m2 ks2] assms by simp
    next
      case False
      have "unat c < 256" for c :: u8 using unsigned_less [where ?'a = nat, of c] by simp
      then show ?thesis using False by (metis imageE)
    qed
  qed
  then have "set ks1 = set ks2" by (simp add: inj_image_eq_iff inj_unsigned)
  then show ?thesis using assms by (simp add: PressKeyWithMod_def)
qed

lemma keyboard_BuildReport_inj:
  "keyboard_BuildReport a = keyboard_BuildReport b \<longleftrightarrow> a = b"
  by (cases a, cases b) (simp add: keyboard_BuildReport_def)

definition printable :: "char list" where
  "printable = map char_of [32..<127::nat]"

lemma printable_keys:
  "list_all (\<lambda>c. CharToHID c \<noteq> 0) printable \<and>
   distinct (map (\<lambda>c. (NeedsShift c, CharToHID c)) printable)"
  by code_simp

lemma TypeChar_printable:
  "c \<in> set printable \<Longrightarrow>
   TypeChar c = (PressKeyWithMod (if NeedsShift c then ModLeftShift else 0) [CharToHID c], Release)"
  using printable_keys by (auto simp: TypeChar_def list_all_iff Let_def)

section \<open>Mouse lemmas\<close>

lemma mouse_Unmarshal_Marshal: "mouse_UnmarshalBinary (mouse_MarshalBinary m @ rest) = Inr m"
  by (simp add: mouse_UnmarshalBinary_def mouse_MarshalBinary_def slice_Cons_skip wire_simps)

interpretation mouse_wire: fixed_codec mouse_MarshalBinary mouse_UnmarshalBinary 9 "\<lambda>_. True"
  by unfold_locales
    (use mouse_Unmarshal_Marshal [of _ "[]"] in \<open>simp_all add: mouse_MarshalBinary_def\<close>)

section \<open>The input channels\<close>

definition mouse_residue :: "MouseState \<Rightarrow> MouseState option" where
  "mouse_residue st = (if moving st then Some (stop_motion st) else None)"

definition keyboard_residue :: "KeyboardState \<Rightarrow> KeyboardState option" where
  "keyboard_residue st = None"

interpretation mouse_ch: input_latch mouse_residue ms_Buttons
  by unfold_locales
    (auto simp: mouse_residue_def stop_motion_def moving_def split: if_splits)

interpretation keyboard_ch: input_latch keyboard_residue id
  by unfold_locales (simp_all add: keyboard_residue_def)

definition mouse_of :: "MouseState latch \<Rightarrow> Mouse" where
  "mouse_of s = \<lparr>mouse_inputCh = map_option slot_state (lt_ch s)\<rparr>"

lemma latch_reach_trans:
  "latch_reach f a b \<Longrightarrow> latch_reach f s0 a \<Longrightarrow> latch_reach f s0 b"
  by (induction rule: latch_reach.induct) (auto intro: latch_reach.intros)

text \<open>An undisturbed \<open>UpdateInputState\<close> is a drain followed by a send, and a transfer is a
  take followed by the offer of the residue.\<close>

lemma mouse_UpdateInputState_steps:
  assumes "lt_pub s = None"
  shows "\<exists>s'. latch_reach mouse_residue s s' \<and> mouse_of s' = mouse_UpdateInputState st (mouse_of s) \<and>
    lt_published s' = lt_published s @ [st] \<and> lt_pub s' = None \<and> lt_host s' = lt_host s"
proof -
  define s1 where "s1 = s\<lparr>lt_ch := None, lt_pub := Some st\<rparr>"
  define s2 where "s2 = s1\<lparr>lt_ch := Some (Published st), lt_pub := None,
    lt_published := lt_published s1 @ [st]\<rparr>"
  have "latch_step mouse_residue s s1"
    unfolding s1_def by (rule drain) (rule assms)
  moreover have "latch_step mouse_residue s1 s2"
    unfolding s2_def by (rule send) (simp_all add: s1_def)
  ultimately have "latch_reach mouse_residue s s2" by (meson latch_reach.intros)
  moreover have "mouse_of s2 = mouse_UpdateInputState st (mouse_of s)"
      "lt_published s2 = lt_published s @ [st]" "lt_pub s2 = None" "lt_host s2 = lt_host s"
    by (simp_all add: s1_def s2_def mouse_of_def mouse_UpdateInputState_def)
  ultimately show ?thesis by blast
qed

lemma mouse_HandleTransfer_steps:
  assumes "lt_ch s = Some x" "lt_host s = None"
  shows "\<exists>s'. latch_reach mouse_residue s s' \<and>
    (Some (mouse_BuildReport (slot_state x)), mouse_of s') =
      mouse_HandleTransfer False None 1 DirIn (mouse_of s) \<and>
    lt_reported s' = lt_reported s @ [x] \<and> lt_host s' = None \<and> lt_pub s' = lt_pub s"
proof -
  define s1 where "s1 = s\<lparr>lt_ch := None, lt_host := mouse_residue (slot_state x),
    lt_reported := lt_reported s @ [x]\<rparr>"
  have s1: "latch_step mouse_residue s s1"
    unfolding s1_def using assms by (rule take_state)
  have ht: "mouse_HandleTransfer False None 1 DirIn (mouse_of s) =
      (Some (mouse_BuildReport (slot_state x)),
       \<lparr>mouse_inputCh = mouse_residue (slot_state x)\<rparr>)"
    using assms(1) by (simp add: mouse_HandleTransfer_def mouse_of_def mouse_residue_def Let_def)
  show ?thesis
  proof (cases "mouse_residue (slot_state x)")
    case None
    then show ?thesis using s1 ht by (intro exI [of _ s1])
        (auto simp: s1_def mouse_of_def intro: latch_reach.intros)
  next
    case (Some r)
    define s2 where "s2 = s1\<lparr>lt_ch := Some (Residue r), lt_host := None\<rparr>"
    have "latch_step mouse_residue s1 s2"
      unfolding s2_def by (rule put_back) (simp_all add: s1_def Some)
    then have "latch_reach mouse_residue s s2" using s1 by (meson latch_reach.intros)
    then show ?thesis using ht Some by (intro exI [of _ s2])
        (auto simp: s1_def s2_def mouse_of_def)
  qed
qed

section \<open>Runs of the keyboard\<close>

text \<open>A keyboard in use: publishers, one at a time under \<open>inputPublishMu\<close>, whose call may be
  interrupted by transfers between its two channel operations; transfers on any endpoint in
  either direction; and new LED callbacks. The run records the states published and the input
  reports returned to the host.\<close>

record keyboard_run =
  kr_dev :: Keyboard
  kr_pub :: "KeyboardState option"   \<comment> \<open>a publisher between its drain and its send\<close>
  kr_published :: "KeyboardState list"
  kr_reports :: "bytes list"

definition keyboard_start :: keyboard_run where
  "keyboard_start = \<lparr>kr_dev = keyboard_New, kr_pub = None,
     kr_published = [keyboard_NewInputState], kr_reports = []\<rparr>"

inductive keyboard_step :: "keyboard_run \<Rightarrow> keyboard_run \<Rightarrow> bool" where
  publish_whole: "kr_pub r = None \<Longrightarrow>
    keyboard_step r (r\<lparr>kr_dev := keyboard_UpdateInputState st (kr_dev r),
      kr_published := kr_published r @ [st]\<rparr>)"
| publish_drain: "kr_pub r = None \<Longrightarrow>
    keyboard_step r (r\<lparr>kr_dev := keyboard_drain (kr_dev r), kr_pub := Some st\<rparr>)"
| publish_send: "kr_pub r = Some st \<Longrightarrow> keyboard_send st (kr_dev r) = Some k \<Longrightarrow>
    keyboard_step r (r\<lparr>kr_dev := k, kr_pub := None, kr_published := kr_published r @ [st]\<rparr>)"
| host_transfer: "keyboard_HandleTransfer done ep dir out (kr_dev r) = ((report, leds), k) \<Longrightarrow>
    keyboard_step r (r\<lparr>kr_dev := k,
      kr_reports := kr_reports r @ (case report of None \<Rightarrow> [] | Some b \<Rightarrow> [b])\<rparr>)"
| led_callback: "keyboard_step r (r\<lparr>kr_dev := snd (SetLEDCallback f (kr_dev r))\<rparr>)"

inductive keyboard_reach :: "keyboard_run \<Rightarrow> bool" where
  kr_start: "keyboard_reach keyboard_start"
| kr_more: "keyboard_reach r \<Longrightarrow> keyboard_step r r' \<Longrightarrow> keyboard_reach r'"

text \<open>Such a run is a run of the channel.\<close>

definition keyboard_sim :: "keyboard_run \<Rightarrow> KeyboardState latch \<Rightarrow> bool" where
  "keyboard_sim r s \<longleftrightarrow>
     kb_inputCh (kr_dev r) = map_option slot_state (lt_ch s) \<and> kr_pub r = lt_pub s \<and>
     lt_host s = None \<and> kr_published r = lt_published s \<and>
     kr_reports r = map (\<lambda>x. keyboard_BuildReport (slot_state x)) (lt_reported s)"

lemma keyboard_UpdateInputState_split:
  "keyboard_send st (keyboard_drain k) = Some (keyboard_UpdateInputState st k)"
  by (simp add: keyboard_send_def keyboard_drain_def keyboard_UpdateInputState_def split: option.split)

lemma keyboard_drain_sim:
  fixes st :: KeyboardState
  assumes "keyboard_sim r s" "kr_pub r = None"
  defines "s' \<equiv> s\<lparr>lt_ch := None, lt_pub := Some st\<rparr>"
  shows "latch_step keyboard_residue s s'"
    "keyboard_sim (r\<lparr>kr_dev := keyboard_drain (kr_dev r), kr_pub := Some st\<rparr>) s'"
  using assms drain [of s keyboard_residue st]
  by (auto simp: keyboard_sim_def keyboard_drain_def split: option.split)

lemma keyboard_send_sim:
  assumes "keyboard_sim r s" "kr_pub r = Some st" "keyboard_send st (kr_dev r) = Some k"
  defines "s' \<equiv> s\<lparr>lt_ch := Some (Published st), lt_pub := None,
    lt_published := lt_published s @ [st]\<rparr>"
  shows "latch_step keyboard_residue s s'"
    "keyboard_sim (r\<lparr>kr_dev := k, kr_pub := None, kr_published := kr_published r @ [st]\<rparr>) s'"
  using assms send [of s st keyboard_residue]
  by (auto simp: keyboard_sim_def keyboard_send_def split: option.splits)

lemma keyboard_HandleTransfer_cases:
  assumes "keyboard_HandleTransfer done ep dir out k = ((report, leds), k')"
  obtains st where "kb_inputCh k = Some st" "report = Some (keyboard_BuildReport st)"
      "kb_inputCh k' = None"
    | "report = None" "kb_inputCh k' = kb_inputCh k"
  using assms by (auto simp: keyboard_HandleTransfer_def Let_def split: if_splits option.splits)

lemma keyboard_transfer_sim:
  assumes "keyboard_sim r s"
    "keyboard_HandleTransfer done ep dir out (kr_dev r) = ((report, leds), k)"
  defines "r' \<equiv> r\<lparr>kr_dev := k, kr_reports := kr_reports r @ (case report of None \<Rightarrow> [] | Some b \<Rightarrow> [b])\<rparr>"
  shows "\<exists>s'. latch_reach keyboard_residue s s' \<and> keyboard_sim r' s'"
  using assms(2)
proof (cases rule: keyboard_HandleTransfer_cases)
  case (1 st)
  then obtain x where x: "lt_ch s = Some x" "slot_state x = st"
    using assms(1) by (cases "lt_ch s") (simp_all add: keyboard_sim_def)
  define s' where "s' = s\<lparr>lt_ch := None, lt_host := keyboard_residue (slot_state x),
    lt_reported := lt_reported s @ [x]\<rparr>"
  have "latch_step keyboard_residue s s'"
    unfolding s'_def using assms(1) x(1) by (intro take_state) (simp_all add: keyboard_sim_def)
  moreover have "keyboard_sim r' s'"
    using assms(1) 1 x by (simp add: keyboard_sim_def r'_def s'_def keyboard_residue_def)
  ultimately show ?thesis by (meson latch_reach.intros)
next
  case 2
  then show ?thesis using assms(1)
    by (intro exI [of _ s]) (auto simp: keyboard_sim_def r'_def intro: latch_reach.start)
qed

lemma keyboard_step_sim:
  assumes "keyboard_step r r'" "keyboard_sim r s"
  shows "\<exists>s'. latch_reach keyboard_residue s s' \<and> keyboard_sim r' s'"
  using assms(1)
proof cases
  case (publish_whole st)
  note d = keyboard_drain_sim [OF assms(2) publish_whole(2), of st]
  let ?r = "r\<lparr>kr_dev := keyboard_drain (kr_dev r), kr_pub := Some st\<rparr>"
  have "kr_pub ?r = Some st"
    "keyboard_send st (kr_dev ?r) = Some (keyboard_UpdateInputState st (kr_dev r))"
    by (simp_all add: keyboard_UpdateInputState_split)
  from keyboard_send_sim [OF d(2) this] obtain s' where
    "latch_step keyboard_residue (s\<lparr>lt_ch := None, lt_pub := Some st\<rparr>) s'"
    "keyboard_sim (?r\<lparr>kr_dev := keyboard_UpdateInputState st (kr_dev r), kr_pub := None,
       kr_published := kr_published ?r @ [st]\<rparr>) s'" by blast
  moreover have "?r\<lparr>kr_dev := keyboard_UpdateInputState st (kr_dev r), kr_pub := None,
       kr_published := kr_published ?r @ [st]\<rparr> = r'" using publish_whole by simp
  ultimately show ?thesis using d(1) by (metis latch_reach.intros)
next
  case (publish_drain st)
  then show ?thesis using keyboard_drain_sim [OF assms(2)] by (meson latch_reach.intros)
next
  case (publish_send st k)
  then show ?thesis using keyboard_send_sim [OF assms(2)] by (meson latch_reach.intros)
next
  case host_transfer
  then show ?thesis using keyboard_transfer_sim [OF assms(2)] by blast
next
  case (led_callback f)
  then show ?thesis using assms(2)
    by (intro exI [of _ s]) (auto simp: keyboard_sim_def SetLEDCallback_def Let_def intro: latch_reach.start)
qed

lemma keyboard_reach_sim:
  "keyboard_reach r \<Longrightarrow>
     \<exists>s. latch_reach keyboard_residue (latch_init keyboard_NewInputState) s \<and> keyboard_sim r s"
proof (induction rule: keyboard_reach.induct)
  case kr_start
  have "keyboard_sim keyboard_start (latch_init keyboard_NewInputState)"
    by (simp add: keyboard_sim_def keyboard_start_def latch_init_def keyboard_New_def)
  then show ?case by (meson latch_reach.start)
next
  case (kr_more r r')
  then show ?case using keyboard_step_sim latch_reach_trans by meson
qed

lemma keyboard_channel:
  assumes "latch_reach keyboard_residue (latch_init keyboard_NewInputState) s"
  shows "subseq (map slot_state (lt_reported s)) (lt_published s)"
    "lt_pub s = None \<Longrightarrow> lt_ch s = None \<Longrightarrow>
       lt_reported s \<noteq> [] \<and> slot_state (last (lt_reported s)) = last (lt_published s)"
    "lt_pub s = Some st \<Longrightarrow> lt_ch s = None"
proof -
  have "paired keyboard_residue prev xs \<Longrightarrow> originals xs = map slot_state xs" for prev xs
    by (induction keyboard_residue prev xs rule: paired.induct)
      (auto simp: keyboard_residue_def split: option.splits slot.splits)
  then have o: "originals (lt_reported s) = map slot_state (lt_reported s)"
    using keyboard_ch.reports_in_order [OF assms] by blast
  note inv = keyboard_ch.reach_inv [OF assms]
  show "subseq (map slot_state (lt_reported s)) (lt_published s)"
    using keyboard_ch.reports_in_order [OF assms] o by simp
  show "lt_reported s \<noteq> [] \<and> slot_state (last (lt_reported s)) = last (lt_published s)"
    if "lt_pub s = None" "lt_ch s = None"
    using keyboard_ch.nothing_lost [OF assms that] inv that o by (auto simp: latch_inv_def)
  show "lt_ch s = None" if "lt_pub s = Some st"
    using inv that
    by (auto simp: latch_inv_def owed_def keyboard_residue_def split: option.splits slot.splits)
qed

section \<open>Properties\<close>

text \<open>C12: In every interleaving of publishers and transfers of the mouse, the reports with
  published states follow the order of publication and report no publication twice; every
  other report directly follows a report with motion and repeats its buttons with no
  motion; and once no publication is under way and the channel is empty the buttons last
  reported are the buttons last published.\<close>

theorem mouse_motion_reported_once:
  assumes "latch_reach mouse_residue (latch_init mouse_NewInputState) s"
  shows "subseq (originals (lt_reported s)) (lt_published s) \<and>
    paired mouse_residue None (lt_reported s) \<and>
    (lt_pub s = None \<and> lt_ch s = None \<longrightarrow>
       last (originals (lt_reported s)) = last (lt_published s) \<and>
       ms_Buttons (slot_state (last (lt_reported s))) = ms_Buttons (last (lt_published s)))"
  using mouse_ch.reports_in_order [OF assms] mouse_ch.nothing_lost [OF assms] by blast

text \<open>Witness: the initial state, a motion with a button, and the report that stops it.\<close>

definition demo_motion :: MouseState where
  "demo_motion = \<lparr>ms_Buttons = 1, ms_DX = 5, ms_DY = 0xFFFF, ms_Wheel = 0, ms_Pan = 0\<rparr>"

definition demo_latch :: "MouseState latch" where
  "demo_latch = \<lparr>lt_ch = None, lt_pub = None, lt_host = None,
     lt_published = [mouse_NewInputState, demo_motion],
     lt_reported = [Published mouse_NewInputState, Published demo_motion,
       Residue (stop_motion demo_motion)]\<rparr>"

lemma demo_latch_reach:
  "latch_reach mouse_residue (latch_init mouse_NewInputState) demo_latch"
proof -
  let ?i = "latch_init mouse_NewInputState"
  define s1 where "s1 = ?i\<lparr>lt_ch := None, lt_host := None,
    lt_reported := [Published mouse_NewInputState]\<rparr>"
  define s2 where "s2 = s1\<lparr>lt_ch := None, lt_pub := Some demo_motion\<rparr>"
  define s3 where "s3 = s2\<lparr>lt_ch := Some (Published demo_motion), lt_pub := None,
    lt_published := lt_published s2 @ [demo_motion]\<rparr>"
  define s4 where "s4 = s3\<lparr>lt_ch := None, lt_host := Some (stop_motion demo_motion),
    lt_reported := lt_reported s3 @ [Published demo_motion]\<rparr>"
  define s5 where "s5 = s4\<lparr>lt_ch := Some (Residue (stop_motion demo_motion)), lt_host := None\<rparr>"
  note d = s1_def s2_def s3_def s4_def s5_def latch_init_def
  have r: "mouse_residue mouse_NewInputState = None"
    "mouse_residue demo_motion = Some (stop_motion demo_motion)"
    "mouse_residue (stop_motion demo_motion) = None"
    by (simp_all add: mouse_residue_def moving_def stop_motion_def demo_motion_def
        mouse_NewInputState_def)
  have "latch_step mouse_residue ?i s1"
    using take_state [of ?i _ mouse_residue] by (simp add: d r)
  moreover have "latch_step mouse_residue s1 s2"
    unfolding s2_def by (rule drain) (simp add: d)
  moreover have "latch_step mouse_residue s2 s3"
    unfolding s3_def by (rule send) (simp_all add: d)
  moreover have "latch_step mouse_residue s3 s4"
    using take_state [of s3 _ mouse_residue] by (simp add: d r)
  moreover have "latch_step mouse_residue s4 s5"
    unfolding s5_def by (rule put_back) (simp_all add: d)
  moreover have "latch_step mouse_residue s5 demo_latch"
    using take_state [of s5 _ mouse_residue] by (simp add: d r demo_latch_def)
  ultimately show ?thesis by (meson latch_reach.intros)
qed

theorem mouse_motion_reported_once_witness:
  "latch_reach mouse_residue (latch_init mouse_NewInputState) demo_latch \<and>
   ms_Buttons (slot_state (last (lt_reported demo_latch))) = 1"
  using mouse_motion_reported_once [OF demo_latch_reach] demo_latch_reach
  by (simp add: demo_latch_def demo_motion_def)

text \<open>C35: However publishers, transfers and LED callbacks interleave on a new keyboard, the input
  reports are the reports of published states in the order of publication, none reported twice.
  Once no publication is under way and the channel is empty, the last report is that of the last
  state published. A publisher that has drained the channel is never blocked.\<close>

theorem keyboard_reports_in_order:
  assumes "keyboard_reach r"
  shows "(\<exists>sts. subseq sts (kr_published r) \<and> kr_reports r = map keyboard_BuildReport sts) \<and>
    (kr_pub r = None \<and> kb_inputCh (kr_dev r) = None \<longrightarrow>
       kr_reports r \<noteq> [] \<and>
       last (kr_reports r) = keyboard_BuildReport (last (kr_published r))) \<and>
    (\<forall>st. kr_pub r = Some st \<longrightarrow> (\<exists>k. keyboard_send st (kr_dev r) = Some k))"
proof -
  obtain s where s: "latch_reach keyboard_residue (latch_init keyboard_NewInputState) s"
    and sim: "keyboard_sim r s" using keyboard_reach_sim [OF assms] by blast
  note c = keyboard_channel [OF s]
  have "kr_reports r = map keyboard_BuildReport (map slot_state (lt_reported s))"
    using sim by (simp add: keyboard_sim_def)
  moreover have "keyboard_send st (kr_dev r) = Some ((kr_dev r)\<lparr>kb_inputCh := Some st\<rparr>)"
    if "kr_pub r = Some st" for st
  proof -
    have "lt_pub s = Some st" using sim that by (simp add: keyboard_sim_def)
    then have "lt_ch s = None" by (rule c(3))
    then show ?thesis using sim by (simp add: keyboard_sim_def keyboard_send_def)
  qed
  ultimately show ?thesis using sim c(1,2) by (auto simp: keyboard_sim_def last_map)
qed

text \<open>Witness: a transfer, a publication in its two channel operations, a second one that replaces
  it before the host asks, and the transfer that reports the second.\<close>

theorem keyboard_reports_in_order_witness:
  "\<exists>r. keyboard_reach r \<and> length (kr_published r) = 3 \<and>
     last (kr_reports r) = keyboard_BuildReport \<lparr>Modifiers = 2, KeyBitmap = replicate 32 0\<rparr>"
proof -
  let ?a = "\<lparr>Modifiers = 1, KeyBitmap = replicate 32 0\<rparr>"
  let ?b = "\<lparr>Modifiers = 2, KeyBitmap = replicate 32 0\<rparr>"
  let ?dev = "\<lambda>ch. \<lparr>kb_inputCh = ch, kb_ledState = 0, kb_ledSeen = False, kb_ledCallback = False\<rparr>"
  let ?z = keyboard_NewInputState
  define r1 where "r1 = \<lparr>kr_dev = ?dev None, kr_pub = None, kr_published = [?z],
    kr_reports = [keyboard_BuildReport ?z]\<rparr>"
  define r2 where "r2 = r1\<lparr>kr_pub := Some ?a\<rparr>"
  define r3 where "r3 = r2\<lparr>kr_dev := ?dev (Some ?a), kr_pub := None, kr_published := [?z, ?a]\<rparr>"
  define r4 where "r4 = r3\<lparr>kr_dev := ?dev (Some ?b), kr_published := [?z, ?a, ?b]\<rparr>"
  define r5 where "r5 = r4\<lparr>kr_dev := ?dev None,
    kr_reports := [keyboard_BuildReport ?z, keyboard_BuildReport ?b]\<rparr>"
  note d = r1_def r2_def r3_def r4_def r5_def keyboard_start_def keyboard_New_def
  note ops = keyboard_drain_def keyboard_send_def keyboard_UpdateInputState_def
    keyboard_HandleTransfer_def
  have "keyboard_step keyboard_start r1"
    using host_transfer [of False 1 DirIn "[]" keyboard_start] by (simp add: d ops)
  moreover have "keyboard_step r1 r2" using publish_drain [of r1 ?a] by (simp add: d ops)
  moreover have "keyboard_step r2 r3" using publish_send [of r2 ?a] by (simp add: d ops)
  moreover have "keyboard_step r3 r4" using publish_whole [of r3 ?b] by (simp add: d ops)
  moreover have "keyboard_step r4 r5"
    using host_transfer [of False 1 DirIn "[]" r4] by (simp add: d ops)
  ultimately have r: "keyboard_reach r5" by (meson keyboard_reach.intros)
  then show ?thesis
    using keyboard_reports_in_order [OF r] by (intro exI [of _ r5]) (simp add: d)
qed

text \<open>C36: The keyboard's stream reader recovers exactly the states a client marshals, as long
  as no state has all 256 keys down, and then ends at a message boundary.\<close>

theorem keyboard_stream_roundtrip:
  assumes "\<forall>kb \<in> set kbs. wf_KeyboardState kb \<and> length (pressed_keys kb) < 256"
  shows "keyboard_stream (concat (map keyboard_MarshalBinary kbs)) = (kbs, True)"
  using assms by (rule keyboard_stream_Marshal)

theorem keyboard_stream_roundtrip_witness:
  "keyboard_stream (concat (map keyboard_MarshalBinary (TypeString ''Hi!''))) =
     (TypeString ''Hi!'', True)"
proof -
  have "list_all (\<lambda>kb. wf_KeyboardState kb \<and> \<not> bit (KeyBitmap kb ! 0) 0) (TypeString ''Hi!'')"
    by code_simp
  then show ?thesis
    using keyboard_stream_roundtrip [of "TypeString ''Hi!''"] pressed_keys_short
    by (auto simp: list_all_iff)
qed

text \<open>C40: With all 256 keys down the one-byte key count of the message wraps to zero, and the
  decoder reads no key at all from the 258-byte message.\<close>

theorem keyboard_full_bitmap_lost:
  "keyboard_UnmarshalBinary (keyboard_MarshalBinary \<lparr>Modifiers = m, KeyBitmap = replicate 32 0xFF\<rparr>) st
     = (None, \<lparr>Modifiers = m, KeyBitmap = replicate 32 0\<rparr>) \<and>
   length (keyboard_MarshalBinary \<lparr>Modifiers = m, KeyBitmap = replicate 32 0xFF\<rparr>) = 258"
proof -
  let ?full = "\<lparr>Modifiers = m, KeyBitmap = replicate 32 0xFF\<rparr>"
  have all: "KeyBitmap ?full ! (i div 8) AND push_bit (i mod 8) 1 \<noteq> 0" if "i < 256" for i
  proof -
    have "i mod 8 \<in> {0, 1, 2, 3, 4, 5, 6, 7}" by auto
    then have "bit (0xFF :: u8) (i mod 8)" by auto
    moreover have "i div 8 < 32" using that by simp
    ultimately show ?thesis by (simp add: and_exp_eq_0_iff_not_bit)
  qed
  have k: "pressed_keys ?full = map of_nat [0..<256]"
    unfolding pressed_keys_def by (subst filter_True) (use all in auto)
  show ?thesis
    by (simp add: keyboard_MarshalBinary_def keyboard_UnmarshalBinary_def k slice_def)
qed

text \<open>Typing distinguishes the printable characters: every printable ASCII character has a
  key, its press differs from the release, and two of them with the same press report are
  the same character.\<close>

lemma TypeChar_injective:
  "c \<in> set printable \<Longrightarrow> d \<in> set printable \<Longrightarrow>
   keyboard_BuildReport (fst (TypeChar c)) = keyboard_BuildReport (fst (TypeChar d)) \<Longrightarrow>
   c = d \<and> fst (TypeChar c) \<noteq> snd (TypeChar c)"
proof -
  assume c: "c \<in> set printable" and d: "d \<in> set printable"
    and e: "keyboard_BuildReport (fst (TypeChar c)) = keyboard_BuildReport (fst (TypeChar d))"
  have "PressKeyWithMod (if NeedsShift c then ModLeftShift else 0) [CharToHID c]
      = PressKeyWithMod (if NeedsShift d then ModLeftShift else 0) [CharToHID d]"
    using e by (simp add: keyboard_BuildReport_inj TypeChar_printable c d)
  then have "(NeedsShift c, CharToHID c) = (NeedsShift d, CharToHID d)"
    by (auto dest!: PressKeyWithMod_inj simp: ModLeftShift_def split: if_splits)
  then have "c = d" using printable_keys c d by (auto simp: distinct_map inj_on_def)
  moreover have "PressKeyWithMod m [k] \<noteq> PressKeyWithMod 0 []" for m k
    by (auto dest!: PressKeyWithMod_inj)
  then have "fst (TypeChar c) \<noteq> snd (TypeChar c)"
    by (simp add: TypeChar_printable [OF c] Release_def PressKeyWithMod_def)
  ultimately show ?thesis by simp
qed

lemma TypeChar_injective_witness:
  "CHR ''A'' \<in> set printable \<and> fst (TypeChar (CHR ''A'')) \<noteq> snd (TypeChar (CHR ''A''))"
proof -
  have "CHR ''A'' \<in> set printable" by code_simp
  then show ?thesis using TypeChar_injective [of "CHR ''A''" "CHR ''A''"] by simp
qed

text \<open>The LED state that the host sets reaches the client: after an OUT transfer with a
  mask, the device's state, the byte an installed callback writes, and the byte a callback
  installed later is replayed all decode at the client to the mask's five lamps.\<close>

lemma keyboard_led_path:
  "\<exists>k'. keyboard_HandleTransfer done 1 DirOut (m # rest) k =
      ((None, if kb_ledCallback k then [ledStateFromMask m] else []), k') \<and>
    GetLEDState k' = ledStateFromMask m \<and>
    fst (SetLEDCallback True k') = [ledStateFromMask m] \<and>
    LEDState_UnmarshalBinary [led_byte (ledStateFromMask m)] = Inr (ledStateFromMask m) \<and>
    led_byte (GetLEDState k') = m AND 0x1F"
proof -
  define k' where "k' = k\<lparr>kb_ledState := m, kb_ledSeen := True\<rparr>"
  have "LEDState_UnmarshalBinary [led_byte (ledStateFromMask m)] = Inr (ledStateFromMask m)"
    by (simp add: LEDState_UnmarshalBinary_def ledStateFromMask_led_byte)
  moreover have "led_byte (GetLEDState k') = m AND 0x1F"
    by (simp add: k'_def GetLEDState_def led_byte_ledStateFromMask)
  ultimately show ?thesis
    by (intro exI [of _ k']) (simp add: k'_def keyboard_HandleTransfer_def GetLEDState_def
      SetLEDCallback_def Let_def usbip_consts)
qed

end
