(* ===== verification/Feedback_Frame.thy ===== *)
theory Feedback_Frame
  imports Go_Prelude
begin

text \<open>
  The canonical controller feedback frame of \<^verbatim>\<open>controllerfeedback/frame.go\<close>: the 72-byte CFBK
  wire format, its validation, the freshness test in the host-monotonic clock, and the
  ordering of frames that the mailbox and the runtime of the same package admit. The
  enumerations of the source are bytes, so that every byte a message may hold is a value.
\<close>

definition Version1 :: u16 where "Version1 = 1"
definition FrameSize :: nat where "FrameSize = 72"
definition MaxFutureSkewMicroseconds :: u64 where "MaxFutureSkewMicroseconds = 5000"
definition MaxTimeToLiveMicroseconds :: u64 where "MaxTimeToLiveMicroseconds = 250000"
definition wireMagic :: u32 where "wireMagic = 0x4B424643"

definition SourceXboxOneVirtualDevice :: u8 where "SourceXboxOneVirtualDevice = 1"
definition SourceDualShock4VirtualDevice :: u8 where "SourceDualShock4VirtualDevice = 6"

definition Source_Valid :: "u8 \<Rightarrow> bool" where
  "Source_Valid source \<longleftrightarrow>
     source \<ge> SourceXboxOneVirtualDevice \<and> source \<le> SourceDualShock4VirtualDevice"

definition CommandApply :: u8 where "CommandApply = 1"
definition CommandNeutral :: u8 where "CommandNeutral = 2"
definition CommandStop :: u8 where "CommandStop = 3"

definition Command_Valid :: "u8 \<Rightarrow> bool" where
  "Command_Valid command \<longleftrightarrow> command \<ge> CommandApply \<and> command \<le> CommandStop"

definition ActuatorBodyLow :: u8 where "ActuatorBodyLow = 0x01"
definition ActuatorBodyHigh :: u8 where "ActuatorBodyHigh = 0x02"
definition ActuatorLeftTrigger :: u8 where "ActuatorLeftTrigger = 0x04"
definition ActuatorRightTrigger :: u8 where "ActuatorRightTrigger = 0x08"
definition ActuatorAll :: u8 where "ActuatorAll = 0x0F"

definition ActuatorMask_Valid :: "u8 \<Rightarrow> bool" where
  "ActuatorMask_Valid m \<longleftrightarrow> m = ActuatorAll"

lemmas cfbk_consts = Version1_def FrameSize_def MaxFutureSkewMicroseconds_def
  MaxTimeToLiveMicroseconds_def wireMagic_def SourceXboxOneVirtualDevice_def
  SourceDualShock4VirtualDevice_def CommandApply_def CommandNeutral_def CommandStop_def
  ActuatorBodyLow_def ActuatorBodyHigh_def ActuatorLeftTrigger_def ActuatorRightTrigger_def
  ActuatorAll_def

datatype frame_error =
  ErrInvalidSize | ErrInvalidMagic | ErrInvalidVersion | ErrReservedNonZero
| ErrInvalidSource | ErrInvalidCommand | ErrInvalidActuators | ErrInvalidAmplitude
| ErrInvalidSequence | ErrInvalidGeneration | ErrInvalidTTL

record Frame =
  fr_Version :: u16
  fr_Source :: u8
  fr_Command :: u8
  fr_Actuators :: u8
  fr_BodyLow :: u16
  fr_BodyHigh :: u16
  fr_LeftTrigger :: u16
  fr_RightTrigger :: u16
  fr_Sequence :: u64
  fr_DeviceGeneration :: u64
  fr_TransportGeneration :: u64
  fr_OwnershipEpoch :: u64
  fr_TimestampMicroseconds :: u64
  fr_TimeToLiveMicroseconds :: u64

definition zero_Frame :: Frame where
  "zero_Frame = \<lparr>fr_Version = 0, fr_Source = 0, fr_Command = 0, fr_Actuators = 0,
     fr_BodyLow = 0, fr_BodyHigh = 0, fr_LeftTrigger = 0, fr_RightTrigger = 0,
     fr_Sequence = 0, fr_DeviceGeneration = 0, fr_TransportGeneration = 0,
     fr_OwnershipEpoch = 0, fr_TimestampMicroseconds = 0, fr_TimeToLiveMicroseconds = 0\<rparr>"

definition hasAmplitude :: "Frame \<Rightarrow> bool" where
  "hasAmplitude f \<longleftrightarrow> fr_BodyLow f \<noteq> 0 \<or> fr_BodyHigh f \<noteq> 0 \<or>
     fr_LeftTrigger f \<noteq> 0 \<or> fr_RightTrigger f \<noteq> 0"

definition Validate :: "Frame \<Rightarrow> frame_error option" where
  "Validate f =
     (if fr_Version f \<noteq> Version1 then Some ErrInvalidVersion
      else if \<not> Source_Valid (fr_Source f) then Some ErrInvalidSource
      else if \<not> Command_Valid (fr_Command f) then Some ErrInvalidCommand
      else if \<not> ActuatorMask_Valid (fr_Actuators f) then Some ErrInvalidActuators
      else if fr_Sequence f = 0 then Some ErrInvalidSequence
      else if fr_DeviceGeneration f = 0 \<or> fr_TransportGeneration f = 0 \<or>
        fr_OwnershipEpoch f = 0 then Some ErrInvalidGeneration
      else if fr_TimeToLiveMicroseconds f = 0 \<or>
        fr_TimeToLiveMicroseconds f > MaxTimeToLiveMicroseconds then Some ErrInvalidTTL
      else if fr_Actuators f AND ActuatorBodyLow = 0 \<and> fr_BodyLow f \<noteq> 0 \<or>
        fr_Actuators f AND ActuatorBodyHigh = 0 \<and> fr_BodyHigh f \<noteq> 0 \<or>
        fr_Actuators f AND ActuatorLeftTrigger = 0 \<and> fr_LeftTrigger f \<noteq> 0 \<or>
        fr_Actuators f AND ActuatorRightTrigger = 0 \<and> fr_RightTrigger f \<noteq> 0
      then Some ErrInvalidAmplitude
      else if fr_Command f = CommandApply
      then (if \<not> hasAmplitude f then Some ErrInvalidAmplitude else None)
      else if hasAmplitude f then Some ErrInvalidAmplitude
      else None)"

definition Frame_Valid :: "Frame \<Rightarrow> bool" where
  "Frame_Valid f \<longleftrightarrow> Validate f = None"

definition IsNeutral :: "Frame \<Rightarrow> bool" where
  "IsNeutral f \<longleftrightarrow> fr_Command f = CommandNeutral"

definition IsStop :: "Frame \<Rightarrow> bool" where
  "IsStop f \<longleftrightarrow> fr_Command f = CommandStop"

definition FreshAt :: "Frame \<Rightarrow> u64 \<Rightarrow> bool" where
  "FreshAt f now =
     (if fr_TimestampMicroseconds f > now
      then fr_TimestampMicroseconds f - now \<le> MaxFutureSkewMicroseconds
      else now - fr_TimestampMicroseconds f < fr_TimeToLiveMicroseconds f)"

definition ExpiredAt :: "Frame \<Rightarrow> u64 \<Rightarrow> bool" where
  "ExpiredAt f now \<longleftrightarrow> \<not> FreshAt f now"

text \<open>The 72 bytes \<open>MarshalTo\<close> writes after clearing the destination: bytes 11 and 20 to 23
  are reserved.\<close>

definition Frame_bytes :: "Frame \<Rightarrow> bytes" where
  "Frame_bytes f =
     le_bytes 4 wireMagic @ le_bytes 2 (fr_Version f) @ le_bytes 2 (of_nat FrameSize :: u16) @
     [fr_Source f, fr_Command f, fr_Actuators f, 0] @
     le_bytes 2 (fr_BodyLow f) @ le_bytes 2 (fr_BodyHigh f) @
     le_bytes 2 (fr_LeftTrigger f) @ le_bytes 2 (fr_RightTrigger f) @ [0, 0, 0, 0] @
     le_bytes 8 (fr_Sequence f) @ le_bytes 8 (fr_DeviceGeneration f) @
     le_bytes 8 (fr_TransportGeneration f) @ le_bytes 8 (fr_OwnershipEpoch f) @
     le_bytes 8 (fr_TimestampMicroseconds f) @ le_bytes 8 (fr_TimeToLiveMicroseconds f)"

definition MarshalTo :: "Frame \<Rightarrow> bytes \<Rightarrow> frame_error option \<times> bytes" where
  "MarshalTo f dst =
     (if length dst < FrameSize then (Some ErrInvalidSize, dst)
      else case Validate f of
             Some e \<Rightarrow> (Some e, dst)
           | None \<Rightarrow> (None, Frame_bytes f @ drop FrameSize dst))"

text \<open>The result of \<open>UnmarshalFrom\<close> is the error and the receiver afterwards, which is zero on
  every failure.\<close>

definition frame_candidate :: "bytes \<Rightarrow> Frame" where
  "frame_candidate src =
     \<lparr>fr_Version = Version1, fr_Source = src ! 8, fr_Command = src ! 9, fr_Actuators = src ! 10,
      fr_BodyLow = le_word (slice src 12 14), fr_BodyHigh = le_word (slice src 14 16),
      fr_LeftTrigger = le_word (slice src 16 18), fr_RightTrigger = le_word (slice src 18 20),
      fr_Sequence = le_word (slice src 24 32), fr_DeviceGeneration = le_word (slice src 32 40),
      fr_TransportGeneration = le_word (slice src 40 48),
      fr_OwnershipEpoch = le_word (slice src 48 56),
      fr_TimestampMicroseconds = le_word (slice src 56 64),
      fr_TimeToLiveMicroseconds = le_word (slice src 64 72)\<rparr>"

definition UnmarshalFrom :: "bytes \<Rightarrow> frame_error option \<times> Frame" where
  "UnmarshalFrom src =
     (if length src \<noteq> FrameSize then (Some ErrInvalidSize, zero_Frame)
      else if (le_word (slice src 0 4) :: u32) \<noteq> wireMagic then (Some ErrInvalidMagic, zero_Frame)
      else if (le_word (slice src 4 6) :: u16) \<noteq> Version1 then (Some ErrInvalidVersion, zero_Frame)
      else if (le_word (slice src 6 8) :: u16) \<noteq> of_nat FrameSize
      then (Some ErrInvalidSize, zero_Frame)
      else if src ! 11 \<noteq> 0 \<or> src ! 20 \<noteq> 0 \<or> src ! 21 \<noteq> 0 \<or> src ! 22 \<noteq> 0 \<or> src ! 23 \<noteq> 0
      then (Some ErrReservedNonZero, zero_Frame)
      else case Validate (frame_candidate src) of
             Some e \<Rightarrow> (Some e, zero_Frame)
           | None \<Rightarrow> (None, frame_candidate src))"

text \<open>\<open>newer\<close> of \<^verbatim>\<open>mailbox.go\<close> and \<open>newerRuntimeFrame\<close> of \<^verbatim>\<open>runtime.go\<close>.\<close>

definition newer :: "Frame \<Rightarrow> Frame \<Rightarrow> bool" where
  "newer candidate current =
     (if fr_DeviceGeneration candidate \<noteq> fr_DeviceGeneration current
      then fr_DeviceGeneration candidate > fr_DeviceGeneration current
      else if fr_TransportGeneration candidate \<noteq> fr_TransportGeneration current
      then fr_TransportGeneration candidate > fr_TransportGeneration current
      else if fr_OwnershipEpoch candidate \<noteq> fr_OwnershipEpoch current
      then fr_OwnershipEpoch candidate > fr_OwnershipEpoch current
      else fr_Command current \<noteq> CommandStop \<and> fr_Source candidate = fr_Source current \<and>
        fr_Sequence candidate > fr_Sequence current)"

section \<open>Lemmas\<close>

lemma length_Frame_bytes [simp]: "length (Frame_bytes f) = FrameSize"
  by (simp add: Frame_bytes_def FrameSize_def)

lemma frame_candidate_bytes:
  assumes "fr_Version f = Version1"
  shows "frame_candidate (Frame_bytes f) = f"
  using assms
  by (cases f) (simp add: frame_candidate_def Frame_bytes_def FrameSize_def nth_append)


lemma Frame_bytes_candidate:
  assumes "length src = FrameSize" "(le_word (slice src 0 4) :: u32) = wireMagic"
    "(le_word (slice src 4 6) :: u16) = Version1"
    "(le_word (slice src 6 8) :: u16) = of_nat FrameSize"
    "src ! 11 = 0" "src ! 20 = 0" "src ! 21 = 0" "src ! 22 = 0" "src ! 23 = 0"
  shows "Frame_bytes (frame_candidate src) = src"
proof -
  have len: "length src = 72" using assms(1) by (simp add: FrameSize_def)
  have l: "length (slice src 0 4) = 4" "length (slice src 4 6) = 2" "length (slice src 6 8) = 2"
    using len by simp_all
  have w1: "le_bytes 4 wireMagic = slice src 0 4"
    by (rule le_bytes_of_word [OF assms(2)]) (simp_all only: l, simp)
  have w2: "le_bytes 2 Version1 = slice src 4 6"
    by (rule le_bytes_of_word [OF assms(3)]) (simp_all only: l, simp)
  have w3: "le_bytes 2 (of_nat FrameSize :: u16) = slice src 6 8"
    by (rule le_bytes_of_word [OF assms(4)]) (simp_all only: l, simp)
  note words = w1 w2 w3
  have singles: "[src ! 8, src ! 9, src ! 10, 0] = slice src 8 12"
    "[0, 0, 0, 0] = slice src 20 24"
  proof -
    have "slice src 8 12 = slice src 8 9 @ slice src 9 10 @ slice src 10 11 @ slice src 11 12"
      by (simp add: slice_join slice_split)
    then show "[src ! 8, src ! 9, src ! 10, 0] = slice src 8 12"
      using len slice_single [of 8 src] slice_single [of 9 src] slice_single [of 10 src]
        slice_single [of 11 src] assms(5) by simp
    have "slice src 20 24 = slice src 20 21 @ slice src 21 22 @ slice src 22 23 @ slice src 23 24"
      by (simp add: slice_join slice_split)
    then show "[0, 0, 0, 0] = slice src 20 24"
      using len slice_single [of 20 src] slice_single [of 21 src] slice_single [of 22 src]
        slice_single [of 23 src] assms(6-9) by simp
  qed
  have "Frame_bytes (frame_candidate src) =
    slice src 0 4 @ slice src 4 6 @ slice src 6 8 @ slice src 8 12 @ slice src 12 14 @
    slice src 14 16 @ slice src 16 18 @ slice src 18 20 @ slice src 20 24 @ slice src 24 32 @
    slice src 32 40 @ slice src 40 48 @ slice src 48 56 @ slice src 56 64 @ slice src 64 72"
    unfolding Frame_bytes_def frame_candidate_def Frame.simps words singles
    using len by simp
  also have "\<dots> = slice src 0 72" by (simp add: slice_join slice_split)
  also have "\<dots> = src" using len by simp
  finally show ?thesis .
qed

lemma Validate_Version: "Validate f = None \<Longrightarrow> fr_Version f = Version1"
  by (cases "fr_Version f = Version1") (simp_all add: Validate_def)

lemma UnmarshalFrom_bytes:
  assumes "Frame_Valid f"
  shows "UnmarshalFrom (Frame_bytes f) = (None, f)"
proof -
  have v: "fr_Version f = Version1" "Validate f = None"
    using assms by (simp_all add: Frame_Valid_def Validate_Version)
  have "(le_word (slice (Frame_bytes f) 0 4) :: u32) = wireMagic"
    "(le_word (slice (Frame_bytes f) 4 6) :: u16) = Version1"
    "(le_word (slice (Frame_bytes f) 6 8) :: u16) = of_nat FrameSize"
    "Frame_bytes f ! 11 = 0" "Frame_bytes f ! 20 = 0" "Frame_bytes f ! 21 = 0"
    "Frame_bytes f ! 22 = 0" "Frame_bytes f ! 23 = 0"
    using v by (simp_all add: Frame_bytes_def nth_append)
  then show ?thesis using v frame_candidate_bytes [OF v(1)]
    by (simp add: UnmarshalFrom_def)
qed

lemma UnmarshalFrom_image:
  assumes "UnmarshalFrom src = (None, f)"
  shows "Frame_Valid f \<and> Frame_bytes f = src"
  using assms Frame_bytes_candidate [of src]
  by (auto simp: UnmarshalFrom_def Frame_Valid_def split: if_splits option.splits)

lemma UnmarshalFrom_error: "UnmarshalFrom src = (Some e, f) \<Longrightarrow> f = zero_Frame"
  by (auto simp: UnmarshalFrom_def split: if_splits option.splits)

definition Frame_decode :: "bytes \<Rightarrow> frame_error + Frame" where
  "Frame_decode src = (case UnmarshalFrom src of (None, f) \<Rightarrow> Inr f | (Some e, _) \<Rightarrow> Inl e)"

interpretation cfbk: fixed_codec Frame_bytes Frame_decode FrameSize Frame_Valid
  by unfold_locales (simp_all add: Frame_decode_def UnmarshalFrom_bytes FrameSize_def)

lemma FreshAt_unat:
  "FreshAt f now \<longleftrightarrow>
     (if unat now < unat (fr_TimestampMicroseconds f)
      then unat (fr_TimestampMicroseconds f) \<le> unat now + 5000
      else unat now < unat (fr_TimestampMicroseconds f) + unat (fr_TimeToLiveMicroseconds f))"
  by (auto simp: FreshAt_def MaxFutureSkewMicroseconds_def word_less_nat_alt word_le_nat_alt
      unat_sub)

lemma newer_irrefl: "\<not> newer f f"
  by (simp add: newer_def)

lemma newer_trans: "newer a b \<Longrightarrow> newer b c \<Longrightarrow> newer a c"
  by (auto simp: newer_def split: if_splits)

text \<open>A stop is terminal in its ownership epoch: whatever is newer has a later device
  generation, transport generation or epoch.\<close>

lemma newer_stop:
  assumes "newer f stop" "fr_Command stop = CommandStop"
  shows "fr_DeviceGeneration f > fr_DeviceGeneration stop \<or>
    fr_TransportGeneration f > fr_TransportGeneration stop \<or>
    fr_OwnershipEpoch f > fr_OwnershipEpoch stop"
  using assms by (auto simp: newer_def split: if_splits)

section \<open>Properties\<close>

text \<open>C28: The decoder accepts exactly the images of valid frames: it returns \<open>f\<close> for a message
  if and only if \<open>f\<close> is valid and marshalling \<open>f\<close> over the message leaves it as it is, and
  the message is 72 bytes long; on every other message the receiver is left zero.\<close>

theorem cfbk_exact:
  "(UnmarshalFrom src = (None, f) \<longleftrightarrow>
      Frame_Valid f \<and> length src = FrameSize \<and> MarshalTo f src = (None, src)) \<and>
   (UnmarshalFrom src = (Some e, g) \<longrightarrow> g = zero_Frame)"
proof -
  have "MarshalTo f src = (None, Frame_bytes f)" if "Frame_Valid f" "length src = FrameSize"
    using that by (simp add: MarshalTo_def Frame_Valid_def)
  then have "UnmarshalFrom src = (None, f) \<longleftrightarrow>
      Frame_Valid f \<and> length src = FrameSize \<and> MarshalTo f src = (None, src)"
    using UnmarshalFrom_bytes [of f] UnmarshalFrom_image [of src f] length_Frame_bytes [of f]
    by auto
  then show ?thesis using UnmarshalFrom_error by blast
qed

definition demo_frame :: Frame where
  "demo_frame = \<lparr>fr_Version = 1, fr_Source = 3, fr_Command = 1, fr_Actuators = 0x0F,
     fr_BodyLow = 0x8000, fr_BodyHigh = 0, fr_LeftTrigger = 0, fr_RightTrigger = 7,
     fr_Sequence = 1, fr_DeviceGeneration = 1, fr_TransportGeneration = 1,
     fr_OwnershipEpoch = 1, fr_TimestampMicroseconds = 1000000,
     fr_TimeToLiveMicroseconds = 100000\<rparr>"

theorem cfbk_exact_witness:
  "UnmarshalFrom (replicate 71 0) = (Some ErrInvalidSize, zero_Frame) \<and>
   UnmarshalFrom (Frame_bytes demo_frame) = (None, demo_frame)"
proof -
  have v: "Frame_Valid demo_frame" by code_simp
  then have "MarshalTo demo_frame (Frame_bytes demo_frame) = (None, Frame_bytes demo_frame)"
    by (simp add: MarshalTo_def Frame_Valid_def)
  then have "UnmarshalFrom (Frame_bytes demo_frame) = (None, demo_frame)"
    using v cfbk_exact [of "Frame_bytes demo_frame" demo_frame] by simp
  moreover have "UnmarshalFrom (replicate 71 0) = (Some ErrInvalidSize, zero_Frame)"
    by (simp add: UnmarshalFrom_def FrameSize_def)
  ultimately show ?thesis by simp
qed

text \<open>The lease of a valid frame is bounded: the clock readings at which it is fresh span
  less than the largest time to live plus the tolerated skew, and freshness is decided
  without wrap-around although the source subtracts unsigned 64-bit numbers.\<close>

lemma frame_lease_bounded:
  assumes "Frame_Valid f" "FreshAt f a" "FreshAt f b" "a \<le> b"
  shows "unat b - unat a < 255000 \<and>
    unat b < unat (fr_TimestampMicroseconds f) + unat (fr_TimeToLiveMicroseconds f) + 5000"
proof -
  have "fr_TimeToLiveMicroseconds f \<le> 250000" "fr_TimeToLiveMicroseconds f \<noteq> 0"
    using assms(1) by (auto simp: Frame_Valid_def Validate_def MaxTimeToLiveMicroseconds_def
        split: if_splits)
  then have "unat (fr_TimeToLiveMicroseconds f) \<le> 250000" "0 < unat (fr_TimeToLiveMicroseconds f)"
    by (simp_all add: word_le_nat_alt unat_gt_0)
  then show ?thesis
    using assms(2-4) by (auto simp: FreshAt_unat word_le_nat_alt split: if_splits)
qed

lemma frame_lease_bounded_witness:
  "Frame_Valid demo_frame \<and> FreshAt demo_frame 995000 \<and> FreshAt demo_frame 1099999 \<and>
   \<not> FreshAt demo_frame 1100000 \<and> unat (1099999 :: u64) - unat (995000 :: u64) < 255000"
proof -
  have "Frame_Valid demo_frame" "FreshAt demo_frame 995000" "FreshAt demo_frame 1099999"
    "(995000 :: u64) \<le> 1099999" "\<not> FreshAt demo_frame 1100000"
    by code_simp+
  then show ?thesis using frame_lease_bounded [of demo_frame 995000 1099999] by blast
qed

end
