(* ===== verification/Feedback_Mailbox.thy ===== *)
theory Feedback_Mailbox
  imports Feedback_Frame
begin

text \<open>
  The latest-value mailbox of \<^verbatim>\<open>controllerfeedback/mailbox.go\<close>: a publisher replaces one
  complete frame, a single consumer claims it, delivers it outside the lock and completes
  the claim. Pointers are addresses: a cursor remembers the address it was first used at
  and its mailbox, and each operation takes the addresses \<open>mid\<close> of the mailbox and \<open>cid\<close> of
  the cursor it is called with. Calls on a nil receiver or with a nil cursor, which return
  the failure value at once, are left out.
\<close>

record Mailbox =
  mx_latest :: Frame
  mx_revision :: u64
  mx_hasValue :: bool

datatype ClaimDisposition = ClaimNone | ClaimFrame | ClaimRelease

record ClaimCursor =
  cc_AppliedRevision :: u64
  cc_ReleasedRevision :: u64
  cc_nextToken :: u64
  cc_inFlightToken :: u64
  cc_inFlightRevision :: u64
  cc_inFlightDisposition :: ClaimDisposition
  cc_inFlightCompletesRelease :: bool
  cc_ownerMailbox :: "nat option"
  cc_self :: "nat option"

definition zero_Mailbox :: Mailbox where
  "zero_Mailbox = \<lparr>mx_latest = zero_Frame, mx_revision = 0, mx_hasValue = False\<rparr>"

definition zero_ClaimCursor :: ClaimCursor where
  "zero_ClaimCursor = \<lparr>cc_AppliedRevision = 0, cc_ReleasedRevision = 0, cc_nextToken = 0,
     cc_inFlightToken = 0, cc_inFlightRevision = 0, cc_inFlightDisposition = ClaimNone,
     cc_inFlightCompletesRelease = False, cc_ownerMailbox = None, cc_self = None\<rparr>"

definition mailbox_Publish :: "Frame \<Rightarrow> Mailbox \<Rightarrow> bool \<times> Mailbox" where
  "mailbox_Publish f m =
     (if \<not> Frame_Valid f then (False, m)
      else if mx_hasValue m \<and> \<not> newer f (mx_latest m) then (False, m)
      else let m1 = m\<lparr>mx_latest := f, mx_hasValue := True, mx_revision := mx_revision m + 1\<rparr>
           in (True, if mx_revision m1 = 0 then m1\<lparr>mx_revision := 1\<rparr> else m1))"

definition ReadLatest :: "Mailbox \<Rightarrow> Frame \<times> u64 \<times> bool" where
  "ReadLatest m = (mx_latest m, mx_revision m, mx_hasValue m)"

definition ReadFresh :: "u64 \<Rightarrow> Mailbox \<Rightarrow> Frame \<times> u64 \<times> bool" where
  "ReadFresh now m =
     (if \<not> mx_hasValue m \<or> ExpiredAt (mx_latest m) now
      then (zero_Frame, mx_revision m, False)
      else (mx_latest m, mx_revision m, True))"

definition beginClaim :: "u64 \<Rightarrow> ClaimDisposition \<Rightarrow> bool \<Rightarrow> ClaimCursor \<Rightarrow> u64 \<times> ClaimCursor" where
  "beginClaim revision disposition completesRelease c =
     (let t = cc_nextToken c + 1;
          token = (if t = 0 then 1 else t)
      in (token, c\<lparr>cc_nextToken := token, cc_inFlightToken := token,
            cc_inFlightRevision := revision, cc_inFlightDisposition := disposition,
            cc_inFlightCompletesRelease := completesRelease\<rparr>))"

text \<open>The binding of a cursor on first use; \<open>None\<close> when the cursor belongs elsewhere.\<close>

definition bind_cursor :: "nat \<Rightarrow> nat \<Rightarrow> ClaimCursor \<Rightarrow> ClaimCursor option" where
  "bind_cursor mid cid c =
     (if cc_self c = None then Some (c\<lparr>cc_self := Some cid, cc_ownerMailbox := Some mid\<rparr>)
      else if cc_self c \<noteq> Some cid \<or> cc_ownerMailbox c \<noteq> Some mid then None
      else Some c)"

definition mailbox_Claim ::
    "nat \<Rightarrow> nat \<Rightarrow> u64 \<Rightarrow> Mailbox \<Rightarrow> ClaimCursor \<Rightarrow> (Frame \<times> ClaimDisposition \<times> u64) \<times> ClaimCursor" where
  "mailbox_Claim mid cid now m c =
     (case bind_cursor mid cid c of
        None \<Rightarrow> ((zero_Frame, ClaimNone, 0), c)
      | Some c1 \<Rightarrow>
          if \<not> mx_hasValue m \<or> cc_inFlightToken c1 \<noteq> 0 then ((zero_Frame, ClaimNone, 0), c1)
          else if FreshAt (mx_latest m) now then
            (if cc_AppliedRevision c1 = mx_revision m then ((zero_Frame, ClaimNone, 0), c1)
             else let (token, c2) = beginClaim (mx_revision m) ClaimFrame
                        (fr_Command (mx_latest m) = CommandStop) c1
                  in ((mx_latest m, ClaimFrame, token), c2))
          else if cc_ReleasedRevision c1 = mx_revision m then ((zero_Frame, ClaimNone, 0), c1)
          else let (token, c2) = beginClaim (mx_revision m) ClaimRelease True c1
               in ((zero_Frame, ClaimRelease, token), c2))"

definition exact_token :: "nat \<Rightarrow> nat \<Rightarrow> u64 \<Rightarrow> ClaimCursor \<Rightarrow> bool" where
  "exact_token mid cid token c \<longleftrightarrow>
     token \<noteq> 0 \<and> cc_self c = Some cid \<and> cc_inFlightToken c = token \<and>
     cc_ownerMailbox c = Some mid \<and>
     (cc_inFlightDisposition c = ClaimFrame \<or> cc_inFlightDisposition c = ClaimRelease)"

definition CanDeliver :: "nat \<Rightarrow> nat \<Rightarrow> u64 \<Rightarrow> u64 \<Rightarrow> Mailbox \<Rightarrow> ClaimCursor \<Rightarrow> bool" where
  "CanDeliver mid cid token now m c =
     (if \<not> exact_token mid cid token c then False
      else if \<not> mx_hasValue m \<or> mx_revision m \<noteq> cc_inFlightRevision c then False
      else if cc_inFlightDisposition c = ClaimFrame then FreshAt (mx_latest m) now
      else ExpiredAt (mx_latest m) now)"

definition mailbox_Complete :: "nat \<Rightarrow> nat \<Rightarrow> u64 \<Rightarrow> bool \<Rightarrow> ClaimCursor \<Rightarrow> bool \<times> ClaimCursor" where
  "mailbox_Complete mid cid token delivered c =
     (if \<not> exact_token mid cid token c then (False, c)
      else let c1 = (if delivered then
                       (let a = c\<lparr>cc_AppliedRevision := cc_inFlightRevision c\<rparr>
                        in if cc_inFlightCompletesRelease a
                           then a\<lparr>cc_ReleasedRevision := cc_inFlightRevision a\<rparr> else a)
                     else c)
           in (True, c1\<lparr>cc_inFlightToken := 0, cc_inFlightRevision := 0,
                 cc_inFlightDisposition := ClaimNone, cc_inFlightCompletesRelease := False\<rparr>))"

section \<open>Ordered publication\<close>

text \<open>What a publisher slot relies on: the admission test is a strict order, so that the
  frames a slot admits, each tested against the last one only, are strictly increasing.\<close>

locale publication_order =
  fixes newer_than :: "'f \<Rightarrow> 'f \<Rightarrow> bool"
  assumes irrefl: "\<not> newer_than f f"
    and trans: "newer_than a b \<Longrightarrow> newer_than b c \<Longrightarrow> newer_than a c"
begin

lemma admitted_snoc:
  assumes "sorted_wrt (\<lambda>a b. newer_than b a) fs" "fs \<noteq> [] \<Longrightarrow> newer_than f (last fs)"
  shows "sorted_wrt (\<lambda>a b. newer_than b a) (fs @ [f])"
proof (cases fs rule: rev_cases)
  case Nil
  then show ?thesis by simp
next
  case (snoc gs g)
  then show ?thesis using assms trans by (auto simp: sorted_wrt_append)
qed

lemma admitted_distinct: "sorted_wrt (\<lambda>a b. newer_than b a) fs \<Longrightarrow> distinct fs"
  using irrefl by (induction fs) auto

end

interpretation mailbox_order: publication_order newer
  by unfold_locales (use newer_irrefl newer_trans in blast)+

section \<open>A mailbox with one consumer\<close>

text \<open>A run of one mailbox and one cursor, with the frames admitted, the frame of the last
  claim, and the delivered claims (revision, disposition, and whether the delivery also
  discharges the release).\<close>

datatype mailbox_op = OpPublish Frame | OpClaim u64 | OpComplete u64 bool

record mailbox_run =
  mr_box :: Mailbox
  mr_cursor :: ClaimCursor
  mr_claimed :: Frame
  mr_admitted :: "Frame list"
  mr_log :: "(u64 \<times> ClaimDisposition \<times> bool) list"

definition mailbox_start :: mailbox_run where
  "mailbox_start = \<lparr>mr_box = zero_Mailbox, mr_cursor = zero_ClaimCursor,
     mr_claimed = zero_Frame, mr_admitted = [], mr_log = []\<rparr>"

fun mailbox_step :: "nat \<Rightarrow> nat \<Rightarrow> mailbox_op \<Rightarrow> mailbox_run \<Rightarrow> mailbox_run" where
  "mailbox_step mid cid (OpPublish f) s =
     (let (ok, m) = mailbox_Publish f (mr_box s)
      in s\<lparr>mr_box := m, mr_admitted := (if ok then mr_admitted s @ [f] else mr_admitted s)\<rparr>)"
| "mailbox_step mid cid (OpClaim now) s =
     (let ((f, d, token), c) = mailbox_Claim mid cid now (mr_box s) (mr_cursor s)
      in s\<lparr>mr_cursor := c, mr_claimed := (if d = ClaimFrame then f else mr_claimed s)\<rparr>)"
| "mailbox_step mid cid (OpComplete token delivered) s =
     (let c = mr_cursor s; (ok, c') = mailbox_Complete mid cid token delivered c
      in s\<lparr>mr_cursor := c',
           mr_log := (if ok \<and> delivered
             then mr_log s @ [(cc_inFlightRevision c, cc_inFlightDisposition c,
                               cc_inFlightCompletesRelease c)]
             else mr_log s)\<rparr>)"

definition mailbox_steps :: "nat \<Rightarrow> nat \<Rightarrow> mailbox_op list \<Rightarrow> mailbox_run \<Rightarrow> mailbox_run" where
  "mailbox_steps mid cid ops s = fold (mailbox_step mid cid) ops s"

fun before :: "u64 \<times> ClaimDisposition \<times> bool \<Rightarrow> u64 \<times> ClaimDisposition \<times> bool \<Rightarrow> bool" where
  "before (r1, d1, cr1) (r2, d2, cr2) \<longleftrightarrow>
     r1 < r2 \<or> (r1 = r2 \<and> d1 = ClaimFrame \<and> \<not> cr1 \<and> d2 = ClaimRelease)"

definition cursor_inv :: "Mailbox \<Rightarrow> ClaimCursor \<Rightarrow> bool" where
  "cursor_inv m c \<longleftrightarrow>
     cc_AppliedRevision c \<le> mx_revision m \<and> cc_ReleasedRevision c \<le> cc_AppliedRevision c \<and>
     (cc_inFlightToken c \<noteq> 0 \<longrightarrow>
        cc_inFlightRevision c \<le> mx_revision m \<and>
        (cc_inFlightDisposition c = ClaimFrame \<longrightarrow> cc_AppliedRevision c < cc_inFlightRevision c) \<and>
        (cc_inFlightDisposition c = ClaimRelease \<longrightarrow> cc_inFlightCompletesRelease c \<and>
           cc_AppliedRevision c \<le> cc_inFlightRevision c \<and>
           cc_ReleasedRevision c < cc_inFlightRevision c))"

definition log_inv :: "ClaimCursor \<Rightarrow> (u64 \<times> ClaimDisposition \<times> bool) list \<Rightarrow> bool" where
  "log_inv c lg \<longleftrightarrow> sorted_wrt before lg \<and>
     (\<forall>(r, d, cr) \<in> set lg. r \<le> cc_AppliedRevision c \<and> (cr \<longrightarrow> r \<le> cc_ReleasedRevision c) \<and>
        d \<noteq> ClaimNone \<and> (d = ClaimRelease \<longrightarrow> cr))"

definition mailbox_inv :: "nat \<Rightarrow> mailbox_run \<Rightarrow> bool" where
  "mailbox_inv n s \<longleftrightarrow>
     unat (mx_revision (mr_box s)) \<le> n \<and>
     cursor_inv (mr_box s) (mr_cursor s) \<and> log_inv (mr_cursor s) (mr_log s) \<and>
     (cc_inFlightToken (mr_cursor s) \<noteq> 0 \<and> cc_inFlightDisposition (mr_cursor s) = ClaimFrame \<and>
      cc_inFlightRevision (mr_cursor s) = mx_revision (mr_box s) \<longrightarrow>
        mr_claimed s = mx_latest (mr_box s)) \<and>
     (mx_hasValue (mr_box s) \<longleftrightarrow> mr_admitted s \<noteq> []) \<and>
     (mr_admitted s \<noteq> [] \<longrightarrow> mx_latest (mr_box s) = last (mr_admitted s)) \<and>
     sorted_wrt (\<lambda>a b. newer b a) (mr_admitted s) \<and>
     (\<forall>f \<in> set (mr_admitted s). Frame_Valid f)"

lemma start_inv: "mailbox_inv 0 mailbox_start"
  by (simp add: mailbox_inv_def mailbox_start_def zero_Mailbox_def zero_ClaimCursor_def
      cursor_inv_def log_inv_def)

lemma publish_revision:
  assumes "fst (mailbox_Publish f m)" "unat (mx_revision m) < 2 ^ 64 - 1"
  shows "mx_revision (snd (mailbox_Publish f m)) = mx_revision m + 1 \<and>
    mx_revision m < mx_revision m + 1 \<and> unat (mx_revision m + 1) = unat (mx_revision m) + 1"
proof -
  have "unat (mx_revision m + 1) = unat (mx_revision m) + 1"
    using assms(2) by (simp add: unat_word_ariths)
  then have "mx_revision m < mx_revision m + 1" "mx_revision m + 1 \<noteq> 0"
    by (auto simp: word_less_nat_alt)
  then show ?thesis using assms \<open>unat (mx_revision m + 1) = _\<close>
    by (auto simp: mailbox_Publish_def Let_def split: if_splits)
qed

lemma publish_fields:
  assumes "fst (mailbox_Publish f m)"
  shows "mx_latest (snd (mailbox_Publish f m)) = f" "mx_hasValue (snd (mailbox_Publish f m))"
    "Frame_Valid f" "mx_hasValue m \<Longrightarrow> newer f (mx_latest m)"
  using assms by (auto simp: mailbox_Publish_def Let_def split: if_splits)

lemma publish_rejected: "\<not> fst (mailbox_Publish f m) \<Longrightarrow> snd (mailbox_Publish f m) = m"
  by (auto simp: mailbox_Publish_def Let_def split: if_splits)

lemma publish_inv:
  assumes "mailbox_inv n s" "n < 2 ^ 64 - 1"
  shows "mailbox_inv (Suc n) (mailbox_step mid cid (OpPublish f) s)"
proof (cases "fst (mailbox_Publish f (mr_box s))")
  case False
  then show ?thesis using assms publish_rejected [OF False]
    by (auto simp: split_beta mailbox_inv_def)
next
  case True
  note r = publish_revision [OF True]
  have lt: "unat (mx_revision (mr_box s)) < 2 ^ 64 - 1"
    using assms by (auto simp: mailbox_inv_def)
  have up: "x \<le> mx_revision (mr_box s) \<Longrightarrow> x < mx_revision (mr_box s) + 1" for x
    using r [OF lt] by auto
  have "sorted_wrt (\<lambda>a b. newer b a) (mr_admitted s @ [f])"
    by (rule mailbox_order.admitted_snoc)
      (use assms(1) publish_fields [OF True] in \<open>auto simp: mailbox_inv_def\<close>)
  moreover have "cursor_inv (snd (mailbox_Publish f (mr_box s))) (mr_cursor s)"
    using assms(1) r [OF lt] up [of "cc_inFlightRevision (mr_cursor s)", THEN less_imp_le]
      up [of "cc_AppliedRevision (mr_cursor s)", THEN less_imp_le]
    by (simp add: mailbox_inv_def cursor_inv_def)
  moreover have "cc_inFlightToken (mr_cursor s) \<noteq> 0 \<Longrightarrow>
      cc_inFlightRevision (mr_cursor s) \<noteq> mx_revision (snd (mailbox_Publish f (mr_box s)))"
    using assms(1) r [OF lt] up [of "cc_inFlightRevision (mr_cursor s)"]
    by (auto simp: mailbox_inv_def cursor_inv_def)
  ultimately show ?thesis using assms(1) r [OF lt] publish_fields [OF True] True
    by (auto simp: split_beta mailbox_inv_def)
qed

definition idle_as :: "ClaimCursor \<Rightarrow> ClaimCursor \<Rightarrow> bool" where
  "idle_as c c1 \<longleftrightarrow> (\<exists>self owner. c1 = c\<lparr>cc_self := self, cc_ownerMailbox := owner\<rparr>)"

lemma bind_cursor_idle: "bind_cursor mid cid c = Some c1 \<Longrightarrow> idle_as c c1"
  by (cases c) (auto simp: bind_cursor_def idle_as_def split: if_splits)

lemma beginClaim_token: "fst (beginClaim r d cr c) \<noteq> 0"
  by (simp add: beginClaim_def Let_def)

text \<open>The three outcomes of a claim.\<close>

lemma mailbox_Claim_cases:
  obtains (idle) c1 where "mailbox_Claim mid cid now m c = ((zero_Frame, ClaimNone, 0), c1)"
    "idle_as c c1"
  | (frame) c1 b where "b = beginClaim (mx_revision m) ClaimFrame
        (fr_Command (mx_latest m) = CommandStop) c1"
      "mailbox_Claim mid cid now m c = ((mx_latest m, ClaimFrame, fst b), snd b)"
      "idle_as c c1" "mx_hasValue m" "cc_inFlightToken c = 0" "FreshAt (mx_latest m) now"
      "cc_AppliedRevision c \<noteq> mx_revision m"
  | (release) c1 b where "b = beginClaim (mx_revision m) ClaimRelease True c1"
      "mailbox_Claim mid cid now m c = ((zero_Frame, ClaimRelease, fst b), snd b)"
      "idle_as c c1" "mx_hasValue m" "cc_inFlightToken c = 0" "\<not> FreshAt (mx_latest m) now"
      "cc_ReleasedRevision c \<noteq> mx_revision m"
proof (cases "bind_cursor mid cid c")
  case None
  have "idle_as c c" by (cases c) (auto simp: idle_as_def)
  then show ?thesis using None idle by (simp add: mailbox_Claim_def)
next
  case (Some c1)
  have i: "idle_as c c1" using Some by (rule bind_cursor_idle)
  then have f: "cc_inFlightToken c1 = cc_inFlightToken c"
    "cc_AppliedRevision c1 = cc_AppliedRevision c" "cc_ReleasedRevision c1 = cc_ReleasedRevision c"
    by (auto simp: idle_as_def)
  consider "\<not> mx_hasValue m \<or> cc_inFlightToken c \<noteq> 0"
    | "mx_hasValue m" "cc_inFlightToken c = 0" "FreshAt (mx_latest m) now"
    | "mx_hasValue m" "cc_inFlightToken c = 0" "\<not> FreshAt (mx_latest m) now" by blast
  then show ?thesis
  proof cases
    case 1
    then show ?thesis using Some f i idle by (simp add: mailbox_Claim_def)
  next
    case 2
    then show ?thesis using Some f i idle
        frame [OF refl, of c1]
      by (cases "cc_AppliedRevision c = mx_revision m") (simp_all add: mailbox_Claim_def split_beta)
  next
    case 3
    then show ?thesis using Some f i idle
        release [OF refl, of c1]
      by (cases "cc_ReleasedRevision c = mx_revision m") (simp_all add: mailbox_Claim_def split_beta)
  qed
qed

lemma idle_as_fields:
  assumes "idle_as c c1"
  shows "cc_AppliedRevision c1 = cc_AppliedRevision c"
    "cc_ReleasedRevision c1 = cc_ReleasedRevision c"
    "cc_inFlightToken c1 = cc_inFlightToken c" "cc_inFlightRevision c1 = cc_inFlightRevision c"
    "cc_inFlightDisposition c1 = cc_inFlightDisposition c"
    "cc_inFlightCompletesRelease c1 = cc_inFlightCompletesRelease c"
    "cc_nextToken c1 = cc_nextToken c"
  using assms by (auto simp: idle_as_def)

lemma claim_cursor_inv:
  assumes "cursor_inv m c" "cc_inFlightToken c = 0" "idle_as c c1"
    "d = ClaimFrame \<Longrightarrow> cc_AppliedRevision c \<noteq> mx_revision m"
    "d = ClaimRelease \<Longrightarrow> cr \<and> cc_ReleasedRevision c \<noteq> mx_revision m"
  shows "cursor_inv m (snd (beginClaim (mx_revision m) d cr c1))"
  using assms idle_as_fields [OF assms(3)]
  by (auto simp: cursor_inv_def beginClaim_def Let_def)

lemma claim_inv:
  assumes "mailbox_inv n s"
  shows "mailbox_inv n (mailbox_step mid cid (OpClaim now) s)"
proof (cases rule: mailbox_Claim_cases [of mid cid now "mr_box s" "mr_cursor s"])
  case (idle c1)
  then show ?thesis using assms idle_as_fields [OF idle(2)]
    by (simp add: mailbox_inv_def cursor_inv_def log_inv_def)
next
  case (frame c1 b)
  have "cursor_inv (mr_box s) (snd b)" unfolding frame(1)
    by (rule claim_cursor_inv [OF _ frame(5,3)]) (use assms frame(7) in \<open>simp_all add: mailbox_inv_def\<close>)
  moreover have "log_inv (snd b) (mr_log s)"
    using assms idle_as_fields [OF frame(3)]
    by (simp add: frame(1) mailbox_inv_def log_inv_def beginClaim_def Let_def)
  ultimately show ?thesis using assms frame(2) by (simp add: mailbox_inv_def)
next
  case (release c1 b)
  have "cursor_inv (mr_box s) (snd b)" unfolding release(1)
    by (rule claim_cursor_inv [OF _ release(5,3)]) (use assms release(7) in \<open>simp_all add: mailbox_inv_def\<close>)
  moreover have "log_inv (snd b) (mr_log s)" "cc_inFlightDisposition (snd b) = ClaimRelease"
    using assms idle_as_fields [OF release(3)]
    by (simp_all add: release(1) mailbox_inv_def log_inv_def beginClaim_def Let_def)
  ultimately show ?thesis using assms release(2) by (simp add: mailbox_inv_def)
qed

lemma complete_log:
  assumes "cursor_inv m c" "log_inv c lg" "exact_token mid cid token c"
  shows "log_inv (snd (mailbox_Complete mid cid token True c))
    (lg @ [(cc_inFlightRevision c, cc_inFlightDisposition c, cc_inFlightCompletesRelease c)])"
proof -
  let ?r = "cc_inFlightRevision c" and ?d = "cc_inFlightDisposition c"
    and ?cr = "cc_inFlightCompletesRelease c"
  have tok: "cc_inFlightToken c \<noteq> 0" "?d = ClaimFrame \<or> ?d = ClaimRelease"
    using assms(3) by (auto simp: exact_token_def)
  have old: "r \<le> cc_AppliedRevision c \<and> (cr \<longrightarrow> r \<le> cc_ReleasedRevision c) \<and>
      d \<noteq> ClaimNone \<and> (d = ClaimRelease \<longrightarrow> cr)" if "(r, d, cr) \<in> set lg" for r d cr
    using that assms(2) by (auto simp: log_inv_def)
  have inf: "?d = ClaimFrame \<Longrightarrow> cc_AppliedRevision c < ?r"
    "?d = ClaimRelease \<Longrightarrow> ?cr \<and> cc_AppliedRevision c \<le> ?r \<and> cc_ReleasedRevision c < ?r"
    "cc_ReleasedRevision c \<le> cc_AppliedRevision c"
    using assms(1) tok by (auto simp: cursor_inv_def)
  have new: "before x (?r, ?d, ?cr)" if "x \<in> set lg" for x
  proof (cases x)
    case (fields r d cr)
    then have o: "r \<le> cc_AppliedRevision c" "cr \<Longrightarrow> r \<le> cc_ReleasedRevision c"
      "d = ClaimFrame \<or> d = ClaimRelease" "d = ClaimRelease \<Longrightarrow> cr"
      using old [of r d cr] that by (cases d; simp)+
    show ?thesis
    proof (cases "?d = ClaimFrame")
      case True
      then show ?thesis using o(1) inf(1) fields by simp
    next
      case False
      then have d: "?d = ClaimRelease" using tok(2) by blast
      then show ?thesis using inf(2) [OF d] o fields
        by (cases "r = ?r") (auto simp: not_less order.strict_iff_not)
    qed
  qed
  have le: "cc_AppliedRevision c \<le> ?r" "cc_ReleasedRevision c \<le> ?r"
  proof -
    show "cc_AppliedRevision c \<le> ?r" using inf(1,2) tok(2) by fastforce
    then show "cc_ReleasedRevision c \<le> ?r" using inf(3) by (rule order.trans [rotated])
  qed
  have f: "cc_AppliedRevision (snd (mailbox_Complete mid cid token True c)) = ?r"
    "cc_ReleasedRevision (snd (mailbox_Complete mid cid token True c))
      = (if ?cr then ?r else cc_ReleasedRevision c)"
    using assms(3) by (simp_all add: mailbox_Complete_def Let_def)
  have "sorted_wrt before (lg @ [(?r, ?d, ?cr)])"
    using assms(2) new by (auto simp: log_inv_def sorted_wrt_append)
  moreover have "r \<le> ?r \<and> (cr \<longrightarrow> r \<le> (if ?cr then ?r else cc_ReleasedRevision c)) \<and>
      d \<noteq> ClaimNone \<and> (d = ClaimRelease \<longrightarrow> cr)" if m: "(r, d, cr) \<in> set (lg @ [(?r, ?d, ?cr)])" for r d cr
  proof (cases "(r, d, cr) \<in> set lg")
    case True
    then show ?thesis using old [OF True] order.trans [OF _ le(1)] order.trans [OF _ le(2)] by simp
  next
    case False
    then have "r = ?r" "d = ?d" "cr = ?cr" using m by auto
    then show ?thesis using tok(2) inf(2) by auto
  qed
  ultimately show ?thesis unfolding log_inv_def f by blast
qed

lemma complete_inv:
  assumes "mailbox_inv n s"
  shows "mailbox_inv n (mailbox_step mid cid (OpComplete token delivered) s)"
proof (cases "exact_token mid cid token (mr_cursor s)")
  case False
  then show ?thesis using assms by (simp add: mailbox_Complete_def)
next
  case True
  let ?c = "snd (mailbox_Complete mid cid token delivered (mr_cursor s))"
  have "cursor_inv (mr_box s) ?c" "cc_inFlightToken ?c = 0" "fst (mailbox_Complete mid cid token delivered (mr_cursor s))"
    using assms True by (auto simp: mailbox_inv_def cursor_inv_def mailbox_Complete_def Let_def
        exact_token_def)
  moreover have "log_inv ?c (mr_log (mailbox_step mid cid (OpComplete token delivered) s))"
  proof (cases delivered)
    case d: True
    then show ?thesis using complete_log [OF _ _ True, of "mr_box s" "mr_log s"] assms True
      by (simp add: mailbox_inv_def split_beta mailbox_Complete_def Let_def)
  next
    case False
    then show ?thesis using assms True
      by (simp add: mailbox_inv_def split_beta mailbox_Complete_def Let_def log_inv_def)
  qed
  ultimately show ?thesis using assms by (simp add: mailbox_inv_def split_beta Let_def)
qed

lemma step_mailbox_inv:
  assumes "mailbox_inv n s" "n < 2 ^ 64 - 1"
  shows "mailbox_inv (Suc n) (mailbox_step mid cid op s)"
proof (cases op)
  case (OpPublish f)
  then show ?thesis using publish_inv [OF assms] by simp
next
  case (OpClaim now)
  then show ?thesis using claim_inv [OF assms(1), of mid cid now] by (simp add: mailbox_inv_def)
next
  case (OpComplete token delivered)
  then show ?thesis using complete_inv [OF assms(1), of mid cid token delivered]
    by (simp add: mailbox_inv_def)
qed

lemma steps_mailbox_inv:
  "mailbox_inv n s \<Longrightarrow> n + length ops < 2 ^ 64 \<Longrightarrow>
   mailbox_inv (n + length ops) (mailbox_steps mid cid ops s)"
proof (induction ops arbitrary: n s)
  case Nil
  then show ?case by (simp add: mailbox_steps_def)
next
  case (Cons op ops)
  have "n < 2 ^ 64 - 1" using Cons.prems(2) by simp
  then show ?case
    using Cons.IH [OF step_mailbox_inv [OF Cons.prems(1)], of mid cid op] Cons.prems(2)
    by (simp add: mailbox_steps_def)
qed

lemma run_mailbox_inv:
  "length ops < 2 ^ 64 \<Longrightarrow>
   mailbox_inv (length ops) (mailbox_steps mid cid ops mailbox_start)"
  using steps_mailbox_inv [OF start_inv, of ops mid cid] by simp

section \<open>Properties\<close>

text \<open>C5: Over any sequence of fewer than \<open>2 ^ 64\<close> publications, claims and completions by one
  consumer, the frames admitted are valid and strictly increasing in lease order, and the
  deliveries strictly advance: no revision is delivered twice, a frame never follows the
  release of its revision, and after a delivered stop there is no further release for it.\<close>

theorem mailbox_delivers_once:
  assumes "length ops < 2 ^ 64"
  shows "sorted_wrt before (mr_log (mailbox_steps mid cid ops mailbox_start)) \<and>
    sorted_wrt (\<lambda>a b. newer b a) (mr_admitted (mailbox_steps mid cid ops mailbox_start)) \<and>
    (\<forall>f \<in> set (mr_admitted (mailbox_steps mid cid ops mailbox_start)). Frame_Valid f)"
  using run_mailbox_inv [OF assms, of mid cid] by (simp add: mailbox_inv_def log_inv_def)

definition demo_mailbox_ops :: "mailbox_op list" where
  "demo_mailbox_ops = [OpPublish demo_frame, OpClaim 1000000, OpComplete 1 False,
     OpClaim 1000000, OpComplete 2 True, OpClaim 1000000, OpClaim 2000000, OpComplete 3 True,
     OpClaim 2000000]"

theorem mailbox_delivers_once_witness:
  "mr_log (mailbox_steps 0 0 demo_mailbox_ops mailbox_start) =
     [(1, ClaimFrame, False), (1, ClaimRelease, True)] \<and>
   sorted_wrt before (mr_log (mailbox_steps 0 0 demo_mailbox_ops mailbox_start))"
proof -
  have "mr_log (mailbox_steps 0 0 demo_mailbox_ops mailbox_start) =
     [(1, ClaimFrame, False), (1, ClaimRelease, True)]"
    by code_simp
  moreover have "length demo_mailbox_ops < 2 ^ 64" by (simp add: demo_mailbox_ops_def)
  ultimately show ?thesis using mailbox_delivers_once [of demo_mailbox_ops 0 0] by blast
qed

text \<open>C29: When \<open>CanDeliver\<close> lets a claimed frame through, the claimed frame is the newest frame
  ever admitted and is fresh at that moment; when it lets a release through, the newest
  frame is expired.\<close>

theorem CanDeliver_newest_fresh:
  assumes "length ops < 2 ^ 64"
    and "s = mailbox_steps mid cid ops mailbox_start"
    and "CanDeliver mid cid token now (mr_box s) (mr_cursor s)"
  shows "mr_admitted s \<noteq> [] \<and>
    (if cc_inFlightDisposition (mr_cursor s) = ClaimFrame
     then mr_claimed s = last (mr_admitted s) \<and> FreshAt (mr_claimed s) now
     else ExpiredAt (last (mr_admitted s)) now)"
  using run_mailbox_inv [OF assms(1), of mid cid] assms(2,3)
  by (auto simp: mailbox_inv_def CanDeliver_def exact_token_def split: if_splits)

theorem CanDeliver_newest_fresh_witness:
  "CanDeliver 0 0 1 1000001
     (mr_box (mailbox_steps 0 0 (take 2 demo_mailbox_ops) mailbox_start))
     (mr_cursor (mailbox_steps 0 0 (take 2 demo_mailbox_ops) mailbox_start)) \<and>
   FreshAt (mr_claimed (mailbox_steps 0 0 (take 2 demo_mailbox_ops) mailbox_start)) 1000001"
proof -
  let ?s = "mailbox_steps 0 0 (take 2 demo_mailbox_ops) mailbox_start"
  have c: "CanDeliver 0 0 1 1000001 (mr_box ?s) (mr_cursor ?s)"
    and d: "cc_inFlightDisposition (mr_cursor ?s) = ClaimFrame"
    by code_simp+
  have "length (take 2 demo_mailbox_ops) < 2 ^ 64" by (simp add: demo_mailbox_ops_def)
  from CanDeliver_newest_fresh [OF this refl c] show ?thesis using c d by metis
qed

text \<open>C30: An expired frame leaves an obligation that survives failure: while the consumer of an
  expired revision has no claim in flight and has not released it, a claim returns the
  release; a failed completion makes the same claim possible again, and a successful one
  ends the obligation.\<close>

theorem release_until_delivered:
  assumes "mx_hasValue m" "ExpiredAt (mx_latest m) now" "ExpiredAt (mx_latest m) later"
    and "cc_inFlightToken c = 0" "cc_ReleasedRevision c \<noteq> mx_revision m"
    and "bind_cursor mid cid c \<noteq> None"
  shows "\<exists>token c1. token \<noteq> 0 \<and>
    mailbox_Claim mid cid now m c = ((zero_Frame, ClaimRelease, token), c1) \<and>
    (let c2 = snd (mailbox_Complete mid cid token False c1)
     in fst (snd (fst (mailbox_Claim mid cid later m c2))) = ClaimRelease) \<and>
    (let c2 = snd (mailbox_Complete mid cid token True c1)
     in fst (snd (fst (mailbox_Claim mid cid later m c2))) = ClaimNone)"
proof -
  obtain c0 where c0: "bind_cursor mid cid c = Some c0" using assms(6) by blast
  have f: "cc_self c0 = Some cid" "cc_ownerMailbox c0 = Some mid"
    using c0 by (auto simp: bind_cursor_def split: if_splits)
  note i = idle_as_fields [OF bind_cursor_idle [OF c0]]
  define b where "b = beginClaim (mx_revision m) ClaimRelease True c0"
  have b: "fst b \<noteq> 0" by (simp add: b_def beginClaim_token)
  have b2: "cc_self (snd b) = Some cid" "cc_ownerMailbox (snd b) = Some mid"
    "cc_inFlightToken (snd b) = fst b" "cc_inFlightRevision (snd b) = mx_revision m"
    "cc_inFlightDisposition (snd b) = ClaimRelease" "cc_inFlightCompletesRelease (snd b)"
    "cc_ReleasedRevision (snd b) = cc_ReleasedRevision c"
    by (simp_all add: b_def beginClaim_def Let_def f i)
  have e: "\<not> FreshAt (mx_latest m) now" "\<not> FreshAt (mx_latest m) later"
    using assms(2,3) by (simp_all add: ExpiredAt_def)
  have x: "exact_token mid cid (fst b) (snd b)" using b b2 by (simp add: exact_token_def)
  have "mailbox_Claim mid cid now m c = ((zero_Frame, ClaimRelease, fst b), snd b)"
    using assms(1,4,5) e c0 i by (simp add: mailbox_Claim_def b_def split_beta)
  moreover have "fst (snd (fst (mailbox_Claim mid cid later m
      (snd (mailbox_Complete mid cid (fst b) False (snd b)))))) = ClaimRelease"
    using assms(1,5) e b2 x
    by (simp add: mailbox_Claim_def mailbox_Complete_def Let_def bind_cursor_def split_beta)
  moreover have "fst (snd (fst (mailbox_Claim mid cid later m
      (snd (mailbox_Complete mid cid (fst b) True (snd b)))))) = ClaimNone"
    using assms(1) e b2 x
    by (simp add: mailbox_Claim_def mailbox_Complete_def Let_def bind_cursor_def split_beta)
  ultimately show ?thesis using b by (intro exI [of _ "fst b"] exI [of _ "snd b"]) (simp add: Let_def)
qed

theorem release_until_delivered_witness:
  "\<exists>token c1. token \<noteq> 0 \<and>
     mailbox_Claim 0 0 2000000
       \<lparr>mx_latest = demo_frame, mx_revision = 1, mx_hasValue = True\<rparr> zero_ClaimCursor
       = ((zero_Frame, ClaimRelease, token), c1)"
proof -
  have "ExpiredAt demo_frame 2000000" by code_simp
  then show ?thesis
    using release_until_delivered [of "\<lparr>mx_latest = demo_frame, mx_revision = 1, mx_hasValue = True\<rparr>"
        2000000 2000000 zero_ClaimCursor 0 0]
    by (auto simp: zero_ClaimCursor_def bind_cursor_def)
qed

end
