(* ===== verification/Feedback_Runtime.thy ===== *)
theory Feedback_Runtime
  imports Feedback_Mailbox
begin

text \<open>
  The feedback arbitration of \<^verbatim>\<open>controllerfeedback/runtime.go\<close>: four publisher slots, the
  selection of the winner, one writer lease at a time, and the rule that an output that may
  have actuated is stopped before its successor starts. Writer leases are allocated objects:
  the model keeps them in a list and a pointer to a lease is its index (\<open>None\<close> is nil).
\<close>

definition PublicationOriginProfileEffect :: u8 where "PublicationOriginProfileEffect = 1"
definition PublicationOriginAudioHaptics :: u8 where "PublicationOriginAudioHaptics = 2"
definition PublicationOriginNativeGame :: u8 where "PublicationOriginNativeGame = 3"
definition PublicationOriginTestPreview :: u8 where "PublicationOriginTestPreview = 4"

lemmas origin_consts = PublicationOriginProfileEffect_def PublicationOriginAudioHaptics_def
  PublicationOriginNativeGame_def PublicationOriginTestPreview_def

definition PublicationOrigin_Valid :: "u8 \<Rightarrow> bool" where
  "PublicationOrigin_Valid origin \<longleftrightarrow>
     origin \<ge> PublicationOriginProfileEffect \<and> origin \<le> PublicationOriginTestPreview"

record Publication =
  pu_Origin :: u8
  pu_Frame :: Frame

definition zero_Publication :: Publication where
  "zero_Publication = \<lparr>pu_Origin = 0, pu_Frame = zero_Frame\<rparr>"

definition Publication_Valid :: "Publication \<Rightarrow> bool" where
  "Publication_Valid p \<longleftrightarrow> PublicationOrigin_Valid (pu_Origin p) \<and> Frame_Valid (pu_Frame p)"

definition NewPublication :: "u8 \<Rightarrow> Frame \<Rightarrow> Publication \<times> bool" where
  "NewPublication origin f =
     (let p = \<lparr>pu_Origin = origin, pu_Frame = f\<rparr> in (p, Publication_Valid p))"

datatype DeliveryDisposition = DeliveryNone | DeliveryFrame | DeliveryStop

record Delivery =
  dl_Disposition :: DeliveryDisposition
  dl_Origin :: u8
  dl_Frame :: Frame
  dl_DeviceGeneration :: u64
  dl_TransportGeneration :: u64
  dl_DeliveryEpoch :: u64

definition zero_Delivery :: Delivery where
  "zero_Delivery = \<lparr>dl_Disposition = DeliveryNone, dl_Origin = 0, dl_Frame = zero_Frame,
     dl_DeviceGeneration = 0, dl_TransportGeneration = 0, dl_DeliveryEpoch = 0\<rparr>"

definition Delivery_Valid :: "Delivery \<Rightarrow> bool" where
  "Delivery_Valid d =
     (if \<not> PublicationOrigin_Valid (dl_Origin d) \<or> dl_DeviceGeneration d = 0 \<or>
        dl_TransportGeneration d = 0 \<or> dl_DeliveryEpoch d = 0 then False
      else if dl_Disposition d = DeliveryFrame
      then Frame_Valid (dl_Frame d) \<and> fr_DeviceGeneration (dl_Frame d) = dl_DeviceGeneration d \<and>
        fr_TransportGeneration (dl_Frame d) = dl_TransportGeneration d
      else dl_Disposition d = DeliveryStop \<and> dl_Frame d = zero_Frame)"

record publicationSlot =
  ps_publication :: Publication
  ps_hasValue :: bool

record WriterLease =
  wl_self :: nat
  wl_WriterGeneration :: u64
  wl_DeviceGeneration :: u64
  wl_TransportGeneration :: u64
  wl_nextClaimToken :: u64
  wl_inFlightClaimToken :: u64
  wl_inFlightEventRevision :: u64
  wl_inFlightDelivery :: Delivery
  wl_inFlightAdmitted :: bool
  wl_completedEventRevision :: u64
  wl_active :: bool

record Runtime =
  rt_profileSlot :: publicationSlot
  rt_audioSlot :: publicationSlot
  rt_gameSlot :: publicationSlot
  rt_previewSlot :: publicationSlot
  rt_activeWriter :: "nat option"
  rt_nextWriterGeneration :: u64
  rt_hasOwner :: bool
  rt_stopping :: bool
  rt_ownerMayHaveActuated :: bool
  rt_owner :: Publication
  rt_ownerDeliveryEpoch :: u64
  rt_nextDeliveryEpoch :: u64
  rt_hasEvent :: bool
  rt_currentEvent :: Delivery
  rt_currentEventRevision :: u64
  rt_leases :: "WriterLease list"   \<comment> \<open>the leases allocated so far\<close>

definition zero_slot :: publicationSlot where
  "zero_slot = \<lparr>ps_publication = zero_Publication, ps_hasValue = False\<rparr>"

definition zero_Runtime :: Runtime where
  "zero_Runtime = \<lparr>rt_profileSlot = zero_slot, rt_audioSlot = zero_slot, rt_gameSlot = zero_slot,
     rt_previewSlot = zero_slot, rt_activeWriter = None, rt_nextWriterGeneration = 0,
     rt_hasOwner = False, rt_stopping = False, rt_ownerMayHaveActuated = False,
     rt_owner = zero_Publication, rt_ownerDeliveryEpoch = 0, rt_nextDeliveryEpoch = 0,
     rt_hasEvent = False, rt_currentEvent = zero_Delivery, rt_currentEventRevision = 0,
     rt_leases = []\<rparr>"

section \<open>Selection\<close>

definition findNewestRuntimeTarget ::
    "publicationSlot \<Rightarrow> u64 \<times> u64 \<times> bool \<Rightarrow> u64 \<times> u64 \<times> bool" where
  "findNewestRuntimeTarget slot = (\<lambda>(dg, tg, found).
     if \<not> ps_hasValue slot then (dg, tg, found)
     else let f = pu_Frame (ps_publication slot) in
       if \<not> found \<or> fr_DeviceGeneration f > dg \<or>
         (fr_DeviceGeneration f = dg \<and> fr_TransportGeneration f > tg)
       then (fr_DeviceGeneration f, fr_TransportGeneration f, True)
       else (dg, tg, found))"

definition newestTarget :: "Runtime \<Rightarrow> u64 \<times> u64 \<times> bool" where
  "newestTarget r =
     findNewestRuntimeTarget (rt_previewSlot r)
       (findNewestRuntimeTarget (rt_gameSlot r)
         (findNewestRuntimeTarget (rt_audioSlot r)
           (findNewestRuntimeTarget (rt_profileSlot r) (0, 0, False))))"

definition slot_live :: "publicationSlot \<Rightarrow> u64 \<Rightarrow> u64 \<Rightarrow> u64 \<Rightarrow> bool" where
  "slot_live slot now dg tg \<longleftrightarrow>
     \<not> (\<not> ps_hasValue slot \<or> fr_DeviceGeneration (pu_Frame (ps_publication slot)) \<noteq> dg \<or>
       fr_TransportGeneration (pu_Frame (ps_publication slot)) \<noteq> tg \<or>
       fr_Command (pu_Frame (ps_publication slot)) = CommandStop \<or>
       \<not> FreshAt (pu_Frame (ps_publication slot)) now)"

definition considerRuntimeSlot ::
    "publicationSlot \<Rightarrow> u64 \<Rightarrow> u64 \<Rightarrow> u64 \<Rightarrow> Publication option \<Rightarrow> Publication option" where
  "considerRuntimeSlot slot now dg tg winner =
     (if \<not> slot_live slot now dg tg then winner
      else case winner of
             None \<Rightarrow> Some (ps_publication slot)
           | Some w \<Rightarrow> if pu_Origin (ps_publication slot) > pu_Origin w
                       then Some (ps_publication slot) else winner)"

text \<open>The pair \<open>(winner, selected)\<close> of the source is an optional publication.\<close>

definition selectWinner :: "u64 \<Rightarrow> Runtime \<Rightarrow> Publication option" where
  "selectWinner now r =
     (case newestTarget r of (dg, tg, found) \<Rightarrow>
       if \<not> found then None
       else considerRuntimeSlot (rt_previewSlot r) now dg tg
              (considerRuntimeSlot (rt_gameSlot r) now dg tg
                (considerRuntimeSlot (rt_audioSlot r) now dg tg
                  (considerRuntimeSlot (rt_profileSlot r) now dg tg None))))"

definition sameRuntimeOwnership :: "Publication \<Rightarrow> Publication \<Rightarrow> bool" where
  "sameRuntimeOwnership left right \<longleftrightarrow>
     pu_Origin left = pu_Origin right \<and>
     fr_Source (pu_Frame left) = fr_Source (pu_Frame right) \<and>
     fr_DeviceGeneration (pu_Frame left) = fr_DeviceGeneration (pu_Frame right) \<and>
     fr_TransportGeneration (pu_Frame left) = fr_TransportGeneration (pu_Frame right) \<and>
     fr_OwnershipEpoch (pu_Frame left) = fr_OwnershipEpoch (pu_Frame right)"

definition newerRuntimeFrame :: "Frame \<Rightarrow> Frame \<Rightarrow> bool" where
  "newerRuntimeFrame candidate current =
     (if fr_DeviceGeneration candidate \<noteq> fr_DeviceGeneration current
      then fr_DeviceGeneration candidate > fr_DeviceGeneration current
      else if fr_TransportGeneration candidate \<noteq> fr_TransportGeneration current
      then fr_TransportGeneration candidate > fr_TransportGeneration current
      else if fr_OwnershipEpoch candidate \<noteq> fr_OwnershipEpoch current
      then fr_OwnershipEpoch candidate > fr_OwnershipEpoch current
      else fr_Command current \<noteq> CommandStop \<and> fr_Source candidate = fr_Source current \<and>
        fr_Sequence candidate > fr_Sequence current)"

section \<open>Events and ownership\<close>

definition setEvent :: "Delivery \<Rightarrow> Runtime \<Rightarrow> Runtime" where
  "setEvent d r =
     (let v = rt_currentEventRevision r + 1;
          revision = (if v = 0 then 1 else v)
      in r\<lparr>rt_currentEventRevision := revision, rt_currentEvent := d, rt_hasEvent := True\<rparr>)"

definition frame_event :: "Publication \<Rightarrow> u64 \<Rightarrow> Delivery" where
  "frame_event p epoch =
     \<lparr>dl_Disposition = DeliveryFrame, dl_Origin = pu_Origin p, dl_Frame = pu_Frame p,
      dl_DeviceGeneration = fr_DeviceGeneration (pu_Frame p),
      dl_TransportGeneration = fr_TransportGeneration (pu_Frame p), dl_DeliveryEpoch = epoch\<rparr>"

definition stop_event :: "Publication \<Rightarrow> u64 \<Rightarrow> Delivery" where
  "stop_event p epoch =
     \<lparr>dl_Disposition = DeliveryStop, dl_Origin = pu_Origin p, dl_Frame = zero_Frame,
      dl_DeviceGeneration = fr_DeviceGeneration (pu_Frame p),
      dl_TransportGeneration = fr_TransportGeneration (pu_Frame p), dl_DeliveryEpoch = epoch\<rparr>"

definition setFrameEvent :: "Runtime \<Rightarrow> Runtime" where
  "setFrameEvent r = setEvent (frame_event (rt_owner r) (rt_ownerDeliveryEpoch r)) r"

definition startOwner :: "Publication \<Rightarrow> Runtime \<Rightarrow> Runtime" where
  "startOwner p r =
     (let epoch = rt_nextDeliveryEpoch r + 1 in
      if epoch = 0 then r
      else setFrameEvent (r\<lparr>rt_nextDeliveryEpoch := epoch, rt_ownerDeliveryEpoch := epoch,
             rt_owner := p, rt_hasOwner := True, rt_stopping := False,
             rt_ownerMayHaveActuated := False\<rparr>))"

definition drop_owner :: "Runtime \<Rightarrow> Runtime" where
  "drop_owner r = r\<lparr>rt_hasOwner := False, rt_owner := zero_Publication, rt_ownerDeliveryEpoch := 0,
     rt_hasEvent := False, rt_currentEvent := zero_Delivery\<rparr>"

definition replaceUnadmittedOwner :: "Publication \<Rightarrow> Runtime \<Rightarrow> Runtime" where
  "replaceUnadmittedOwner p r = startOwner p (drop_owner r)"

definition reevaluate :: "u64 \<Rightarrow> Runtime \<Rightarrow> Runtime" where
  "reevaluate now r =
     (if rt_stopping r then r
      else let winner = selectWinner now r in
        if \<not> rt_hasOwner r then
          (case winner of Some w \<Rightarrow> startOwner w r | None \<Rightarrow> r)
        else if (case winner of Some w \<Rightarrow> sameRuntimeOwnership w (rt_owner r) | None \<Rightarrow> False) then
          (if the winner \<noteq> rt_owner r then setFrameEvent (r\<lparr>rt_owner := the winner\<rparr>) else r)
        else if \<not> rt_ownerMayHaveActuated r then
          (case winner of Some w \<Rightarrow> replaceUnadmittedOwner w r | None \<Rightarrow> drop_owner r)
        else setEvent (stop_event (rt_owner r) (rt_ownerDeliveryEpoch r)) (r\<lparr>rt_stopping := True\<rparr>))"

section \<open>The operations\<close>

definition rt_slot :: "u8 \<Rightarrow> Runtime \<Rightarrow> publicationSlot" where
  "rt_slot origin r =
     (if origin = PublicationOriginProfileEffect then rt_profileSlot r
      else if origin = PublicationOriginAudioHaptics then rt_audioSlot r
      else if origin = PublicationOriginNativeGame then rt_gameSlot r
      else rt_previewSlot r)"

definition set_slot :: "u8 \<Rightarrow> publicationSlot \<Rightarrow> Runtime \<Rightarrow> Runtime" where
  "set_slot origin s r =
     (if origin = PublicationOriginProfileEffect then r\<lparr>rt_profileSlot := s\<rparr>
      else if origin = PublicationOriginAudioHaptics then r\<lparr>rt_audioSlot := s\<rparr>
      else if origin = PublicationOriginNativeGame then r\<lparr>rt_gameSlot := s\<rparr>
      else r\<lparr>rt_previewSlot := s\<rparr>)"

definition runtime_Publish :: "Publication \<Rightarrow> Runtime \<Rightarrow> bool \<times> Runtime" where
  "runtime_Publish p r =
     (if \<not> Publication_Valid p then (False, r)
      else let slot = rt_slot (pu_Origin p) r in
        if ps_hasValue slot \<and> \<not> newerRuntimeFrame (pu_Frame p) (pu_Frame (ps_publication slot))
        then (False, r)
        else (True, set_slot (pu_Origin p) \<lparr>ps_publication = p, ps_hasValue = True\<rparr> r))"

definition AcquireWriter :: "u64 \<Rightarrow> u64 \<Rightarrow> Runtime \<Rightarrow> nat option \<times> Runtime" where
  "AcquireWriter dg tg r =
     (if dg = 0 \<or> tg = 0 then (None, r)
      else if rt_activeWriter r \<noteq> None \<or> rt_nextWriterGeneration r = - 1 \<or>
        (rt_hasEvent r \<and> (dl_DeviceGeneration (rt_currentEvent r) \<noteq> dg \<or>
           dl_TransportGeneration (rt_currentEvent r) \<noteq> tg))
      then (None, r)
      else let a = length (rt_leases r);
               g = rt_nextWriterGeneration r + 1;
               writer = \<lparr>wl_self = a, wl_WriterGeneration = g, wl_DeviceGeneration = dg,
                 wl_TransportGeneration = tg, wl_nextClaimToken = 0, wl_inFlightClaimToken = 0,
                 wl_inFlightEventRevision = 0, wl_inFlightDelivery = zero_Delivery,
                 wl_inFlightAdmitted = False, wl_completedEventRevision = 0, wl_active = True\<rparr>
           in (Some a, r\<lparr>rt_nextWriterGeneration := g, rt_activeWriter := Some a,
                 rt_leases := rt_leases r @ [writer]\<rparr>))"

definition currentWriter :: "nat option \<Rightarrow> Runtime \<Rightarrow> bool" where
  "currentWriter w r \<longleftrightarrow>
     (case w of None \<Rightarrow> False
      | Some a \<Rightarrow> a < length (rt_leases r) \<and> wl_self (rt_leases r ! a) = a \<and>
          wl_active (rt_leases r ! a) \<and> rt_activeWriter r = Some a \<and>
          wl_WriterGeneration (rt_leases r ! a) = rt_nextWriterGeneration r)"

definition lease :: "nat option \<Rightarrow> Runtime \<Rightarrow> WriterLease" where
  "lease w r = rt_leases r ! the w"

definition set_lease :: "nat option \<Rightarrow> WriterLease \<Rightarrow> Runtime \<Rightarrow> Runtime" where
  "set_lease w l r = r\<lparr>rt_leases := (rt_leases r)[the w := l]\<rparr>"

definition exactClaim :: "nat option \<Rightarrow> u64 \<Rightarrow> Runtime \<Rightarrow> bool" where
  "exactClaim w token r \<longleftrightarrow>
     currentWriter w r \<and> token \<noteq> 0 \<and> wl_inFlightClaimToken (lease w r) = token \<and>
     wl_inFlightEventRevision (lease w r) \<noteq> 0 \<and> Delivery_Valid (wl_inFlightDelivery (lease w r))"

definition clearRuntimeClaim :: "WriterLease \<Rightarrow> WriterLease" where
  "clearRuntimeClaim l = l\<lparr>wl_inFlightClaimToken := 0, wl_inFlightEventRevision := 0,
     wl_inFlightDelivery := zero_Delivery, wl_inFlightAdmitted := False\<rparr>"

definition RetireWriter :: "nat option \<Rightarrow> Runtime \<Rightarrow> bool \<times> Runtime" where
  "RetireWriter w r =
     (if \<not> currentWriter w r \<or> wl_inFlightAdmitted (lease w r) then (False, r)
      else (True, set_lease w ((clearRuntimeClaim (lease w r))\<lparr>wl_active := False\<rparr>)
                    (r\<lparr>rt_activeWriter := None\<rparr>)))"

definition runtime_Claim ::
    "u64 \<Rightarrow> nat option \<Rightarrow> Runtime \<Rightarrow> (Delivery \<times> DeliveryDisposition \<times> u64) \<times> Runtime" where
  "runtime_Claim now w r0 =
     (if \<not> currentWriter w r0 then ((zero_Delivery, DeliveryNone, 0), r0)
      else let r = reevaluate now r0; l = lease w r in
        if \<not> rt_hasEvent r \<or> wl_inFlightClaimToken l \<noteq> 0 \<or>
          wl_completedEventRevision l = rt_currentEventRevision r \<or>
          wl_DeviceGeneration l \<noteq> dl_DeviceGeneration (rt_currentEvent r) \<or>
          wl_TransportGeneration l \<noteq> dl_TransportGeneration (rt_currentEvent r)
        then ((zero_Delivery, DeliveryNone, 0), r)
        else let t = wl_nextClaimToken l + 1;
                 token = (if t = 0 then 1 else t)
             in ((rt_currentEvent r, dl_Disposition (rt_currentEvent r), token),
                 set_lease w (l\<lparr>wl_nextClaimToken := token, wl_inFlightClaimToken := token,
                   wl_inFlightEventRevision := rt_currentEventRevision r,
                   wl_inFlightDelivery := rt_currentEvent r, wl_inFlightAdmitted := False\<rparr>) r))"

definition Admit :: "nat option \<Rightarrow> u64 \<Rightarrow> u64 \<Rightarrow> Runtime \<Rightarrow> bool \<times> Runtime" where
  "Admit w token now r0 =
     (if \<not> exactClaim w token r0 \<or> wl_inFlightAdmitted (lease w r0) then (False, r0)
      else let r = reevaluate now r0; l = lease w r in
        if \<not> rt_hasEvent r \<or> rt_currentEventRevision r \<noteq> wl_inFlightEventRevision l \<or>
          rt_currentEvent r \<noteq> wl_inFlightDelivery l \<or>
          wl_DeviceGeneration l \<noteq> dl_DeviceGeneration (rt_currentEvent r) \<or>
          wl_TransportGeneration l \<noteq> dl_TransportGeneration (rt_currentEvent r)
        then (False, r)
        else if dl_Disposition (rt_currentEvent r) = DeliveryFrame \<and>
          \<not> FreshAt (dl_Frame (rt_currentEvent r)) now then (False, r)
        else let r1 = set_lease w (l\<lparr>wl_inFlightAdmitted := True\<rparr>) r
             in (True, if dl_Disposition (rt_currentEvent r1) = DeliveryFrame
                       then r1\<lparr>rt_ownerMayHaveActuated := True\<rparr> else r1))"

definition retire_owner :: "Runtime \<Rightarrow> Runtime" where
  "retire_owner r = r\<lparr>rt_hasOwner := False, rt_stopping := False, rt_ownerMayHaveActuated := False,
     rt_owner := zero_Publication, rt_ownerDeliveryEpoch := 0, rt_hasEvent := False,
     rt_currentEvent := zero_Delivery\<rparr>"

definition runtime_Complete :: "nat option \<Rightarrow> u64 \<Rightarrow> bool \<Rightarrow> u64 \<Rightarrow> Runtime \<Rightarrow> bool \<times> Runtime" where
  "runtime_Complete w token delivered now r =
     (if \<not> exactClaim w token r \<or> (delivered \<and> \<not> wl_inFlightAdmitted (lease w r)) then (False, r)
      else let l = lease w r;
               claimedRevision = wl_inFlightEventRevision l;
               claimed = wl_inFlightDelivery l;
               l1 = (if delivered then l\<lparr>wl_completedEventRevision := claimedRevision\<rparr> else l);
               r1 = set_lease w (clearRuntimeClaim l1) r;
               r2 = (if delivered \<and> dl_Disposition claimed = DeliveryStop \<and> rt_hasEvent r1 \<and>
                       rt_currentEventRevision r1 = claimedRevision \<and> rt_currentEvent r1 = claimed
                     then retire_owner r1 else r1)
           in (True, reevaluate now r2))"

definition ReadCurrent :: "Runtime \<Rightarrow> Delivery \<times> u64 \<times> bool" where
  "ReadCurrent r = (rt_currentEvent r, rt_currentEventRevision r, rt_hasEvent r)"

section \<open>The arbitration invariant\<close>

definition owner_inv :: "Runtime \<Rightarrow> bool" where
  "owner_inv r \<longleftrightarrow>
     (if rt_hasOwner r
      then Publication_Valid (rt_owner r) \<and> rt_hasEvent r \<and> rt_ownerDeliveryEpoch r \<noteq> 0 \<and>
        rt_ownerDeliveryEpoch r \<le> rt_nextDeliveryEpoch r \<and> rt_currentEventRevision r \<noteq> 0 \<and>
        rt_currentEvent r =
          (if rt_stopping r then stop_event (rt_owner r) (rt_ownerDeliveryEpoch r)
           else frame_event (rt_owner r) (rt_ownerDeliveryEpoch r)) \<and>
        (rt_stopping r \<longrightarrow> rt_ownerMayHaveActuated r)
      else \<not> rt_hasEvent r \<and> \<not> rt_stopping r \<and> \<not> rt_ownerMayHaveActuated r)"

definition slot_ok :: "u8 \<Rightarrow> publicationSlot \<Rightarrow> bool" where
  "slot_ok origin s \<longleftrightarrow>
     (ps_hasValue s \<longrightarrow> Publication_Valid (ps_publication s) \<and> pu_Origin (ps_publication s) = origin)"

definition slots_inv :: "Runtime \<Rightarrow> bool" where
  "slots_inv r \<longleftrightarrow>
     slot_ok PublicationOriginProfileEffect (rt_profileSlot r) \<and>
     slot_ok PublicationOriginAudioHaptics (rt_audioSlot r) \<and>
     slot_ok PublicationOriginNativeGame (rt_gameSlot r) \<and>
     slot_ok PublicationOriginTestPreview (rt_previewSlot r)"

text \<open>The delivery epoch whose output may be on the device.\<close>

definition live_epoch :: "Runtime \<Rightarrow> u64 option" where
  "live_epoch r =
     (if rt_hasOwner r \<and> rt_ownerMayHaveActuated r then Some (rt_ownerDeliveryEpoch r) else None)"

definition unused_epoch :: "u64 \<Rightarrow> Runtime \<Rightarrow> bool" where
  "unused_epoch used r \<longleftrightarrow> used \<le> rt_nextDeliveryEpoch r \<and>
     (rt_hasOwner r \<and> \<not> rt_ownerMayHaveActuated r \<longrightarrow> used < rt_ownerDeliveryEpoch r)"

text \<open>What the arbitration does not touch.\<close>

lemma setEvent_frame [simp]:
  "rt_profileSlot (setEvent d r) = rt_profileSlot r" "rt_audioSlot (setEvent d r) = rt_audioSlot r"
  "rt_gameSlot (setEvent d r) = rt_gameSlot r" "rt_previewSlot (setEvent d r) = rt_previewSlot r"
  "rt_activeWriter (setEvent d r) = rt_activeWriter r" "rt_leases (setEvent d r) = rt_leases r"
  "rt_nextWriterGeneration (setEvent d r) = rt_nextWriterGeneration r"
  "rt_hasOwner (setEvent d r) = rt_hasOwner r" "rt_stopping (setEvent d r) = rt_stopping r"
  "rt_ownerMayHaveActuated (setEvent d r) = rt_ownerMayHaveActuated r"
  "rt_owner (setEvent d r) = rt_owner r"
  "rt_ownerDeliveryEpoch (setEvent d r) = rt_ownerDeliveryEpoch r"
  "rt_nextDeliveryEpoch (setEvent d r) = rt_nextDeliveryEpoch r"
  "rt_hasEvent (setEvent d r)" "rt_currentEvent (setEvent d r) = d"
  "rt_currentEventRevision (setEvent d r) \<noteq> 0"
  by (simp_all add: setEvent_def Let_def)

definition writer_part :: "Runtime \<Rightarrow> (publicationSlot list \<times> nat option \<times> u64 \<times> WriterLease list)" where
  "writer_part r = ([rt_profileSlot r, rt_audioSlot r, rt_gameSlot r, rt_previewSlot r],
     rt_activeWriter r, rt_nextWriterGeneration r, rt_leases r)"

lemma startOwner_writer_part [simp]: "writer_part (startOwner p r) = writer_part r"
  by (simp add: startOwner_def setFrameEvent_def writer_part_def Let_def)

lemma reevaluate_writer_part [simp]: "writer_part (reevaluate now r) = writer_part r"
proof -
  have "writer_part (drop_owner r) = writer_part r"
    by (simp add: drop_owner_def writer_part_def)
  moreover have "writer_part (setFrameEvent (r\<lparr>rt_owner := p\<rparr>)) = writer_part r" for p
    by (simp add: setFrameEvent_def writer_part_def)
  moreover have "writer_part (setEvent d (r\<lparr>rt_stopping := True\<rparr>)) = writer_part r" for d
    by (simp add: writer_part_def)
  ultimately show ?thesis
    by (simp add: reevaluate_def Let_def replaceUnadmittedOwner_def split: option.split)
qed

lemma reevaluate_frame [simp]:
  "rt_leases (reevaluate now r) = rt_leases r" "rt_activeWriter (reevaluate now r) = rt_activeWriter r"
  "rt_nextWriterGeneration (reevaluate now r) = rt_nextWriterGeneration r"
  "lease w (reevaluate now r) = lease w r" "currentWriter w (reevaluate now r) = currentWriter w r"
  "slots_inv (reevaluate now r) = slots_inv r"
  using reevaluate_writer_part [of now r]
  by (simp_all add: writer_part_def lease_def currentWriter_def slots_inv_def split: option.split)

lemma slot_ok_live: "slot_ok origin s \<Longrightarrow> slot_live s now dg tg \<Longrightarrow> Publication_Valid (ps_publication s)"
  by (simp add: slot_ok_def slot_live_def)

lemma considerRuntimeSlot_valid:
  assumes "slot_ok origin s" "considerRuntimeSlot s now dg tg w = Some p"
    and "\<And>q. w = Some q \<Longrightarrow> Publication_Valid q"
  shows "Publication_Valid p"
  using assms slot_ok_live
  by (fastforce simp: considerRuntimeSlot_def split: if_splits option.splits)

lemma selectWinner_valid:
  assumes "slots_inv r" "selectWinner now r = Some p"
  shows "Publication_Valid p"
proof -
  obtain dg tg found where t: "newestTarget r = (dg, tg, found)" by (cases "newestTarget r")
  note v = considerRuntimeSlot_valid [where now = now and dg = dg and tg = tg]
  have s: "slot_ok PublicationOriginProfileEffect (rt_profileSlot r)"
    "slot_ok PublicationOriginAudioHaptics (rt_audioSlot r)"
    "slot_ok PublicationOriginNativeGame (rt_gameSlot r)"
    "slot_ok PublicationOriginTestPreview (rt_previewSlot r)"
    using assms(1) by (simp_all add: slots_inv_def)
  have 1: "considerRuntimeSlot (rt_profileSlot r) now dg tg None = Some q \<Longrightarrow> Publication_Valid q" for q
    by (rule v [OF s(1)]) auto
  let ?c1 = "considerRuntimeSlot (rt_profileSlot r) now dg tg None"
  let ?c2 = "considerRuntimeSlot (rt_audioSlot r) now dg tg ?c1"
  let ?c3 = "considerRuntimeSlot (rt_gameSlot r) now dg tg ?c2"
  have 2: "?c2 = Some q \<Longrightarrow> Publication_Valid q" for q by (rule v [OF s(2) _ 1])
  have 3: "?c3 = Some q \<Longrightarrow> Publication_Valid q" for q by (rule v [OF s(3) _ 2])
  have "considerRuntimeSlot (rt_previewSlot r) now dg tg ?c3 = Some p"
    using assms(2) by (simp add: selectWinner_def t split: if_splits)
  then show ?thesis by (rule v [OF s(4) _ 3])
qed

lemma next_epoch:
  fixes e :: u64
  assumes "e + 1 \<noteq> 0"
  shows "e < e + 1"
proof -
  have u: "unat (e + 1) = (unat e + 1) mod 2 ^ 64" by (simp add: unat_word_ariths)
  have "unat e + 1 \<noteq> 2 ^ 64"
  proof
    assume "unat e + 1 = 2 ^ 64"
    then have "unat (e + 1) = 0" by (simp only: u mod_self)
    then show False using assms by (simp add: unsigned_eq_0_iff)
  qed
  moreover have "unat e < 2 ^ 64" using unsigned_less [where ?'a = nat, of e] by simp
  ultimately have "unat e + 1 < 2 ^ 64" by simp
  then have "unat (e + 1) = unat e + 1" using u by simp
  then show ?thesis by (simp add: word_less_nat_alt)
qed

lemma startOwner_inv:
  assumes "Publication_Valid p" "\<not> rt_hasOwner r" "\<not> rt_hasEvent r" "\<not> rt_stopping r"
    "\<not> rt_ownerMayHaveActuated r" "used \<le> rt_nextDeliveryEpoch r"
  shows "owner_inv (startOwner p r)" "live_epoch (startOwner p r) = None"
    "unused_epoch used (startOwner p r)"
proof -
  have n: "rt_nextDeliveryEpoch r + 1 \<noteq> 0 \<Longrightarrow> rt_nextDeliveryEpoch r < rt_nextDeliveryEpoch r + 1"
    by (rule next_epoch)
  show "owner_inv (startOwner p r)" "live_epoch (startOwner p r) = None"
    using assms by (simp_all add: startOwner_def setFrameEvent_def owner_inv_def live_epoch_def Let_def)
  show "unused_epoch used (startOwner p r)"
    using assms n by (auto simp: startOwner_def setFrameEvent_def unused_epoch_def Let_def)
qed

lemma reevaluate_inv:
  assumes "owner_inv r" "slots_inv r" "unused_epoch used r"
  shows "owner_inv (reevaluate now r) \<and> live_epoch (reevaluate now r) = live_epoch r \<and>
    unused_epoch used (reevaluate now r)"
proof -
  consider (stopping) "rt_stopping r"
    | (noowner) "\<not> rt_stopping r" "\<not> rt_hasOwner r"
    | (same) w where "\<not> rt_stopping r" "rt_hasOwner r" "selectWinner now r = Some w"
        "sameRuntimeOwnership w (rt_owner r)"
    | (lost) "\<not> rt_stopping r" "rt_hasOwner r"
        "\<not> (case selectWinner now r of Some w \<Rightarrow> sameRuntimeOwnership w (rt_owner r) | None \<Rightarrow> False)"
    by (cases "selectWinner now r") auto
  then show ?thesis
  proof cases
    case stopping
    then show ?thesis using assms by (simp add: reevaluate_def)
  next
    case noowner
    then have "\<not> rt_hasEvent r" "\<not> rt_ownerMayHaveActuated r" "live_epoch r = None"
      using assms(1) by (simp_all add: owner_inv_def live_epoch_def)
    then show ?thesis
      using noowner assms startOwner_inv selectWinner_valid
      by (auto simp: reevaluate_def Let_def unused_epoch_def split: option.split)
  next
    case same
    then show ?thesis using assms selectWinner_valid [OF assms(2) same(3)]
      by (auto simp: reevaluate_def Let_def setFrameEvent_def owner_inv_def live_epoch_def
          unused_epoch_def)
  next
    case lost
    show ?thesis
    proof (cases "rt_ownerMayHaveActuated r")
      case True
      then have "reevaluate now r =
          setEvent (stop_event (rt_owner r) (rt_ownerDeliveryEpoch r)) (r\<lparr>rt_stopping := True\<rparr>)"
        using lost by (simp add: reevaluate_def Let_def)
      then show ?thesis using assms lost True
        by (simp add: owner_inv_def live_epoch_def unused_epoch_def)
    next
      case False
      let ?d = "drop_owner r"
      have d: "owner_inv ?d" "live_epoch ?d = None" "unused_epoch used ?d" "\<not> rt_hasOwner ?d"
        "\<not> rt_hasEvent ?d" "\<not> rt_stopping ?d" "\<not> rt_ownerMayHaveActuated ?d"
        "used \<le> rt_nextDeliveryEpoch ?d" "live_epoch r = None"
        using assms lost False
        by (simp_all add: drop_owner_def owner_inv_def live_epoch_def unused_epoch_def)
      show ?thesis
      proof (cases "selectWinner now r")
        case None
        then show ?thesis using lost False d by (simp add: reevaluate_def Let_def)
      next
        case (Some w)
        have "reevaluate now r = startOwner w ?d"
          using Some lost False by (simp add: reevaluate_def Let_def replaceUnadmittedOwner_def)
        then show ?thesis
          using startOwner_inv [OF selectWinner_valid [OF assms(2) Some] d(4-8)] d(9) by simp
      qed
    qed
  qed
qed

section \<open>The writer protocol\<close>

text \<open>What the sole writer sees, as a log of successful admissions and of completions with
  delivery. The monitor keeps the epoch that may be on the device and the largest epoch
  admitted so far: a frame is admitted only for the live epoch or for a new, larger epoch
  while nothing is live, and only the delivered stop of the live epoch ends it.\<close>

datatype writer_event = Admitted Delivery | Delivered Delivery

fun protocol_step :: "writer_event \<Rightarrow> u64 option \<times> u64 \<Rightarrow> (u64 option \<times> u64) option" where
  "protocol_step (Admitted d) (active, used) =
     (if dl_Disposition d = DeliveryFrame then
        (if active = Some (dl_DeliveryEpoch d) \<or> (active = None \<and> used < dl_DeliveryEpoch d)
         then Some (Some (dl_DeliveryEpoch d), dl_DeliveryEpoch d) else None)
      else if active = Some (dl_DeliveryEpoch d) then Some (active, used) else None)"
| "protocol_step (Delivered d) (active, used) =
     (if active \<noteq> Some (dl_DeliveryEpoch d) then None
      else if dl_Disposition d = DeliveryFrame then Some (active, used)
      else Some (None, used))"

fun protocol :: "writer_event list \<Rightarrow> u64 option \<times> u64 \<Rightarrow> (u64 option \<times> u64) option" where
  "protocol [] st = Some st"
| "protocol (e # es) st = Option.bind (protocol_step e st) (protocol es)"

lemma protocol_append:
  "protocol (es @ fs) st = Option.bind (protocol es st) (protocol fs)"
  by (induction es arbitrary: st) (auto split: Option.bind_split)

datatype runtime_op =
  RPublish Publication | RAcquire u64 u64 | RRetire "nat option" | RClaim u64 "nat option"
| RAdmit "nat option" u64 u64 | RComplete "nat option" u64 bool u64

fun runtime_step :: "runtime_op \<Rightarrow> Runtime \<times> writer_event list \<Rightarrow> Runtime \<times> writer_event list" where
  "runtime_step (RPublish p) (r, es) = (snd (runtime_Publish p r), es)"
| "runtime_step (RAcquire dg tg) (r, es) = (snd (AcquireWriter dg tg r), es)"
| "runtime_step (RRetire w) (r, es) = (snd (RetireWriter w r), es)"
| "runtime_step (RClaim now w) (r, es) = (snd (runtime_Claim now w r), es)"
| "runtime_step (RAdmit w token now) (r, es) =
     (let (ok, r') = Admit w token now r
      in (r', if ok then es @ [Admitted (wl_inFlightDelivery (lease w r))] else es))"
| "runtime_step (RComplete w token delivered now) (r, es) =
     (let (ok, r') = runtime_Complete w token delivered now r
      in (r', if ok \<and> delivered then es @ [Delivered (wl_inFlightDelivery (lease w r))] else es))"

definition runtime_steps :: "runtime_op list \<Rightarrow> Runtime \<times> writer_event list" where
  "runtime_steps ops = fold runtime_step ops (zero_Runtime, [])"

text \<open>The claim of the active writer.\<close>

definition claim_ok :: "Runtime \<Rightarrow> WriterLease \<Rightarrow> bool" where
  "claim_ok r l \<longleftrightarrow>
     (wl_inFlightClaimToken l = 0 \<longrightarrow> \<not> wl_inFlightAdmitted l) \<and>
     (wl_inFlightClaimToken l \<noteq> 0 \<longrightarrow>
        dl_Disposition (wl_inFlightDelivery l) \<noteq> DeliveryNone \<and>
        (dl_Disposition (wl_inFlightDelivery l) = DeliveryStop \<longrightarrow>
           rt_stopping r \<and> rt_currentEvent r = wl_inFlightDelivery l \<and>
           rt_currentEventRevision r = wl_inFlightEventRevision l) \<and>
        (dl_Disposition (wl_inFlightDelivery l) = DeliveryFrame \<and> wl_inFlightAdmitted l \<longrightarrow>
           live_epoch r = Some (dl_DeliveryEpoch (wl_inFlightDelivery l))))"

definition lease_inv :: "Runtime \<Rightarrow> bool" where
  "lease_inv r \<longleftrightarrow>
     (\<forall>a. rt_activeWriter r = Some a \<longrightarrow> a < length (rt_leases r) \<and> claim_ok r (rt_leases r ! a))"

definition runtime_inv :: "Runtime \<times> writer_event list \<Rightarrow> bool" where
  "runtime_inv s \<longleftrightarrow> (case s of (r, es) \<Rightarrow>
     owner_inv r \<and> slots_inv r \<and> lease_inv r \<and>
     (\<exists>used. protocol es (None, 0) = Some (live_epoch r, used) \<and> unused_epoch used r))"

lemma runtime_start_inv: "runtime_inv (zero_Runtime, [])"
  by (simp add: runtime_inv_def zero_Runtime_def owner_inv_def slots_inv_def slot_ok_def
      zero_slot_def lease_inv_def live_epoch_def unused_epoch_def)

lemma owner_inv_event:
  assumes "owner_inv r" "rt_hasEvent r"
  shows "rt_hasOwner r" "rt_currentEventRevision r \<noteq> 0"
    "dl_DeliveryEpoch (rt_currentEvent r) = rt_ownerDeliveryEpoch r"
    "dl_Disposition (rt_currentEvent r) = (if rt_stopping r then DeliveryStop else DeliveryFrame)"
    "rt_stopping r \<Longrightarrow> rt_ownerMayHaveActuated r"
  using assms by (auto simp: owner_inv_def frame_event_def stop_event_def split: if_splits)

lemma reevaluate_claim_ok:
  assumes "owner_inv r" "slots_inv r" "unused_epoch used r" "claim_ok r l"
  shows "claim_ok (reevaluate now r) l"
proof -
  have "rt_stopping r \<Longrightarrow> reevaluate now r = r" by (simp add: reevaluate_def)
  then show ?thesis using assms(4) reevaluate_inv [OF assms(1-3), of now]
    by (auto simp: claim_ok_def)
qed

lemma reevaluate_runtime_inv:
  assumes "runtime_inv (r, es)"
  shows "runtime_inv (reevaluate now r, es)"
proof -
  obtain used where u: "owner_inv r" "slots_inv r" "lease_inv r" "unused_epoch used r"
    "protocol es (None, 0) = Some (live_epoch r, used)"
    using assms by (auto simp: runtime_inv_def)
  have "lease_inv (reevaluate now r)"
    using u(3) reevaluate_claim_ok [OF u(1,2,4)] by (simp add: lease_inv_def)
  then show ?thesis using u reevaluate_inv [OF u(1,2,4), of now]
    by (auto simp: runtime_inv_def)
qed

lemma publish_runtime_inv:
  assumes "runtime_inv (r, es)"
  shows "runtime_inv (snd (runtime_Publish p r), es)"
proof (cases "fst (runtime_Publish p r)")
  case False
  then show ?thesis using assms by (simp add: runtime_Publish_def Let_def split: if_splits)
next
  case True
  define r' where "r' = snd (runtime_Publish p r)"
  have p: "Publication_Valid p" and
    r': "r' = set_slot (pu_Origin p) \<lparr>ps_publication = p, ps_hasValue = True\<rparr> r"
    using True by (auto simp: runtime_Publish_def r'_def Let_def split: if_splits)
  have o: "pu_Origin p \<in> {1, 2, 3, 4}"
  proof -
    have "1 \<le> unat (pu_Origin p)" "unat (pu_Origin p) \<le> 4"
      using p by (simp_all add: Publication_Valid_def PublicationOrigin_Valid_def origin_consts
          word_le_nat_alt)
    then have "unat (pu_Origin p) \<in> {1, 2, 3, 4}" by auto
    then show ?thesis by (simp add: word_unat_eq_iff)
  qed
  have "slots_inv r'" using p o assms
    by (auto simp: r' set_slot_def slots_inv_def slot_ok_def origin_consts runtime_inv_def)
  moreover have "owner_inv r' = owner_inv r" "lease_inv r' = lease_inv r"
    "live_epoch r' = live_epoch r" "unused_epoch u r' = unused_epoch u r" for u
    by (simp_all add: r' set_slot_def owner_inv_def lease_inv_def claim_ok_def live_epoch_def
        unused_epoch_def)
  ultimately show ?thesis using assms unfolding r'_def [symmetric] by (auto simp: runtime_inv_def)
qed

lemma writer_update_inv:
  assumes "runtime_inv (r, es)" "lease_inv (r\<lparr>rt_nextWriterGeneration := g, rt_activeWriter := a,
    rt_leases := ls\<rparr>)"
  shows "runtime_inv (r\<lparr>rt_nextWriterGeneration := g, rt_activeWriter := a, rt_leases := ls\<rparr>, es)"
proof -
  let ?r = "r\<lparr>rt_nextWriterGeneration := g, rt_activeWriter := a, rt_leases := ls\<rparr>"
  have "owner_inv ?r = owner_inv r" "slots_inv ?r = slots_inv r" "live_epoch ?r = live_epoch r"
    "\<And>u. unused_epoch u ?r = unused_epoch u r"
    by (simp_all add: owner_inv_def slots_inv_def live_epoch_def unused_epoch_def)
  then show ?thesis using assms by (auto simp: runtime_inv_def)
qed

lemma acquire_runtime_inv:
  assumes "runtime_inv (r, es)"
  shows "runtime_inv (snd (AcquireWriter dg tg r), es)"
proof (cases "snd (AcquireWriter dg tg r) = r")
  case True
  then show ?thesis using assms by simp
next
  case False
  then obtain g l where "snd (AcquireWriter dg tg r) = r\<lparr>rt_nextWriterGeneration := g,
      rt_activeWriter := Some (length (rt_leases r)), rt_leases := rt_leases r @ [l]\<rparr>"
    and "wl_inFlightClaimToken l = 0" "\<not> wl_inFlightAdmitted l"
    by (auto simp: AcquireWriter_def Let_def split: if_splits)
  then show ?thesis using writer_update_inv [OF assms] by (simp add: lease_inv_def claim_ok_def)
qed

lemma currentWriterD:
  assumes "currentWriter w r"
  obtains a where "w = Some a" "a < length (rt_leases r)" "rt_activeWriter r = Some a"
    "lease w r = rt_leases r ! a"
  using assms by (auto simp: currentWriter_def lease_def split: option.splits)

text \<open>Replacing the claim of the current writer keeps the invariant if the new claim is in
  order.\<close>

lemma set_lease_inv:
  assumes "currentWriter w r" "owner_inv r" "slots_inv r" "unused_epoch used r"
    "protocol es (None, 0) = Some (live_epoch r, used)" "claim_ok r l"
  shows "runtime_inv (set_lease w l r, es)"
proof -
  obtain a where a: "w = Some a" "a < length (rt_leases r)" "rt_activeWriter r = Some a"
    using currentWriterD [OF assms(1)] by metis
  have live: "live_epoch (set_lease w l r) = live_epoch r"
    by (simp add: set_lease_def live_epoch_def)
  have "claim_ok (set_lease w l r) l" using assms(6)
    unfolding claim_ok_def live by (simp add: set_lease_def)
  then have "lease_inv (set_lease w l r)" using a by (simp add: lease_inv_def set_lease_def)
  moreover have "owner_inv (set_lease w l r)" "slots_inv (set_lease w l r)"
    "unused_epoch used (set_lease w l r)" "live_epoch (set_lease w l r) = live_epoch r"
    using assms(2-4) by (simp_all add: set_lease_def owner_inv_def slots_inv_def unused_epoch_def
        live_epoch_def)
  ultimately show ?thesis using assms(5) by (auto simp: runtime_inv_def)
qed

lemma retire_runtime_inv:
  assumes "runtime_inv (r, es)"
  shows "runtime_inv (snd (RetireWriter w r), es)"
proof (cases "snd (RetireWriter w r) = r")
  case True
  then show ?thesis using assms by simp
next
  case False
  then obtain ls where "snd (RetireWriter w r) = r\<lparr>rt_nextWriterGeneration := rt_nextWriterGeneration r,
      rt_activeWriter := None, rt_leases := ls\<rparr>"
    by (auto simp: RetireWriter_def set_lease_def split: if_splits)
  then show ?thesis
    using writer_update_inv [OF assms, where g = "rt_nextWriterGeneration r" and a = None and ls = ls] by (simp add: lease_inv_def)
qed

lemma claim_runtime_inv:
  assumes "runtime_inv (r0, es)"
  shows "runtime_inv (snd (runtime_Claim now w r0), es)"
proof (cases "currentWriter w r0")
  case False
  then show ?thesis using assms by (simp add: runtime_Claim_def)
next
  case True
  define r where "r = reevaluate now r0"
  have r: "runtime_inv (r, es)" unfolding r_def by (rule reevaluate_runtime_inv [OF assms])
  then obtain used where u: "owner_inv r" "slots_inv r" "unused_epoch used r"
    "protocol es (None, 0) = Some (live_epoch r, used)"
    by (auto simp: runtime_inv_def)
  have cw: "currentWriter w r" using True by (simp add: r_def)
  have ok: "claim_ok r (lease w r\<lparr>wl_nextClaimToken := token, wl_inFlightClaimToken := token,
      wl_inFlightEventRevision := rt_currentEventRevision r,
      wl_inFlightDelivery := rt_currentEvent r, wl_inFlightAdmitted := False\<rparr>)"
    if "rt_hasEvent r" for token
    using owner_inv_event [OF u(1) that] by (auto simp: claim_ok_def split: if_splits)
  have "snd (runtime_Claim now w r0) = r \<or>
      (\<exists>token. rt_hasEvent r \<and> snd (runtime_Claim now w r0) =
        set_lease w (lease w r\<lparr>wl_nextClaimToken := token, wl_inFlightClaimToken := token,
          wl_inFlightEventRevision := rt_currentEventRevision r,
          wl_inFlightDelivery := rt_currentEvent r, wl_inFlightAdmitted := False\<rparr>) r)"
    using True by (auto simp: runtime_Claim_def r_def [symmetric] Let_def)
  then show ?thesis using r set_lease_inv [OF cw u ok] by metis
qed

lemma Admit_cases:
  obtains (rejected) "Admit w token now r0 = (False, r0)"
  | (changed) "Admit w token now r0 = (False, reevaluate now r0)"
  | (admitted) r where "r = reevaluate now r0" "exactClaim w token r0" "rt_hasEvent r"
      "rt_currentEvent r = wl_inFlightDelivery (lease w r)"
      "rt_currentEventRevision r = wl_inFlightEventRevision (lease w r)"
      "dl_Disposition (rt_currentEvent r) = DeliveryFrame \<Longrightarrow> FreshAt (dl_Frame (rt_currentEvent r)) now"
      "Admit w token now r0 = (True,
         let r1 = set_lease w (lease w r\<lparr>wl_inFlightAdmitted := True\<rparr>) r in
         if dl_Disposition (rt_currentEvent r1) = DeliveryFrame
         then r1\<lparr>rt_ownerMayHaveActuated := True\<rparr> else r1)"
proof (cases "\<not> exactClaim w token r0 \<or> wl_inFlightAdmitted (lease w r0)")
  case True
  then show ?thesis using rejected by (simp add: Admit_def)
next
  case False
  define r where "r = reevaluate now r0"
  let ?stale = "\<not> rt_hasEvent r \<or> rt_currentEventRevision r \<noteq> wl_inFlightEventRevision (lease w r) \<or>
    rt_currentEvent r \<noteq> wl_inFlightDelivery (lease w r) \<or>
    wl_DeviceGeneration (lease w r) \<noteq> dl_DeviceGeneration (rt_currentEvent r) \<or>
    wl_TransportGeneration (lease w r) \<noteq> dl_TransportGeneration (rt_currentEvent r)"
  let ?expired = "dl_Disposition (rt_currentEvent r) = DeliveryFrame \<and>
    \<not> FreshAt (dl_Frame (rt_currentEvent r)) now"
  have e: "Admit w token now r0 =
      (if ?stale then (False, r) else if ?expired then (False, r)
       else let r1 = set_lease w (lease w r\<lparr>wl_inFlightAdmitted := True\<rparr>) r
            in (True, if dl_Disposition (rt_currentEvent r1) = DeliveryFrame
                      then r1\<lparr>rt_ownerMayHaveActuated := True\<rparr> else r1))"
    unfolding Admit_def r_def [symmetric] Let_def using False by (simp only: if_False)
  show ?thesis
  proof (cases "?stale \<or> ?expired")
    case True
    then have "Admit w token now r0 = (False, r)" unfolding e by (cases ?stale) simp_all
    then show ?thesis using changed by (simp only: r_def)
  next
    case ne: False
    then have ns: "\<not> ?stale" and nx: "\<not> ?expired" by blast+
    have "Admit w token now r0 = (True,
         let r1 = set_lease w (lease w r\<lparr>wl_inFlightAdmitted := True\<rparr>) r in
         if dl_Disposition (rt_currentEvent r1) = DeliveryFrame
         then r1\<lparr>rt_ownerMayHaveActuated := True\<rparr> else r1)"
      unfolding e if_not_P [OF ns] if_not_P [OF nx] Let_def by (rule refl)
    then show ?thesis using admitted [OF r_def] False ne by blast
  qed
qed

lemma admit_runtime_inv:
  assumes "runtime_inv (r0, es)"
  shows "runtime_inv (runtime_step (RAdmit w token now) (r0, es))"
proof (cases rule: Admit_cases [of w token now r0])
  case rejected
  then show ?thesis using assms by simp
next
  case changed
  then show ?thesis using reevaluate_runtime_inv [OF assms, of now] by simp
next
  case (admitted r)
  let ?l = "lease w r" let ?d = "rt_currentEvent r"
  note r_def = admitted(1)
  have x: "exactClaim w token r0" "rt_hasEvent r" "?d = wl_inFlightDelivery ?l"
    "rt_currentEventRevision r = wl_inFlightEventRevision ?l"
    by (rule admitted)+
  have res: "snd (Admit w token now r0) =
      (if dl_Disposition ?d = DeliveryFrame
       then set_lease w (?l\<lparr>wl_inFlightAdmitted := True\<rparr>) r\<lparr>rt_ownerMayHaveActuated := True\<rparr>
       else set_lease w (?l\<lparr>wl_inFlightAdmitted := True\<rparr>) r)"
    and ok: "fst (Admit w token now r0)"
    by (simp_all add: admitted(7) set_lease_def)
  have l0: "lease w r0 = ?l" by (simp add: r_def)
  have cw: "currentWriter w r" using x(1) by (simp add: r_def exactClaim_def)
  have tok: "wl_inFlightClaimToken ?l \<noteq> 0" using x(1) l0 by (simp add: exactClaim_def)
  have "runtime_inv (r, es)" unfolding r_def by (rule reevaluate_runtime_inv [OF assms])
  then obtain used where u: "owner_inv r" "slots_inv r" "unused_epoch used r"
    "protocol es (None, 0) = Some (live_epoch r, used)" "lease_inv r"
    by (auto simp: runtime_inv_def)
  note ev = owner_inv_event [OF u(1) x(2)]
  obtain a where a: "w = Some a" "rt_activeWriter r = Some a" "?l = rt_leases r ! a"
    using currentWriterD [OF cw] by metis
  show ?thesis
  proof (cases "rt_stopping r")
    case True
    then have d: "dl_Disposition ?d = DeliveryStop" "live_epoch r = Some (dl_DeliveryEpoch ?d)"
      using ev by (simp_all add: live_epoch_def)
    have "protocol (es @ [Admitted ?d]) (None, 0) = Some (live_epoch r, used)"
      using u(4) d by (simp add: protocol_append)
    moreover have "claim_ok r (?l\<lparr>wl_inFlightAdmitted := True\<rparr>)"
      using True x(3,4) d tok by (simp add: claim_ok_def)
    ultimately show ?thesis
      using set_lease_inv [OF cw u(1-3)] True ok res d x(3) l0
      by (simp add: split_beta)
  next
    case False
    then have d: "dl_Disposition ?d = DeliveryFrame" using ev by simp
    define r1 where "r1 = r\<lparr>rt_ownerMayHaveActuated := True\<rparr>"
    have r1: "owner_inv r1" "slots_inv r1" "currentWriter w r1"
      "live_epoch r1 = Some (dl_DeliveryEpoch ?d)" "unused_epoch (dl_DeliveryEpoch ?d) r1"
      using u(1,2) cw False ev(1,3)
      by (auto simp: r1_def owner_inv_def slots_inv_def currentWriter_def live_epoch_def
          unused_epoch_def split: option.splits)
    have "protocol (es @ [Admitted ?d]) (None, 0) = Some (live_epoch r1, dl_DeliveryEpoch ?d)"
      using u(3,4) d r1(4) ev(1,3)
      by (auto simp: protocol_append live_epoch_def unused_epoch_def)
    moreover have "claim_ok r1 (?l\<lparr>wl_inFlightAdmitted := True\<rparr>)"
      using x(3) d tok r1(4) by (simp add: claim_ok_def)
    moreover have "snd (Admit w token now r0) = set_lease w (?l\<lparr>wl_inFlightAdmitted := True\<rparr>) r1"
      using res d by (simp add: r1_def set_lease_def)
    ultimately show ?thesis
      using set_lease_inv [OF r1(3,1,2,5)] ok x(3) l0
      by (simp add: split_beta)
  qed
qed

lemma retire_owner_inv:
  assumes "owner_inv r" "slots_inv r" "lease_inv r" "unused_epoch used r"
    "\<And>a. rt_activeWriter r = Some a \<Longrightarrow> wl_inFlightClaimToken (rt_leases r ! a) = 0"
  shows "owner_inv (retire_owner r)" "slots_inv (retire_owner r)" "lease_inv (retire_owner r)"
    "unused_epoch used (retire_owner r)" "live_epoch (retire_owner r) = None"
proof -
  show "lease_inv (retire_owner r)"
    using assms(3,5) by (auto simp: lease_inv_def claim_ok_def retire_owner_def)
  show "owner_inv (retire_owner r)" "slots_inv (retire_owner r)"
    "unused_epoch used (retire_owner r)" "live_epoch (retire_owner r) = None"
    using assms(2,4) by (simp_all add: retire_owner_def owner_inv_def slots_inv_def
        unused_epoch_def live_epoch_def)
qed

lemma complete_runtime_inv:
  assumes "runtime_inv (r, es)"
  shows "runtime_inv (runtime_step (RComplete w token delivered now) (r, es))"
proof (cases "fst (runtime_Complete w token delivered now r)")
  case False
  then have "snd (runtime_Complete w token delivered now r) = r"
    by (auto simp: runtime_Complete_def Let_def split: if_splits)
  then show ?thesis using False assms by (simp add: split_beta)
next
  case True
  let ?l = "lease w r" let ?d = "wl_inFlightDelivery ?l"
  have x: "exactClaim w token r" "delivered \<Longrightarrow> wl_inFlightAdmitted ?l"
    using True by (auto simp: runtime_Complete_def Let_def split: if_splits)
  have cw: "currentWriter w r" and tok: "wl_inFlightClaimToken ?l \<noteq> 0"
    using x(1) by (simp_all add: exactClaim_def)
  obtain a where a: "w = Some a" "a < length (rt_leases r)" "rt_activeWriter r = Some a"
    "?l = rt_leases r ! a"
    using currentWriterD [OF cw] by metis
  obtain used where u: "owner_inv r" "slots_inv r" "unused_epoch used r"
    "protocol es (None, 0) = Some (live_epoch r, used)" "lease_inv r"
    using assms by (auto simp: runtime_inv_def)
  have ok: "claim_ok r ?l" using u(5) a by (simp add: lease_inv_def)
  define l1 where
    "l1 = (if delivered then ?l\<lparr>wl_completedEventRevision := wl_inFlightEventRevision ?l\<rparr> else ?l)"
  define r1 where "r1 = set_lease w (clearRuntimeClaim l1) r"
  have l1: "claim_ok r (clearRuntimeClaim l1)" by (simp add: claim_ok_def clearRuntimeClaim_def)
  have i1: "runtime_inv (r1, es)" unfolding r1_def by (rule set_lease_inv [OF cw u(1-4) l1])
  have same: "rt_stopping r1 = rt_stopping r" "rt_currentEvent r1 = rt_currentEvent r"
    "rt_currentEventRevision r1 = rt_currentEventRevision r" "rt_hasEvent r1 = rt_hasEvent r"
    "live_epoch r1 = live_epoch r" "unused_epoch used r1 = unused_epoch used r"
    by (simp_all add: r1_def set_lease_def live_epoch_def unused_epoch_def)
  have res: "snd (runtime_Complete w token delivered now r) = reevaluate now
      (if delivered \<and> dl_Disposition ?d = DeliveryStop \<and> rt_hasEvent r1 \<and>
         rt_currentEventRevision r1 = wl_inFlightEventRevision ?l \<and> rt_currentEvent r1 = ?d
       then retire_owner r1 else r1)"
  proof -
    have "(\<not> exactClaim w token r \<or> (delivered \<and> \<not> wl_inFlightAdmitted ?l)) = False"
      using x by blast
    then show ?thesis by (simp only: runtime_Complete_def Let_def if_False snd_conv r1_def l1_def)
  qed
  have disp: "dl_Disposition ?d = DeliveryStop \<or> dl_Disposition ?d = DeliveryFrame"
    using ok tok by (cases "dl_Disposition ?d") (auto simp: claim_ok_def)
  consider (failed) "\<not> delivered" | (frame) "delivered" "dl_Disposition ?d = DeliveryFrame"
    | (stop) "delivered" "dl_Disposition ?d = DeliveryStop" using disp by blast
  then show ?thesis
  proof cases
    case failed
    then show ?thesis using res reevaluate_runtime_inv [OF i1] by (simp add: split_beta)
  next
    case frame
    then have "live_epoch r = Some (dl_DeliveryEpoch ?d)" using ok tok x(2) by (simp add: claim_ok_def)
    then have "protocol (es @ [Delivered ?d]) (None, 0) = Some (live_epoch r1, used)"
      using u(4) frame same by (simp add: protocol_append)
    then have "runtime_inv (r1, es @ [Delivered ?d])"
      using i1 u(3) same by (auto simp: runtime_inv_def)
    then show ?thesis using res frame True reevaluate_runtime_inv by (simp add: split_beta)
  next
    case stop
    then have st: "rt_stopping r" "rt_currentEvent r = ?d"
      "rt_currentEventRevision r = wl_inFlightEventRevision ?l"
      using ok tok by (simp_all add: claim_ok_def)
    then have ev: "rt_hasEvent r" using u(1) by (auto simp: owner_inv_def split: if_splits)
    note e = owner_inv_event [OF u(1) ev]
    have live: "live_epoch r = Some (dl_DeliveryEpoch ?d)"
      using e(1,3,5) st by (simp add: live_epoch_def)
    have i: "owner_inv r1" "slots_inv r1" "lease_inv r1" "unused_epoch used r1"
      using i1 u(3) same by (auto simp: runtime_inv_def)
    have "wl_inFlightClaimToken (rt_leases r1 ! b) = 0" if "rt_activeWriter r1 = Some b" for b
      using that a by (simp add: r1_def set_lease_def clearRuntimeClaim_def)
    note ro = retire_owner_inv [OF i this]
    have "protocol (es @ [Delivered ?d]) (None, 0) = Some (None, used)"
      using u(4) live stop by (simp add: protocol_append)
    then have "runtime_inv (retire_owner r1, es @ [Delivered ?d])"
      using ro by (auto simp: runtime_inv_def)
    moreover have "snd (runtime_Complete w token delivered now r) = reevaluate now (retire_owner r1)"
      using res stop same st ev by simp
    ultimately show ?thesis using stop True reevaluate_runtime_inv by (simp add: split_beta)
  qed
qed

lemma step_runtime_inv: "runtime_inv s \<Longrightarrow> runtime_inv (runtime_step op s)"
proof (cases s)
  case (Pair r es)
  assume "runtime_inv s"
  then have i: "runtime_inv (r, es)" using Pair by simp
  show ?thesis unfolding Pair
    using publish_runtime_inv [OF i] acquire_runtime_inv [OF i] retire_runtime_inv [OF i]
      claim_runtime_inv [OF i] admit_runtime_inv [OF i] complete_runtime_inv [OF i]
    by (cases op) (simp_all del: runtime_step.simps(5,6))
qed

interpretation runtime_machine: op_machine runtime_step runtime_inv "(zero_Runtime, [])"
  by unfold_locales (erule step_runtime_inv, rule runtime_start_inv)

lemma steps_runtime_inv: "runtime_inv (runtime_steps ops)"
  unfolding runtime_steps_def by (rule runtime_machine.inv_run)

section \<open>Selection\<close>

definition slots :: "Runtime \<Rightarrow> publicationSlot list" where
  "slots r = [rt_profileSlot r, rt_audioSlot r, rt_gameSlot r, rt_previewSlot r]"

text \<open>The arbitration rule: among the publications for the newest target, fresh and not
  stopped, the one of highest priority.\<close>

definition slot_target :: "publicationSlot \<Rightarrow> u64 \<times> u64" where
  "slot_target s = (fr_DeviceGeneration (pu_Frame (ps_publication s)),
     fr_TransportGeneration (pu_Frame (ps_publication s)))"

definition target_le :: "u64 \<times> u64 \<Rightarrow> u64 \<times> u64 \<Rightarrow> bool" where
  "target_le a b \<longleftrightarrow> fst a < fst b \<or> (fst a = fst b \<and> snd a \<le> snd b)"

definition is_winner :: "u64 \<Rightarrow> publicationSlot list \<Rightarrow> Publication \<Rightarrow> bool" where
  "is_winner now ss p \<longleftrightarrow>
     (\<exists>dg tg. (\<forall>s \<in> set ss. ps_hasValue s \<longrightarrow> target_le (slot_target s) (dg, tg)) \<and>
        (\<exists>s \<in> set ss. slot_live s now dg tg \<and> p = ps_publication s) \<and>
        (\<forall>s \<in> set ss. slot_live s now dg tg \<longrightarrow> pu_Origin (ps_publication s) \<le> pu_Origin p))"

definition newest_of :: "publicationSlot set \<Rightarrow> u64 \<times> u64 \<times> bool \<Rightarrow> bool" where
  "newest_of S t \<longleftrightarrow> (case t of (dg, tg, found) \<Rightarrow>
     \<forall>s \<in> S. ps_hasValue s \<longrightarrow> found \<and> target_le (slot_target s) (dg, tg))"

lemma target_le_trans: "target_le a b \<Longrightarrow> target_le b c \<Longrightarrow> target_le a c"
  by (auto simp: target_le_def)

lemma findNewest_step:
  assumes "newest_of S t"
  shows "newest_of (insert s S) (findNewestRuntimeTarget s t)"
proof -
  obtain dg tg found where t: "t = (dg, tg, found)" by (cases t)
  show ?thesis
  proof (cases "ps_hasValue s \<and> (\<not> found \<or> fst (slot_target s) > dg \<or>
      (fst (slot_target s) = dg \<and> snd (slot_target s) > tg))")
    case True
    then have r: "findNewestRuntimeTarget s t = (fst (slot_target s), snd (slot_target s), True)"
      by (simp add: findNewestRuntimeTarget_def t slot_target_def Let_def)
    have "target_le (slot_target u) (slot_target s)" if "u \<in> S" "ps_hasValue u" for u
    proof -
      have "found" "target_le (slot_target u) (dg, tg)"
        using that assms t by (auto simp: newest_of_def)
      then show ?thesis using True by (auto simp: target_le_def)
    qed
    moreover have "target_le (slot_target s) (slot_target s)" by (simp add: target_le_def)
    ultimately show ?thesis unfolding r newest_of_def by auto
  next
    case False
    then have "findNewestRuntimeTarget s t = t"
      by (auto simp: findNewestRuntimeTarget_def t slot_target_def Let_def)
    moreover have "ps_hasValue s \<Longrightarrow> found \<and> target_le (slot_target s) (dg, tg)"
      using False by (auto simp: target_le_def not_less order.order_iff_strict)
    ultimately show ?thesis using assms t by (auto simp: newest_of_def)
  qed
qed

lemma newestTarget_newest: "newest_of (set (slots r)) (newestTarget r)"
proof -
  have "newest_of {} (0, 0, False)" by (simp add: newest_of_def)
  then have "newest_of {rt_previewSlot r, rt_gameSlot r, rt_audioSlot r, rt_profileSlot r}
      (newestTarget r)"
    unfolding newestTarget_def by (intro findNewest_step)
  then show ?thesis by (simp add: slots_def insert_commute)
qed

definition best_of :: "u64 \<Rightarrow> u64 \<Rightarrow> u64 \<Rightarrow> publicationSlot set \<Rightarrow> Publication option \<Rightarrow> bool" where
  "best_of now dg tg S w \<longleftrightarrow>
     (case w of None \<Rightarrow> \<forall>s \<in> S. \<not> slot_live s now dg tg
      | Some p \<Rightarrow> (\<exists>s \<in> S. slot_live s now dg tg \<and> p = ps_publication s) \<and>
          (\<forall>s \<in> S. slot_live s now dg tg \<longrightarrow> pu_Origin (ps_publication s) \<le> pu_Origin p))"

lemma consider_step:
  assumes "best_of now dg tg S w"
  shows "best_of now dg tg (insert s S) (considerRuntimeSlot s now dg tg w)"
  using assms
  by (cases w) (auto simp: best_of_def considerRuntimeSlot_def not_less)

lemma selectWinner_best:
  assumes "newestTarget r = (dg, tg, True)"
  shows "best_of now dg tg (set (slots r)) (selectWinner now r)"
proof -
  have "best_of now dg tg {} None" by (simp add: best_of_def)
  then have "best_of now dg tg {rt_previewSlot r, rt_gameSlot r, rt_audioSlot r, rt_profileSlot r}
      (considerRuntimeSlot (rt_previewSlot r) now dg tg
        (considerRuntimeSlot (rt_gameSlot r) now dg tg
          (considerRuntimeSlot (rt_audioSlot r) now dg tg
            (considerRuntimeSlot (rt_profileSlot r) now dg tg None))))"
    by (intro consider_step)
  then show ?thesis by (simp add: selectWinner_def assms slots_def insert_commute)
qed

lemma selectWinner_is_winner:
  assumes "selectWinner now r = Some p"
  shows "is_winner now (slots r) p"
proof -
  obtain dg tg found where t: "newestTarget r = (dg, tg, found)" by (cases "newestTarget r")
  have f: "found" using assms t by (auto simp: selectWinner_def split: if_splits)
  then show ?thesis
    using selectWinner_best [of r dg tg now] newestTarget_newest [of r] t assms
    unfolding is_winner_def best_of_def newest_of_def by auto
qed

lemma reevaluate_owner:
  assumes "\<not> rt_stopping (reevaluate now r)" "rt_hasOwner (reevaluate now r)"
  shows "selectWinner now r = Some (rt_owner (reevaluate now r))"
proof -
  have "\<not> rt_stopping r"
    using assms(1) by (auto simp: reevaluate_def)
  then show ?thesis using assms
    by (auto simp: reevaluate_def Let_def startOwner_def setFrameEvent_def replaceUnadmittedOwner_def
        drop_owner_def split: option.splits if_splits)
qed

section \<open>Watermarks\<close>

lemma newerRuntimeFrame_newer: "newerRuntimeFrame = newer"
  by (intro ext) (simp add: newerRuntimeFrame_def newer_def)

interpretation runtime_order: publication_order newerRuntimeFrame
  unfolding newerRuntimeFrame_newer by (rule mailbox_order.publication_order_axioms)

definition kept_or_newer :: "publicationSlot \<Rightarrow> publicationSlot \<Rightarrow> bool" where
  "kept_or_newer s t \<longleftrightarrow>
     (ps_hasValue s \<longrightarrow> ps_hasValue t \<and>
        (pu_Frame (ps_publication t) = pu_Frame (ps_publication s) \<or>
         newerRuntimeFrame (pu_Frame (ps_publication t)) (pu_Frame (ps_publication s))))"

lemma kept_or_newer_refl: "kept_or_newer s s"
  by (simp add: kept_or_newer_def)

lemma kept_or_newer_trans: "kept_or_newer s t \<Longrightarrow> kept_or_newer t u \<Longrightarrow> kept_or_newer s u"
  using runtime_order.trans by (auto simp: kept_or_newer_def)

lemma reevaluate_slot [simp]: "rt_slot origin (reevaluate now r) = rt_slot origin r"
  using reevaluate_writer_part [of now r] by (simp add: writer_part_def rt_slot_def)

lemma publish_slot: "kept_or_newer (rt_slot origin r) (rt_slot origin (snd (runtime_Publish p r)))"
  by (auto simp: runtime_Publish_def rt_slot_def set_slot_def kept_or_newer_def Let_def origin_consts)

lemma writer_ops_slot [simp]:
  "rt_slot origin (snd (AcquireWriter dg tg r)) = rt_slot origin r"
  "rt_slot origin (snd (RetireWriter w r)) = rt_slot origin r"
  "rt_slot origin (snd (runtime_Claim now w r)) = rt_slot origin r"
proof -
  have s: "rt_slot origin (set_lease w l x) = rt_slot origin x" for l x
    by (simp add: set_lease_def rt_slot_def)
  show "rt_slot origin (snd (AcquireWriter dg tg r)) = rt_slot origin r"
    "rt_slot origin (snd (RetireWriter w r)) = rt_slot origin r"
    by (simp_all add: AcquireWriter_def RetireWriter_def Let_def rt_slot_def set_lease_def)
  show "rt_slot origin (snd (runtime_Claim now w r)) = rt_slot origin r"
    by (simp add: runtime_Claim_def Let_def s)
qed

lemma Admit_slot [simp]: "rt_slot origin (snd (Admit w token now r)) = rt_slot origin r"
proof (cases rule: Admit_cases [of w token now r])
  case (admitted x)
  have "rt_slot origin (set_lease w l y) = rt_slot origin y"
    "rt_slot origin (set_lease w l y\<lparr>rt_ownerMayHaveActuated := True\<rparr>) = rt_slot origin y" for l y
    by (simp_all add: set_lease_def rt_slot_def)
  then show ?thesis using admitted(1,7) by (simp add: Let_def)
qed simp_all

lemma Complete_slot [simp]:
  "rt_slot origin (snd (runtime_Complete w token delivered now r)) = rt_slot origin r"
proof -
  have "rt_slot origin (retire_owner x) = rt_slot origin x"
    "rt_slot origin (set_lease w l x) = rt_slot origin x" for l x
    by (simp_all add: retire_owner_def set_lease_def rt_slot_def)
  then show ?thesis by (simp add: runtime_Complete_def Let_def)
qed

lemma step_slot: "kept_or_newer (rt_slot origin (fst s)) (rt_slot origin (fst (runtime_step op s)))"
  by (cases s; cases op) (simp_all add: split_beta publish_slot kept_or_newer_refl)

section \<open>Properties\<close>

text \<open>C4: Whatever publishers, writers and clock do, what the sole writer is let do follows the
  stop-before-successor protocol: a frame is admitted only for the delivery epoch that is
  already on the device, or for a new and larger epoch when nothing is on the device; the
  device becomes free only by the delivered stop of exactly that epoch, and then for good.\<close>

theorem stop_before_successor:
  "\<exists>active used. protocol (snd (runtime_steps ops)) (None, 0) = Some (active, used)"
  using steps_runtime_inv [of ops] by (auto simp: runtime_inv_def split: prod.splits)

text \<open>C6: A frame that a writer claims is the winner of the arbitration at that time: fresh, not
  a stop, for the newest device and transport generation published, and of the highest
  priority among the publications of that kind.\<close>

theorem claimed_frame_wins:
  assumes "r = fst (runtime_steps ops)"
    and "runtime_Claim now w r = ((d, DeliveryFrame, token), r')"
  shows "\<exists>p. is_winner now (slots r) p \<and> Frame_Valid (pu_Frame p) \<and>
    d = frame_event p (dl_DeliveryEpoch d) \<and> live_epoch r' = live_epoch r"
proof -
  define r1 where "r1 = reevaluate now r"
  obtain used where u: "owner_inv r" "slots_inv r" "unused_epoch used r"
    using steps_runtime_inv [of ops] assms(1) by (auto simp: runtime_inv_def split: prod.splits)
  have i: "owner_inv r1" "live_epoch r1 = live_epoch r"
    using reevaluate_inv [OF u] by (simp_all add: r1_def)
  have d: "d = rt_currentEvent r1" "dl_Disposition d = DeliveryFrame" "rt_hasEvent r1"
    "live_epoch r' = live_epoch r1"
    using assms(2) by (auto simp: runtime_Claim_def r1_def Let_def set_lease_def live_epoch_def
        split: if_splits)
  note ev = owner_inv_event [OF i(1) d(3)]
  have "\<not> rt_stopping r1" using ev(4) d(1,2) by auto
  moreover have "rt_hasOwner r1" by (rule ev(1))
  ultimately have w: "selectWinner now r = Some (rt_owner r1)"
    using reevaluate_owner [of now r] by (simp add: r1_def)
  have "d = frame_event (rt_owner r1) (rt_ownerDeliveryEpoch r1)"
    using i(1) ev(1) \<open>\<not> rt_stopping r1\<close> d(1) by (simp add: owner_inv_def)
  then have "d = frame_event (rt_owner r1) (dl_DeliveryEpoch d)" by (simp add: frame_event_def)
  then show ?thesis using selectWinner_is_winner [OF w] selectWinner_valid [OF u(2) w] i(2) d(4)
    by (auto simp: Publication_Valid_def)
qed

definition demo_publication :: Publication where
  "demo_publication = \<lparr>pu_Origin = 3, pu_Frame = demo_frame\<rparr>"

definition demo_runtime_ops :: "runtime_op list" where
  "demo_runtime_ops = [RPublish demo_publication, RAcquire 1 1]"

theorem claimed_frame_wins_witness:
  "is_winner 1000000 (slots (fst (runtime_steps demo_runtime_ops))) demo_publication \<and>
   fst (runtime_Claim 1000000 (Some 0) (fst (runtime_steps demo_runtime_ops))) =
     (frame_event demo_publication 1, DeliveryFrame, 1)"
proof -
  let ?r = "fst (runtime_steps demo_runtime_ops)"
  have c: "fst (runtime_Claim 1000000 (Some 0) ?r) = (frame_event demo_publication 1, DeliveryFrame, 1)"
    by code_simp
  have "runtime_Claim 1000000 (Some 0) ?r = ((frame_event demo_publication 1, DeliveryFrame, 1),
      snd (runtime_Claim 1000000 (Some 0) ?r))"
    using c by (metis prod.collapse)
  from claimed_frame_wins [OF refl this] obtain p where p: "is_winner 1000000 (slots ?r) p"
    "frame_event demo_publication 1 = frame_event p (dl_DeliveryEpoch (frame_event demo_publication 1))"
    by blast
  have "p = demo_publication" using p(2) by (cases p) (simp add: frame_event_def demo_publication_def)
  then show ?thesis using p(1) c by simp
qed




text \<open>C31: The watermark of a publisher slot never goes back: over any further operations the
  frame of a slot is kept or replaced by a frame that is newer in lease order, so that
  after a stop only a later lease is heard.\<close>

theorem slot_watermark:
  assumes "ps_hasValue (rt_slot origin (fst (runtime_steps ops)))"
  shows "ps_hasValue (rt_slot origin (fst (runtime_steps (ops @ ops2)))) \<and>
    (let old = pu_Frame (ps_publication (rt_slot origin (fst (runtime_steps ops))));
         new = pu_Frame (ps_publication (rt_slot origin (fst (runtime_steps (ops @ ops2)))))
     in new = old \<or> newerRuntimeFrame new old)"
proof -
  have "kept_or_newer (rt_slot origin (fst s)) (rt_slot origin (fst (fold runtime_step ops2 s)))" for s
  proof (induction ops2 arbitrary: s)
    case Nil
    then show ?case by (simp add: kept_or_newer_refl)
  next
    case (Cons op ops2)
    show ?case using kept_or_newer_trans [OF step_slot Cons.IH] by simp
  qed
  from this [of "runtime_steps ops"] show ?thesis
    using assms by (simp add: runtime_steps_def kept_or_newer_def Let_def)
qed

theorem slot_watermark_witness:
  "pu_Frame (ps_publication (rt_slot 3 (fst (runtime_steps (demo_runtime_ops @
     [RPublish demo_publication]))))) = demo_frame"
proof -
  have v: "ps_hasValue (rt_slot 3 (fst (runtime_steps demo_runtime_ops)))"
    "pu_Frame (ps_publication (rt_slot 3 (fst (runtime_steps demo_runtime_ops)))) = demo_frame"
    by code_simp+
  have "\<not> newerRuntimeFrame (pu_Frame (ps_publication (rt_slot 3 (fst (runtime_steps (demo_runtime_ops @
     [RPublish demo_publication])))))) demo_frame" by code_simp
  then show ?thesis using slot_watermark [OF v(1), of "[RPublish demo_publication]"] v(2)
    by (simp add: Let_def)
qed

end
