(* ===== verification/Feedback_Clock.thy ===== *)
theory Feedback_Clock
  imports Go_Prelude
begin

text \<open>
  The conversion of the Windows performance counter to microseconds
  (\<^verbatim>\<open>controllerfeedback/clock.go\<close>). \<^verbatim>\<open>bits.Mul64\<close> and \<^verbatim>\<open>bits.Div64\<close> compute with the full 128-bit
  product, which the model writes with natural numbers; the final sum is a 64-bit sum.
\<close>

definition microsecondsPerSecond :: u64 where "microsecondsPerSecond = 1000000"

definition MaxUint64 :: u64 where "MaxUint64 = 18446744073709551615"

definition qpcToMicroseconds :: "u64 \<Rightarrow> u64 \<Rightarrow> u64 \<times> bool" where
  "qpcToMicroseconds counter frequency =
     (if frequency = 0 then (0, False)
      else let whole = counter div frequency in
        if whole > MaxUint64 div microsecondsPerSecond then (0, False)
        else let remainder = counter mod frequency;
                 fraction = (of_nat (unat remainder * unat microsecondsPerSecond div unat frequency) :: u64)
             in (whole * microsecondsPerSecond + fraction, True))"

lemma scaled_quotient:
  fixes c f k :: nat
  assumes "0 < f"
  shows "c div f * k + c mod f * k div f = c * k div f"
proof -
  have "c * k = (c mod f + f * (c div f)) * k" by simp
  also have "\<dots> = c mod f * k + f * (c div f * k)" by (simp only: distrib_right mult.assoc)
  finally have "c * k div f = (c mod f * k + f * (c div f * k)) div f" by simp
  also have "\<dots> = c div f * k + c mod f * k div f" using assms by simp
  finally show ?thesis by simp
qed

lemma qpc_value:
  assumes "frequency \<noteq> 0" "unat counter div unat frequency \<le> 18446744073709"
  shows "qpcToMicroseconds counter frequency =
    (of_nat (unat counter * 1000000 div unat frequency), True)"
proof -
  let ?c = "unat counter" and ?f = "unat frequency"
  have f: "0 < ?f" using assms(1) by (simp add: unat_gt_0)
  have w: "unat (counter div frequency) = ?c div ?f" by (simp add: unat_div)
  have m: "unat (MaxUint64 div microsecondsPerSecond) = 18446744073709"
    by (simp add: MaxUint64_def microsecondsPerSecond_def unat_div)
  have "\<not> counter div frequency > MaxUint64 div microsecondsPerSecond"
    using assms(2) by (simp add: word_less_nat_alt w m)
  then have "qpcToMicroseconds counter frequency =
      (counter div frequency * 1000000 + of_nat (?c mod ?f * 1000000 div ?f), True)"
    using assms(1) by (simp add: qpcToMicroseconds_def Let_def microsecondsPerSecond_def unat_mod)
  also have "counter div frequency = of_nat (?c div ?f)"
    using arg_cong [OF w, of "of_nat :: nat \<Rightarrow> u64"] by simp
  also have "of_nat (?c div ?f) * (1000000 :: u64) + of_nat (?c mod ?f * 1000000 div ?f)
      = of_nat (?c div ?f * 1000000 + ?c mod ?f * 1000000 div ?f)" by simp
  also have "\<dots> = of_nat (?c * 1000000 div ?f)" unfolding scaled_quotient [OF f] ..
  finally show ?thesis .
qed

lemma qpc_accepted:
  assumes "qpcToMicroseconds counter frequency = (v, True)"
  shows "frequency \<noteq> 0" "unat counter div unat frequency \<le> 18446744073709"
    "v = of_nat (unat counter * 1000000 div unat frequency)"
proof -
  have m: "unat (MaxUint64 div microsecondsPerSecond) = 18446744073709"
    by (simp add: MaxUint64_def microsecondsPerSecond_def unat_div)
  show f: "frequency \<noteq> 0" using assms by (auto simp: qpcToMicroseconds_def)
  have "\<not> counter div frequency > MaxUint64 div microsecondsPerSecond"
    using assms by (auto simp: qpcToMicroseconds_def Let_def split: if_splits)
  then show w: "unat counter div unat frequency \<le> 18446744073709"
    by (simp only: word_less_nat_alt m not_less) (simp only: unat_div)
  show "v = of_nat (unat counter * 1000000 div unat frequency)"
    using qpc_value [OF f w] assms by simp
qed

lemma microseconds_fit:
  fixes counter frequency :: u64
  assumes "1000000 \<le> unat frequency"
  shows "unat counter * 1000000 div unat frequency < 2 ^ 64"
    "unat counter div unat frequency \<le> 18446744073709"
proof -
  let ?c = "unat counter" and ?f = "unat frequency"
  have c: "?c < 2 ^ 64" using unsigned_less [where ?'a = nat, of counter] by simp
  have "?c div ?f \<le> ?c div 1000000" using assms by (simp add: div_le_mono2)
  also have "\<dots> \<le> 18446744073709" using c by simp
  finally show "?c div ?f \<le> 18446744073709" .
  have "?c * 1000000 div ?f \<le> ?c * ?f div ?f" by (rule div_le_mono) (use assms in simp)
  also have "\<dots> = ?c" using assms by simp
  finally show "?c * 1000000 div ?f < 2 ^ 64" using c by linarith
qed

lemma slow_counter_fits:
  fixes c f :: nat
  assumes "0 < f" "f < 3" "c div f \<le> 18446744073709"
  shows "c * 1000000 div f < 2 ^ 64"
proof -
  have "f = 1 \<or> f = 2" using assms by linarith
  then show ?thesis using assms(3) by (elim disjE) simp_all
qed

text \<open>The largest counter the range check accepts at a frequency.\<close>

lemma largest_accepted:
  fixes f :: nat
  assumes "3 \<le> f" "f < 1000000"
  defines "c \<equiv> f * 18446744073709 + (f - 1)"
  shows "c < 2 ^ 64" "c div f = 18446744073709" "2 ^ 64 \<le> c * 1000000 div f"
proof -
  have f: "0 < f" "f - 1 < f" using assms by simp_all
  show "c < 2 ^ 64" using assms by simp
  show d: "c div f = 18446744073709" unfolding c_def div_mult_self4 [OF less_imp_neq [OF f(1), symmetric]]
    using f(2) by simp
  have m: "c mod f = f - 1" unfolding c_def mod_mult_self4 using f(2) by simp
  have "666666 * f \<le> (f - 1) * 1000000" using assms(1) by simp
  then have "666666 \<le> (f - 1) * 1000000 div f" using f(1) by (simp add: less_eq_div_iff_mult_less_eq)
  then show "2 ^ 64 \<le> c * 1000000 div f" using scaled_quotient [OF f(1), of c 1000000] d m by simp
qed

text \<open>C33: For every counter frequency of at least one million ticks per second the conversion is
  exact: it returns the number of whole microseconds whenever that number fits in 64 bits,
  and it never wraps.\<close>

theorem qpcToMicroseconds_exact:
  assumes "1000000 \<le> unat frequency"
  shows "qpcToMicroseconds counter frequency =
      (of_nat (unat counter * 1000000 div unat frequency), True) \<and>
    unat counter * 1000000 div unat frequency < 2 ^ 64"
proof -
  have "frequency \<noteq> 0" using assms by auto
  then show ?thesis using qpc_value microseconds_fit [OF assms] by blast
qed

theorem qpcToMicroseconds_exact_witness:
  "qpcToMicroseconds 12345678 10000000 = (1234567, True)"
  using qpcToMicroseconds_exact [of 10000000 12345678] by simp

text \<open>C34: The conversion reports a wrong time as valid exactly at the frequencies from 3 to
  999999 ticks per second: at each of these some counter passes the range check although its
  microseconds do not fit in 64 bits, so that the last addition wraps; at every other frequency
  each value it returns as valid is the number of whole microseconds.\<close>

theorem qpcToMicroseconds_wraps:
  "(\<exists>counter v. qpcToMicroseconds counter frequency = (v, True) \<and>
      unat v \<noteq> unat counter * 1000000 div unat frequency)
   \<longleftrightarrow> 3 \<le> unat frequency \<and> unat frequency < 1000000"
proof
  assume "\<exists>counter v. qpcToMicroseconds counter frequency = (v, True) \<and>
      unat v \<noteq> unat counter * 1000000 div unat frequency"
  then obtain counter v where q: "qpcToMicroseconds counter frequency = (v, True)"
    "unat v \<noteq> unat counter * 1000000 div unat frequency" by blast
  note a = qpc_accepted [OF q(1)]
  have big: "\<not> unat counter * 1000000 div unat frequency < 2 ^ 64"
    using q(2) a(3) unat_of_nat_less [where ?'a = 64] by auto
  have "0 < unat frequency" using a(1) by (simp add: unat_gt_0)
  then show "3 \<le> unat frequency \<and> unat frequency < 1000000"
    using big slow_counter_fits [OF _ _ a(2)] microseconds_fit(1) by (meson not_less)
next
  assume f: "3 \<le> unat frequency \<and> unat frequency < 1000000"
  define n where "n = unat frequency * 18446744073709 + (unat frequency - 1)"
  note l = largest_accepted [OF conjunct1 [OF f] conjunct2 [OF f], folded n_def]
  have u: "unat (of_nat n :: u64) = n" using l(1) by (intro unat_of_nat_less) simp
  have "frequency \<noteq> 0" using f by auto
  then have q: "qpcToMicroseconds (of_nat n) frequency =
      (of_nat (n * 1000000 div unat frequency), True)"
    using qpc_value [of frequency "of_nat n"] l(2) u by simp
  moreover have "unat (of_nat (n * 1000000 div unat frequency) :: u64) \<noteq> n * 1000000 div unat frequency"
    using l(3) unsigned_less [where ?'a = nat, of "of_nat (n * 1000000 div unat frequency) :: u64"]
    by (simp only: not_less [symmetric]) auto
  ultimately show "\<exists>counter v. qpcToMicroseconds counter frequency = (v, True) \<and>
      unat v \<noteq> unat counter * 1000000 div unat frequency" using u by metis
qed
end
