(* ===== verification/Export_Identity.thy ===== *)
theory Export_Identity
  imports Usbip_Wire
begin

text \<open>
  The identities of USB/IP exports (\<^verbatim>\<open>usbip/export_identity.go\<close>): the numeric name
  \<^verbatim>\<open>bus-device\<close> in decimal, the alias of a production Xbox One export (\<^verbatim>\<open>x1-\<close> and 26 characters
  of lower-case base 32), and the test that reads an identity back from the 32-byte field
  of the export metadata. Go strings are byte lists.
\<close>

section \<open>Strings\<close>

definition go_string :: "string \<Rightarrow> bytes" where
  "go_string s = map of_char s"

text \<open>\<^verbatim>\<open>%d\<close> of an unsigned number.\<close>

fun decimal :: "nat \<Rightarrow> bytes" where
  "decimal n = (if n < 10 then [0x30 + of_nat n]
     else decimal (n div 10) @ [0x30 + of_nat (n mod 10)])"

declare decimal.simps [simp del]

definition numeric_bus_id :: "u32 \<Rightarrow> u32 \<Rightarrow> bytes" where
  "numeric_bus_id busID devID = decimal (unat busID) @ [0x2D] @ decimal (unat devID)"

section \<open>Base 32\<close>

fun be_nat :: "bytes \<Rightarrow> nat" where
  "be_nat [] = 0"
| "be_nat (b # bs) = unat b * 256 ^ length bs + be_nat bs"

text \<open>The digits of \<open>v\<close> in base 32, most significant first.\<close>

fun digits32 :: "nat \<Rightarrow> nat \<Rightarrow> nat list" where
  "digits32 0 v = []"
| "digits32 (Suc n) v = digits32 n (v div 32) @ [v mod 32]"

text \<open>The lower-case alphabet: \<^verbatim>\<open>a\<close> to \<^verbatim>\<open>z\<close>, then \<^verbatim>\<open>2\<close> to \<^verbatim>\<open>7\<close>.\<close>

definition base32_char :: "nat \<Rightarrow> u8" where
  "base32_char d = (if d < 26 then 0x61 + of_nat d else 0x32 + of_nat (d - 26))"

text \<open>Unpadded base 32 of 16 bytes: 128 bits and two zero bits in 26 digits.\<close>

definition base32_encode16 :: "bytes \<Rightarrow> bytes" where
  "base32_encode16 entropy = map base32_char (digits32 26 (be_nat entropy * 4))"

definition ProductionXboxOneBusIDLength :: nat where "ProductionXboxOneBusIDLength = 29"

definition productionXboxOneBusIDFromEntropy :: "bytes \<Rightarrow> bytes" where
  "productionXboxOneBusIDFromEntropy entropy = go_string ''x1-'' @ base32_encode16 entropy"

definition ValidProductionXboxOneBusID :: "bytes \<Rightarrow> bool" where
  "ValidProductionXboxOneBusID value =
     (if length value \<noteq> ProductionXboxOneBusIDLength \<or> take 3 value \<noteq> go_string ''x1-'' then False
      else if \<exists>v \<in> set (drop 3 value). (v < 0x61 \<or> v > 0x7A) \<and> (v < 0x32 \<or> v > 0x37) then False
      else last value \<in> set (go_string ''aeimquy4''))"

definition ExportBusID :: "ExportMeta \<Rightarrow> bytes option" where
  "ExportBusID meta =
     (let value = takeWhile (\<lambda>b. b \<noteq> 0) (em_USBBusID meta) in
      if value = [] \<or> length value = length (em_USBBusID meta) then None
      else if \<exists>b \<in> set (drop (length value) (em_USBBusID meta)). b \<noteq> 0 then None
      else if ValidProductionXboxOneBusID value \<or>
        value = numeric_bus_id (em_BusID meta) (em_DevID meta) then Some value
      else None)"

section \<open>Lemmas\<close>

lemma decimal_digits: "b \<in> set (decimal n) \<Longrightarrow> 0x30 \<le> b \<and> b \<le> 0x39"
proof (induction n rule: decimal.induct)
  case (1 n)
  have d: "0x30 \<le> (0x30 + of_nat d :: u8) \<and> (0x30 + of_nat d :: u8) \<le> 0x39" if "d < 10" for d
    using that by (simp add: word_le_nat_alt unat_word_ariths unat_of_nat)
  show ?case
  proof (cases "n < 10")
    case True
    then show ?thesis using 1(2) d by (simp add: decimal.simps [of n])
  next
    case False
    then have "b \<in> set (decimal (n div 10)) \<or> b = 0x30 + of_nat (n mod 10)"
      using 1(2) by (auto simp: decimal.simps [of n])
    then show ?thesis using 1(1) [OF False] d [of "n mod 10"] by auto
  qed
qed

lemma decimal_not: "(0 :: u8) \<notin> set (decimal n)" "(0x2D :: u8) \<notin> set (decimal n)"
  by (auto dest: decimal_digits)

lemma decimal_nonempty: "decimal n \<noteq> []"
  by (simp add: decimal.simps [of n])

fun from_decimal :: "bytes \<Rightarrow> nat" where
  "from_decimal bs = foldl (\<lambda>v b. v * 10 + (unat b - 0x30)) 0 bs"

lemma from_decimal_decimal: "from_decimal (decimal n) = n"
proof (induction n rule: decimal.induct)
  case (1 n)
  have d: "unat (0x30 + of_nat d :: u8) - 0x30 = d" if "d < 10" for d
    using that by (simp add: unat_word_ariths unat_of_nat)
  show ?case
  proof (cases "n < 10")
    case True
    then show ?thesis using d by (simp add: decimal.simps [of n])
  next
    case False
    then show ?thesis using 1 [OF False] d [of "n mod 10"] by (simp add: decimal.simps [of n])
  qed
qed

lemma decimal_inj: "decimal m = decimal n \<longleftrightarrow> m = n"
  using from_decimal_decimal by metis

lemma length_decimal: "n < 10 ^ k \<Longrightarrow> 0 < k \<Longrightarrow> length (decimal n) \<le> k"
proof (induction k arbitrary: n)
  case 0
  then show ?case by simp
next
  case (Suc k)
  show ?case
  proof (cases "n < 10")
    case True
    then show ?thesis by (simp add: decimal.simps [of n])
  next
    case False
    then have "0 < k" using Suc.prems(1) by (cases k) auto
    moreover have "n div 10 < 10 ^ k" using Suc.prems(1) by (simp add: less_mult_imp_div_less mult.commute)
    ultimately show ?thesis using Suc.IH False by (simp add: decimal.simps [of n])
  qed
qed

lemma length_decimal_u32: "length (decimal (unat (v :: u32))) \<le> 10"
  by (rule length_decimal) (use unsigned_less [where ?'a = nat, of v] in simp_all)

lemma numeric_bus_id_inj:
  "numeric_bus_id b d = numeric_bus_id b' d' \<longleftrightarrow> b = b' \<and> d = d'"
proof
  assume e: "numeric_bus_id b d = numeric_bus_id b' d'"
  have s1: "takeWhile (\<lambda>x. x \<noteq> 0x2D) (numeric_bus_id u v) = decimal (unat u)" for u v
    unfolding numeric_bus_id_def using decimal_not(2) [of "unat u"]
    by (subst takeWhile_append2) auto
  have s2: "drop (Suc (length (decimal (unat u)))) (numeric_bus_id u v) = decimal (unat v)" for u v
    by (simp add: numeric_bus_id_def)
  have "decimal (unat b) = decimal (unat b')" using e s1 by metis
  moreover from this have "decimal (unat d) = decimal (unat d')" using e s2 by metis
  ultimately show "b = b' \<and> d = d'" by (simp add: decimal_inj word_unat_eq_iff)
qed simp

lemma numeric_bus_id_text:
  "(0 :: u8) \<notin> set (numeric_bus_id b d)" "numeric_bus_id b d \<noteq> []"
  "length (numeric_bus_id b d) \<le> 21"
  using decimal_not(1) length_decimal_u32 [of b] length_decimal_u32 [of d]
  by (auto simp: numeric_bus_id_def)


lemma takeWhile_padded:
  assumes "(0 :: u8) \<notin> set s" "length s < n"
  shows "takeWhile (\<lambda>b. b \<noteq> 0) (copy_into (zeros n) s) = s"
    "drop (length s) (copy_into (zeros n) s) = zeros (n - length s)"
proof -
  have c: "copy_into (zeros n) s = s @ zeros (n - length s)"
    using assms(2) by (simp add: copy_into_short)
  have "zeros (n - length s) = 0 # zeros (n - length s - 1)"
    using assms(2) by (cases "n - length s") auto
  then show "takeWhile (\<lambda>b. b \<noteq> 0) (copy_into (zeros n) s) = s"
    unfolding c using assms(1) by (subst takeWhile_append2) auto
  show "drop (length s) (copy_into (zeros n) s) = zeros (n - length s)" unfolding c by simp
qed

lemma ExportBusID_padded:
  assumes "(0 :: u8) \<notin> set s" "s \<noteq> []" "length s < 32"
    and "em_USBBusID meta = copy_into (zeros 32) s"
  shows "ExportBusID meta =
    (if ValidProductionXboxOneBusID s \<or> s = numeric_bus_id (em_BusID meta) (em_DevID meta)
     then Some s else None)"
  using takeWhile_padded [OF assms(1,3)] assms(2-4)
  by (auto simp: ExportBusID_def Let_def)

lemma length_digits32 [simp]: "length (digits32 n v) = n"
  by (induction n arbitrary: v) auto

lemma digits32_less: "d \<in> set (digits32 n v) \<Longrightarrow> d < 32"
  by (induction n arbitrary: v) auto

lemma digits32_inj: "v < 32 ^ n \<Longrightarrow> w < 32 ^ n \<Longrightarrow> digits32 n v = digits32 n w \<Longrightarrow> v = w"
proof (induction n arbitrary: v w)
  case 0
  then show ?case by simp
next
  case (Suc n)
  have "v div 32 < 32 ^ n" "w div 32 < 32 ^ n"
    using Suc.prems(1,2) by (simp_all add: less_mult_imp_div_less mult.commute)
  moreover have "digits32 n (v div 32) = digits32 n (w div 32)" "v mod 32 = w mod 32"
    using Suc.prems(3) by simp_all
  ultimately have "v div 32 = w div 32" "v mod 32 = w mod 32" using Suc.IH by blast+
  then show ?case by (metis div_mult_mod_eq)
qed

lemma base32_char_inj: "d < 32 \<Longrightarrow> e < 32 \<Longrightarrow> base32_char d = base32_char e \<Longrightarrow> d = e"
proof -
  have "distinct (map base32_char [0..<32])" by code_simp
  then have "inj_on base32_char {0..<32}" by (simp add: distinct_map)
  then show "d < 32 \<Longrightarrow> e < 32 \<Longrightarrow> base32_char d = base32_char e \<Longrightarrow> d = e"
    by (auto simp: inj_on_def)
qed

lemma base32_char_range:
  "d < 32 \<Longrightarrow> \<not> ((base32_char d < 0x61 \<or> base32_char d > 0x7A) \<and>
     (base32_char d < 0x32 \<or> base32_char d > 0x37)) \<and> base32_char d \<noteq> 0"
proof -
  have "list_all (\<lambda>d. \<not> ((base32_char d < 0x61 \<or> base32_char d > 0x7A) \<and>
     (base32_char d < 0x32 \<or> base32_char d > 0x37)) \<and> base32_char d \<noteq> 0) [0..<32]" by code_simp
  then show "d < 32 \<Longrightarrow> ?thesis" by (simp add: list_all_iff)
qed

lemma be_nat_less: "be_nat bs < 256 ^ length bs"
proof (induction bs)
  case (Cons b bs)
  have "unat b \<le> 255" using unsigned_less [where ?'a = nat, of b] by simp
  then have "unat b * 256 ^ length bs \<le> 255 * 256 ^ length bs" by (rule mult_right_mono) simp
  then have "unat b * 256 ^ length bs + be_nat bs < 256 * 256 ^ length bs"
    using Cons.IH by linarith
  then show ?case by simp
qed simp

lemma be_nat_inj: "length as = length bs \<Longrightarrow> be_nat as = be_nat bs \<Longrightarrow> as = bs"
proof (induction as bs rule: list_induct2)
  case (Cons a as b bs)
  define k where "k = (256 :: nat) ^ length bs"
  have l: "be_nat as < k" "be_nat bs < k" "0 < k"
    using be_nat_less [of as] be_nat_less [of bs] Cons.hyps by (simp_all add: k_def)
  have e: "unat a * k + be_nat as = unat b * k + be_nat bs" using Cons by (simp add: k_def)
  have "unat a = unat b" using arg_cong [OF e, of "\<lambda>x. x div k"] l by simp
  moreover from this have "be_nat as = be_nat bs" using e by simp
  ultimately show ?case using Cons.IH by (simp add: word_unat_eq_iff)
qed simp

lemma entropy_value:
  assumes "length entropy = 16"
  shows "be_nat entropy * 4 < 32 ^ 26"
  using be_nat_less [of entropy] assms by simp

lemma alias_shape:
  "length (productionXboxOneBusIDFromEntropy entropy) = 29"
  "take 3 (productionXboxOneBusIDFromEntropy entropy) = go_string ''x1-''"
  "drop 3 (productionXboxOneBusIDFromEntropy entropy) = base32_encode16 entropy"
  by (simp_all add: productionXboxOneBusIDFromEntropy_def base32_encode16_def go_string_def)

lemma base32_encode16_chars:
  assumes "c \<in> set (base32_encode16 entropy)"
  shows "\<not> ((c < 0x61 \<or> c > 0x7A) \<and> (c < 0x32 \<or> c > 0x37)) \<and> c \<noteq> 0"
proof -
  obtain d where d: "d \<in> set (digits32 26 (be_nat entropy * 4))" "c = base32_char d"
    using assms unfolding base32_encode16_def set_map by blast
  show ?thesis unfolding d(2) by (rule base32_char_range [OF digits32_less [OF d(1)]])
qed

lemma alias_last:
  "last (productionXboxOneBusIDFromEntropy entropy) \<in> set (go_string ''aeimquy4'')"
proof -
  let ?v = "be_nat entropy * 4"
  have "digits32 26 ?v = digits32 25 (?v div 32) @ [?v mod 32]"
    using digits32.simps(2) [of 25 ?v] by (simp del: digits32.simps)
  then have "last (productionXboxOneBusIDFromEntropy entropy) = base32_char (?v mod 32)"
    by (simp add: productionXboxOneBusIDFromEntropy_def base32_encode16_def del: digits32.simps)
  moreover have "?v mod 32 = be_nat entropy mod 8 * 4" by (simp add: mult_mod_left)
  moreover have "list_all (\<lambda>d. base32_char (d * 4) \<in> set (go_string ''aeimquy4'')) [0..<8]"
    by code_simp
  ultimately show ?thesis unfolding list_all_iff by (metis atLeastLessThan_iff le0 mod_less_divisor set_upt zero_less_numeral)
qed

lemma alias_valid: "ValidProductionXboxOneBusID (productionXboxOneBusIDFromEntropy entropy)"
  unfolding ValidProductionXboxOneBusID_def ProductionXboxOneBusIDLength_def alias_shape
  using base32_encode16_chars alias_last by (simp add: Bex_def)

lemma alias_inj:
  assumes "length e = 16" "length f = 16"
    "productionXboxOneBusIDFromEntropy e = productionXboxOneBusIDFromEntropy f"
  shows "e = f"
proof -
  have m: "map base32_char (digits32 26 (be_nat e * 4)) = map base32_char (digits32 26 (be_nat f * 4))"
    using arg_cong [OF assms(3), of "drop 3"] unfolding alias_shape base32_encode16_def .
  have "inj_on base32_char {0..<32}" using base32_char_inj by (auto simp: inj_on_def)
  then have i: "inj_on base32_char (set (digits32 26 (be_nat e * 4)) \<union> set (digits32 26 (be_nat f * 4)))"
    by (rule inj_on_subset) (use digits32_less in fastforce)
  have "digits32 26 (be_nat e * 4) = digits32 26 (be_nat f * 4)" by (rule map_inj_on [OF m i])
  then have "be_nat e * 4 = be_nat f * 4"
    by (rule digits32_inj [OF entropy_value [OF assms(1)] entropy_value [OF assms(2)]])
  then show ?thesis using be_nat_inj [of e f] assms(1,2) by simp
qed

lemma alias_text: "(0 :: u8) \<notin> set (productionXboxOneBusIDFromEntropy entropy)"
  unfolding productionXboxOneBusIDFromEntropy_def using base32_encode16_chars
  by (auto simp: go_string_def)

text \<open>C32: The alias generated from 16 bytes of entropy is accepted as a production identity,
  two aliases are equal only for equal entropy, and an export whose metadata carries the
  alias reads it back as its identity.\<close>

theorem production_alias:
  assumes "length entropy = 16"
  shows "ValidProductionXboxOneBusID (productionXboxOneBusIDFromEntropy entropy) \<and>
    (\<forall>other. length other = 16 \<longrightarrow>
       productionXboxOneBusIDFromEntropy other = productionXboxOneBusIDFromEntropy entropy \<longrightarrow>
       other = entropy) \<and>
    (em_USBBusID meta = copy_into (zeros 32) (productionXboxOneBusIDFromEntropy entropy) \<longrightarrow>
       ExportBusID meta = Some (productionXboxOneBusIDFromEntropy entropy))"
proof -
  let ?s = "productionXboxOneBusIDFromEntropy entropy"
  have "?s \<noteq> []" "length ?s < 32" using alias_shape(1) [of entropy] by auto
  then have "em_USBBusID meta = copy_into (zeros 32) ?s \<longrightarrow> ExportBusID meta = Some ?s"
    using ExportBusID_padded [OF alias_text] alias_valid by simp
  then show ?thesis using alias_valid alias_inj assms by blast
qed

theorem production_alias_witness:
  "ValidProductionXboxOneBusID (productionXboxOneBusIDFromEntropy (replicate 16 0xA5)) \<and>
   \<not> ValidProductionXboxOneBusID (go_string ''x1-aaaaaaaaaaaaaaaaaaaaaaaaab'')"
proof -
  have "\<not> ValidProductionXboxOneBusID (go_string ''x1-aaaaaaaaaaaaaaaaaaaaaaaaab'')" by code_simp
  then show ?thesis using production_alias [of "replicate 16 0xA5"] by simp
qed

end
