(* ===== verification/Virtual_Bus.thy ===== *)
theory Virtual_Bus
  imports Export_Identity
begin

text \<open>
  The virtual USB bus of \<^verbatim>\<open>virtualbus/virtualbus.go\<close>: registrations with addresses and export
  names, publication, exact-incarnation snapshots, operation leases, removal in two critical
  sections, and closing. A bus is one record; the lifecycles that registrations share with
  snapshots are allocated objects, kept in a list, and a pointer to one is its index.
  Contexts are numbers, with the set of the cancelled ones. Every operation is what the
  source does in one critical section of the bus mutex; calls on a nil bus are left out.
\<close>

section \<open>Devices and snapshots\<close>

text \<open>A device value as \<^verbatim>\<open>reflect\<close> sees it: the nil interface, a nil pointer of some type, a
  comparable value, or a value that is not comparable. The first number is the dynamic type,
  the second the identity. Comparability belongs to the value, so one type may have both.\<close>

datatype usb_device = NilDevice | NilPointer nat | Device nat nat | Incomparable nat nat

datatype bus_error =
  ErrDeviceNil | ErrNotComparable | ErrRangeEmpty | ErrBusClosed | ErrTokenExhausted
| ErrDuplicateDevice | ErrAliasRegistered | ErrNoAddress | ErrInvalidAlias
| ErrInvalidRegistration | ErrInvalidIdentity | ErrDeviceNotFound | ErrInvalidContext
| ErrBusAllocated

record DeviceMeta =
  dm_Dev :: usb_device
  dm_Meta :: ExportMeta
  dm_Bus :: "nat option"
  dm_Context :: "nat option"
  dm_RegistrationToken :: u64
  dm_lifecycle :: "nat option"

record busDevice =
  bd_dev :: usb_device
  bd_meta :: ExportMeta
  bd_ctx :: nat
  bd_registrationToken :: u64
  bd_lifecycle :: nat
  bd_published :: bool

record registrationLifecycle =
  lc_bus :: nat
  lc_dev :: usb_device
  lc_meta :: ExportMeta
  lc_ctx :: nat
  lc_token :: u64
  lc_active :: bool
  lc_removing :: bool
  lc_mu :: nat             \<comment> \<open>read holders of the fence\<close>
  lc_removalDone :: bool   \<comment> \<open>the channel is closed\<close>

record VirtualBus =
  vb_addr :: nat
  vb_busID :: u32
  vb_nextRegistrationToken :: u64
  vb_allocatedDevIDs :: "u32 \<Rightarrow> bool"
  vb_devices :: "busDevice list"
  vb_emptyCtx :: "nat option"
  vb_closed :: bool
  vb_closeDone :: bool
  vb_lifecycles :: "registrationLifecycle list"   \<comment> \<open>the lifecycles allocated so far\<close>
  vb_nextCtx :: nat
  vb_cancelled :: "nat list"

definition fresh_bus :: "nat \<Rightarrow> u32 \<Rightarrow> VirtualBus" where
  "fresh_bus addr busID = \<lparr>vb_addr = addr, vb_busID = busID, vb_nextRegistrationToken = 0,
     vb_allocatedDevIDs = (\<lambda>_. False), vb_devices = [], vb_emptyCtx = None, vb_closed = False,
     vb_closeDone = False, vb_lifecycles = [], vb_nextCtx = 0, vb_cancelled = []\<rparr>"

text \<open>\<open>New\<close> and \<open>NewWithBusID\<close> on the global table of allocated bus numbers.\<close>

type_synonym bus_table = "u32 \<Rightarrow> bool"

definition virtualbus_New :: "nat \<Rightarrow> u32 \<Rightarrow> bus_table \<Rightarrow> VirtualBus \<times> bus_table" where
  "virtualbus_New addr busID allocatedBusIds = (fresh_bus addr busID, allocatedBusIds(busID := True))"

definition NewWithBusID ::
    "nat \<Rightarrow> u32 \<Rightarrow> bus_table \<Rightarrow> (bus_error + VirtualBus) \<times> bus_table" where
  "NewWithBusID addr busID allocatedBusIds =
     (if allocatedBusIds busID then (Inl ErrBusAllocated, allocatedBusIds)
      else (Inr (fresh_bus addr busID), allocatedBusIds(busID := True)))"

definition lifecycle :: "VirtualBus \<Rightarrow> nat \<Rightarrow> registrationLifecycle" where
  "lifecycle vb i = vb_lifecycles vb ! i"

definition set_lifecycle :: "nat \<Rightarrow> registrationLifecycle \<Rightarrow> VirtualBus \<Rightarrow> VirtualBus" where
  "set_lifecycle i l vb = vb\<lparr>vb_lifecycles := (vb_lifecycles vb)[i := l]\<rparr>"

definition deviceMetaLocked :: "VirtualBus \<Rightarrow> busDevice \<Rightarrow> DeviceMeta" where
  "deviceMetaLocked vb d = \<lparr>dm_Dev = bd_dev d, dm_Meta = bd_meta d, dm_Bus = Some (vb_addr vb),
     dm_Context = Some (bd_ctx d), dm_RegistrationToken = bd_registrationToken d,
     dm_lifecycle = Some (bd_lifecycle d)\<rparr>"

definition registrationActiveLocked :: "VirtualBus \<Rightarrow> busDevice \<Rightarrow> bool" where
  "registrationActiveLocked vb d \<longleftrightarrow>
     lc_active (lifecycle vb (bd_lifecycle d)) \<and> \<not> lc_removing (lifecycle vb (bd_lifecycle d))"

definition deviceDiscoverableLocked :: "VirtualBus \<Rightarrow> busDevice \<Rightarrow> bool" where
  "deviceDiscoverableLocked vb d \<longleftrightarrow> bd_published d \<and> registrationActiveLocked vb d"

definition validateDeviceIdentity :: "usb_device \<Rightarrow> bus_error option" where
  "validateDeviceIdentity dev =
     (case dev of NilDevice \<Rightarrow> Some ErrDeviceNil
      | NilPointer _ \<Rightarrow> Some ErrDeviceNil
      | Incomparable _ _ \<Rightarrow> Some ErrNotComparable
      | Device _ _ \<Rightarrow> None)"

text \<open>A lifecycle pointer is an index of an allocated lifecycle; any other number is no pointer.\<close>

definition registrationIdentityMatchesLocked :: "VirtualBus \<Rightarrow> DeviceMeta \<Rightarrow> bool" where
  "registrationIdentityMatchesLocked vb s \<longleftrightarrow>
     (case dm_lifecycle s of None \<Rightarrow> False
      | Some i \<Rightarrow> i < length (vb_lifecycles vb) \<and> lc_bus (lifecycle vb i) = vb_addr vb \<and>
          lc_dev (lifecycle vb i) = dm_Dev s \<and> lc_meta (lifecycle vb i) = dm_Meta s \<and>
          Some (lc_ctx (lifecycle vb i)) = dm_Context s \<and>
          lc_token (lifecycle vb i) = dm_RegistrationToken s)"

definition authenticatesRegistrationLocked :: "VirtualBus \<Rightarrow> DeviceMeta \<Rightarrow> bool" where
  "authenticatesRegistrationLocked vb s \<longleftrightarrow>
     registrationIdentityMatchesLocked vb s \<and> lc_active (lifecycle vb (the (dm_lifecycle s))) \<and>
     \<not> lc_removing (lifecycle vb (the (dm_lifecycle s)))"

fun dynamic_type :: "usb_device \<Rightarrow> nat option" where
  "dynamic_type NilDevice = None"
| "dynamic_type (NilPointer t) = Some t"
| "dynamic_type (Device t _) = Some t"
| "dynamic_type (Incomparable t _) = Some t"

definition registrationSnapshotDeviceIdentitySafe :: "VirtualBus \<Rightarrow> DeviceMeta \<Rightarrow> bool" where
  "registrationSnapshotDeviceIdentitySafe vb s \<longleftrightarrow>
     (case dm_lifecycle s of None \<Rightarrow> False
      | Some i \<Rightarrow> i < length (vb_lifecycles vb) \<and>
          dm_Dev s \<noteq> NilDevice \<and> lc_dev (lifecycle vb i) \<noteq> NilDevice \<and>
          dynamic_type (dm_Dev s) = dynamic_type (lc_dev (lifecycle vb i)) \<and>
          (case dm_Dev s of Device _ _ \<Rightarrow> True | _ \<Rightarrow> False))"

definition snapshot_present :: "VirtualBus \<Rightarrow> DeviceMeta \<Rightarrow> bool" where
  "snapshot_present vb s \<longleftrightarrow> dm_Bus s = Some (vb_addr vb) \<and> dm_Dev s \<noteq> NilDevice \<and>
     dm_Context s \<noteq> None \<and> dm_RegistrationToken s \<noteq> 0"

section \<open>Adding\<close>

lemma unat_pred_less: "(x :: u32) \<noteq> 0 \<Longrightarrow> unat (x - 1) < unat x"
  by (simp add: unat_minus_one unat_gt_0)

function nextAvailableDeviceID :: "(u32 \<Rightarrow> bool) \<Rightarrow> u32 \<Rightarrow> u32 \<Rightarrow> u32 option" where
  "nextAvailableDeviceID allocated maxDeviceID deviceID =
     (if \<not> allocated deviceID then Some deviceID
      else if deviceID = maxDeviceID then None
      else nextAvailableDeviceID allocated maxDeviceID (deviceID + 1))"
  by pat_completeness auto

termination nextAvailableDeviceID
proof (relation "measure (\<lambda>(allocated, maxDeviceID, deviceID). unat (maxDeviceID - deviceID))", simp)
  fix allocated and maxDeviceID deviceID :: u32
  assume "deviceID \<noteq> maxDeviceID"
  then have "maxDeviceID - deviceID \<noteq> 0" by simp
  then have "unat (maxDeviceID - deviceID - 1) < unat (maxDeviceID - deviceID)"
    by (rule unat_pred_less)
  then show "((allocated, maxDeviceID, deviceID + 1), allocated, maxDeviceID, deviceID)
      \<in> measure (\<lambda>(allocated, maxDeviceID, deviceID). unat (maxDeviceID - deviceID))"
    by (simp add: diff_diff_eq)
qed

declare nextAvailableDeviceID.simps [simp del]

definition nextAvailableDeviceIDLocked :: "VirtualBus \<Rightarrow> u32 \<Rightarrow> u32 option" where
  "nextAvailableDeviceIDLocked vb maxDeviceID =
     nextAvailableDeviceID (vb_allocatedDevIDs vb) maxDeviceID 1"

definition basepath :: bytes where
  "basepath = go_string ''/sys/devices/pci0000:00/0000:00:08.1/0000:00:04:00.3/usb''"

definition export_meta :: "u32 \<Rightarrow> u32 \<Rightarrow> bytes \<Rightarrow> ExportMeta" where
  "export_meta busID devID exportBusID =
     (let busDevID = (if exportBusID \<noteq> [] then exportBusID else numeric_bus_id busID devID);
          path = basepath @ decimal (unat busID) @ go_string ''/'' @ busDevID
      in \<lparr>em_Path = copy_into (zeros 256) path, em_USBBusID = copy_into (zeros 32) busDevID,
          em_BusID = busID, em_DevID = devID\<rparr>)"

fun duplicate_error :: "usb_device \<Rightarrow> bytes \<Rightarrow> busDevice list \<Rightarrow> bus_error option" where
  "duplicate_error dev exportBusID [] = None"
| "duplicate_error dev exportBusID (d # ds) =
     (if bd_dev d = dev then Some ErrDuplicateDevice
      else if exportBusID \<noteq> [] \<and> ExportBusID (bd_meta d) = Some exportBusID
      then Some ErrAliasRegistered
      else duplicate_error dev exportBusID ds)"

definition cancel_empty :: "VirtualBus \<Rightarrow> VirtualBus" where
  "cancel_empty vb =
     (case vb_emptyCtx vb of None \<Rightarrow> vb
      | Some c \<Rightarrow> vb\<lparr>vb_cancelled := c # vb_cancelled vb, vb_emptyCtx := None\<rparr>)"

definition addRegistration ::
    "usb_device \<Rightarrow> bool \<Rightarrow> u32 \<Rightarrow> bytes \<Rightarrow> VirtualBus \<Rightarrow> (bus_error + DeviceMeta) \<times> VirtualBus" where
  "addRegistration dev published maxDeviceID exportBusID vb =
     (case validateDeviceIdentity dev of Some e \<Rightarrow> (Inl e, vb)
      | None \<Rightarrow>
        if maxDeviceID = 0 then (Inl ErrRangeEmpty, vb)
        else if vb_closed vb then (Inl ErrBusClosed, vb)
        else if vb_nextRegistrationToken vb = - 1 then (Inl ErrTokenExhausted, vb)
        else case duplicate_error dev exportBusID (vb_devices vb) of Some e \<Rightarrow> (Inl e, vb)
        | None \<Rightarrow>
          (case nextAvailableDeviceIDLocked vb maxDeviceID of
             None \<Rightarrow> (Inl ErrNoAddress, vb)
           | Some devID \<Rightarrow>
               let meta = export_meta (vb_busID vb) devID exportBusID;
                   ctx = vb_nextCtx vb;
                   token = vb_nextRegistrationToken vb + 1;
                   vb1 = cancel_empty (vb\<lparr>
                     vb_allocatedDevIDs := (vb_allocatedDevIDs vb)(devID := True),
                     vb_nextCtx := ctx + 1, vb_nextRegistrationToken := token\<rparr>);
                   i = length (vb_lifecycles vb1);
                   lc = \<lparr>lc_bus = vb_addr vb1, lc_dev = dev, lc_meta = meta, lc_ctx = ctx,
                     lc_token = token, lc_active = True, lc_removing = False,
                     lc_mu = 0, lc_removalDone = False\<rparr>;
                   d = \<lparr>bd_dev = dev, bd_meta = meta, bd_ctx = ctx, bd_registrationToken = token,
                     bd_lifecycle = i, bd_published = published\<rparr>
               in (Inr (deviceMetaLocked vb1 d),
                   vb1\<lparr>vb_devices := vb_devices vb1 @ [d],
                       vb_lifecycles := vb_lifecycles vb1 @ [lc]\<rparr>)))"

definition AddRegistration :: "usb_device \<Rightarrow> VirtualBus \<Rightarrow> (bus_error + DeviceMeta) \<times> VirtualBus" where
  "AddRegistration dev = addRegistration dev True (- 1) []"

definition AddProvisionalRegistrationThrough ::
    "usb_device \<Rightarrow> u32 \<Rightarrow> VirtualBus \<Rightarrow> (bus_error + DeviceMeta) \<times> VirtualBus" where
  "AddProvisionalRegistrationThrough dev maxDeviceID = addRegistration dev False maxDeviceID []"

definition AddProvisionalRegistrationWithXboxOneBusIDThrough ::
    "usb_device \<Rightarrow> u32 \<Rightarrow> bytes \<Rightarrow> VirtualBus \<Rightarrow> (bus_error + DeviceMeta) \<times> VirtualBus" where
  "AddProvisionalRegistrationWithXboxOneBusIDThrough dev maxDeviceID busID vb =
     (if \<not> ValidProductionXboxOneBusID busID then (Inl ErrInvalidAlias, vb)
      else addRegistration dev False maxDeviceID busID vb)"

definition CanAddRepresentableRegistration :: "u32 \<Rightarrow> VirtualBus \<Rightarrow> bool" where
  "CanAddRepresentableRegistration maxDeviceID vb =
     (if maxDeviceID = 0 then False
      else if vb_closed vb \<or> vb_nextRegistrationToken vb = - 1 then False
      else nextAvailableDeviceIDLocked vb maxDeviceID \<noteq> None)"

section \<open>Queries\<close>

definition GetAllDeviceMetas :: "VirtualBus \<Rightarrow> DeviceMeta list" where
  "GetAllDeviceMetas vb =
     map (deviceMetaLocked vb) (filter (deviceDiscoverableLocked vb) (vb_devices vb))"

definition Devices :: "VirtualBus \<Rightarrow> usb_device list" where
  "Devices vb = map bd_dev (filter (deviceDiscoverableLocked vb) (vb_devices vb))"

definition GetDeviceByID :: "u32 \<Rightarrow> VirtualBus \<Rightarrow> usb_device option" where
  "GetDeviceByID deviceID vb =
     map_option bd_dev (find (\<lambda>d. deviceDiscoverableLocked vb d \<and> em_DevID (bd_meta d) = deviceID)
       (vb_devices vb))"

definition GetDeviceImportSnapshot :: "u32 \<Rightarrow> VirtualBus \<Rightarrow> DeviceMeta option" where
  "GetDeviceImportSnapshot deviceID vb =
     map_option (deviceMetaLocked vb)
       (find (\<lambda>d. deviceDiscoverableLocked vb d \<and> em_DevID (bd_meta d) = deviceID) (vb_devices vb))"

definition GetDeviceImportSnapshotByBusID :: "bytes \<Rightarrow> VirtualBus \<Rightarrow> DeviceMeta option" where
  "GetDeviceImportSnapshotByBusID busID vb =
     (if length busID = 0 \<or> length busID \<ge> 32 then None
      else map_option (deviceMetaLocked vb)
        (find (\<lambda>d. deviceDiscoverableLocked vb d \<and>
           em_USBBusID (bd_meta d) = copy_into (zeros 32) busID) (vb_devices vb)))"

definition HasUSBIPBusID :: "bytes \<Rightarrow> VirtualBus \<Rightarrow> bool" where
  "HasUSBIPBusID busID vb =
     (if length busID = 0 \<or> length busID \<ge> 32 then False
      else \<exists>d \<in> set (vb_devices vb). em_USBBusID (bd_meta d) = copy_into (zeros 32) busID)"

definition GetDeviceRegistration :: "usb_device \<Rightarrow> nat option \<Rightarrow> VirtualBus \<Rightarrow> DeviceMeta option" where
  "GetDeviceRegistration dev deviceContext vb =
     (if deviceContext = None \<or> validateDeviceIdentity dev \<noteq> None then None
      else map_option (deviceMetaLocked vb)
        (find (\<lambda>d. registrationActiveLocked vb d \<and> bd_dev d = dev \<and>
           Some (bd_ctx d) = deviceContext) (vb_devices vb)))"

definition GetDeviceContext :: "usb_device \<Rightarrow> VirtualBus \<Rightarrow> nat option" where
  "GetDeviceContext dev vb =
     (if validateDeviceIdentity dev \<noteq> None then None
      else map_option bd_ctx
        (find (\<lambda>d. deviceDiscoverableLocked vb d \<and> bd_dev d = dev) (vb_devices vb)))"

definition AuthenticatesRegistration :: "DeviceMeta \<Rightarrow> VirtualBus \<Rightarrow> bool" where
  "AuthenticatesRegistration s vb =
     (if \<not> snapshot_present vb s then False
      else if \<not> registrationSnapshotDeviceIdentitySafe vb s then False
      else if vb_closed vb then False
      else authenticatesRegistrationLocked vb s)"

definition RecognizesRegistration :: "DeviceMeta \<Rightarrow> VirtualBus \<Rightarrow> bool" where
  "RecognizesRegistration s vb =
     (if \<not> snapshot_present vb s \<or> \<not> registrationSnapshotDeviceIdentitySafe vb s then False
      else registrationIdentityMatchesLocked vb s)"

fun publish_first :: "nat option \<Rightarrow> busDevice list \<Rightarrow> busDevice list option" where
  "publish_first l [] = None"
| "publish_first l (d # ds) =
     (if Some (bd_lifecycle d) = l then Some (d\<lparr>bd_published := True\<rparr> # ds)
      else map_option ((#) d) (publish_first l ds))"

definition PublishRegistration :: "DeviceMeta \<Rightarrow> VirtualBus \<Rightarrow> (bus_error + bool) \<times> VirtualBus" where
  "PublishRegistration s vb =
     (if \<not> snapshot_present vb s then (Inl ErrInvalidRegistration, vb)
      else if \<not> registrationSnapshotDeviceIdentitySafe vb s then (Inl ErrInvalidIdentity, vb)
      else if vb_closed vb then (Inr False, vb)
      else if \<not> authenticatesRegistrationLocked vb s then (Inr False, vb)
      else case publish_first (dm_lifecycle s) (vb_devices vb) of
             None \<Rightarrow> (Inr False, vb)
           | Some ds \<Rightarrow> (Inr True, vb\<lparr>vb_devices := ds\<rparr>))"

section \<open>Operation leases\<close>

text \<open>\<open>AcquireRegistrationOperation\<close> in its three steps: the check under the bus mutex, the read
  fence taken without it, and the second check, which gives the fence back when it fails.\<close>

definition acquire_check :: "DeviceMeta \<Rightarrow> VirtualBus \<Rightarrow> bool" where
  "acquire_check s vb =
     (if \<not> snapshot_present vb s \<or> dm_lifecycle s = None then False
      else if \<not> registrationSnapshotDeviceIdentitySafe vb s then False
      else \<not> (vb_closed vb \<or> \<not> authenticatesRegistrationLocked vb s))"

definition RLock :: "nat \<Rightarrow> VirtualBus \<Rightarrow> VirtualBus" where
  "RLock i vb = set_lifecycle i ((lifecycle vb i)\<lparr>lc_mu := lc_mu (lifecycle vb i) + 1\<rparr>) vb"

definition RUnlock :: "nat \<Rightarrow> VirtualBus \<Rightarrow> VirtualBus" where
  "RUnlock i vb = set_lifecycle i ((lifecycle vb i)\<lparr>lc_mu := lc_mu (lifecycle vb i) - 1\<rparr>) vb"

definition acquire_verify :: "DeviceMeta \<Rightarrow> VirtualBus \<Rightarrow> nat option \<times> VirtualBus" where
  "acquire_verify s vb =
     (if \<not> vb_closed vb \<and> authenticatesRegistrationLocked vb s then (dm_lifecycle s, vb)
      else (None, RUnlock (the (dm_lifecycle s)) vb))"

definition AcquireRegistrationOperation :: "DeviceMeta \<Rightarrow> VirtualBus \<Rightarrow> nat option \<times> VirtualBus" where
  "AcquireRegistrationOperation s vb =
     (if acquire_check s vb then acquire_verify s (RLock (the (dm_lifecycle s)) vb) else (None, vb))"

definition lease_Release :: "nat option \<Rightarrow> VirtualBus \<Rightarrow> nat option \<times> VirtualBus" where
  "lease_Release token vb = (case token of None \<Rightarrow> (None, vb) | Some i \<Rightarrow> (None, RUnlock i vb))"

section \<open>Removing\<close>

definition markRegistrationRemovalLocked ::
    "busDevice \<Rightarrow> VirtualBus \<Rightarrow> (DeviceMeta \<times> nat) \<times> VirtualBus" where
  "markRegistrationRemovalLocked d vb =
     ((deviceMetaLocked vb d, bd_lifecycle d),
      set_lifecycle (bd_lifecycle d) ((lifecycle vb (bd_lifecycle d))\<lparr>lc_removing := True\<rparr>) vb)"

text \<open>The second critical section of a removal; the write fence is taken when no operation
  holds the read fence.\<close>

definition finishMarkedRegistrationRemoval :: "nat \<Rightarrow> VirtualBus \<Rightarrow> VirtualBus" where
  "finishMarkedRegistrationRemoval i vb =
     (let vb1 = (case find (\<lambda>d. bd_lifecycle d = i) (vb_devices vb) of
        None \<Rightarrow> vb
      | Some d \<Rightarrow> set_lifecycle i ((lifecycle vb i)\<lparr>lc_active := False\<rparr>)
          (vb\<lparr>vb_cancelled := bd_ctx d # vb_cancelled vb,
             vb_allocatedDevIDs := (vb_allocatedDevIDs vb)(em_DevID (bd_meta d) := False),
             vb_devices := remove1 d (vb_devices vb)\<rparr>))
      in set_lifecycle i ((lifecycle vb1 i)\<lparr>lc_removalDone := True\<rparr>) vb1)"

text \<open>What the first critical section of a removal decides: an error, nothing to remove, a
  removal under way elsewhere to wait for (with the snapshot to return, where there is one), or
  the snapshot and lifecycle marked for removal.\<close>

datatype remove_outcome =
  RemoveError bus_error | RemoveAbsent | RemoveWait "DeviceMeta option" nat
| RemoveMarked DeviceMeta nat

definition remove_found ::
    "DeviceMeta option \<Rightarrow> busDevice \<Rightarrow> VirtualBus \<Rightarrow> remove_outcome \<times> VirtualBus" where
  "remove_found waited d vb =
     (if lc_removing (lifecycle vb (bd_lifecycle d)) then (RemoveWait waited (bd_lifecycle d), vb)
      else if registrationActiveLocked vb d
      then (let ((s, i), vb') = markRegistrationRemovalLocked d vb in (RemoveMarked s i, vb'))
      else (RemoveAbsent, vb))"

definition RemoveDeviceRegistrationByIDSnapshot :: "bytes \<Rightarrow> VirtualBus \<Rightarrow> remove_outcome \<times> VirtualBus" where
  "RemoveDeviceRegistrationByIDSnapshot deviceID vb =
     (case find (\<lambda>d. bd_published d \<and> decimal (unat (em_DevID (bd_meta d))) = deviceID \<and>
         (lc_removing (lifecycle vb (bd_lifecycle d)) \<or> registrationActiveLocked vb d))
       (vb_devices vb) of
        None \<Rightarrow> (RemoveError ErrDeviceNotFound, vb)
      | Some d \<Rightarrow> remove_found (Some (deviceMetaLocked vb d)) d vb)"

definition RemoveIfPresent :: "usb_device \<Rightarrow> VirtualBus \<Rightarrow> remove_outcome \<times> VirtualBus" where
  "RemoveIfPresent dev vb =
     (case validateDeviceIdentity dev of Some e \<Rightarrow> (RemoveError e, vb)
      | None \<Rightarrow>
        (case find (\<lambda>d. bd_dev d = dev \<and>
            (lc_removing (lifecycle vb (bd_lifecycle d)) \<or> registrationActiveLocked vb d))
          (vb_devices vb) of
           None \<Rightarrow> (RemoveAbsent, vb)
         | Some d \<Rightarrow> remove_found None d vb))"

definition RemoveRegistrationIfPresent :: "DeviceMeta \<Rightarrow> VirtualBus \<Rightarrow> remove_outcome \<times> VirtualBus" where
  "RemoveRegistrationIfPresent s vb =
     (if dm_Bus s \<noteq> Some (vb_addr vb) \<or> dm_Dev s = NilDevice \<or> dm_RegistrationToken s = 0 \<or>
        dm_lifecycle s = None then (RemoveError ErrInvalidRegistration, vb)
      else if \<not> registrationSnapshotDeviceIdentitySafe vb s
      then (RemoveError ErrInvalidIdentity, vb)
      else if \<not> registrationIdentityMatchesLocked vb s then (RemoveAbsent, vb)
      else let i = the (dm_lifecycle s) in
        if lc_removing (lifecycle vb i) \<or> \<not> lc_active (lifecycle vb i) then (RemoveWait None i, vb)
        else (case find (\<lambda>d. bd_lifecycle d = i \<and> authenticatesRegistrationLocked vb s)
                (vb_devices vb) of
                None \<Rightarrow> (RemoveAbsent, vb)
              | Some d \<Rightarrow> let ((s', j), vb') = markRegistrationRemovalLocked d vb
                          in (RemoveMarked s' j, vb')))"

section \<open>The empty bus and closing\<close>

definition GetBusEmptyContext :: "VirtualBus \<Rightarrow> nat option \<times> VirtualBus" where
  "GetBusEmptyContext vb =
     (if vb_closed vb then (None, vb)
      else if vb_devices vb \<noteq> [] then (None, vb)
      else case vb_emptyCtx vb of
             Some c \<Rightarrow> (Some c, vb)
           | None \<Rightarrow> (Some (vb_nextCtx vb),
               vb\<lparr>vb_emptyCtx := Some (vb_nextCtx vb), vb_nextCtx := vb_nextCtx vb + 1\<rparr>))"

definition CloseIfEmptyContext :: "nat option \<Rightarrow> VirtualBus \<Rightarrow> (bus_error + bool) \<times> VirtualBus" where
  "CloseIfEmptyContext expected vb =
     (case expected of None \<Rightarrow> (Inl ErrInvalidContext, vb)
      | Some c \<Rightarrow>
        if vb_closed vb \<or> vb_devices vb \<noteq> [] \<or> vb_emptyCtx vb \<noteq> Some c \<or> c \<in> set (vb_cancelled vb)
        then (Inr False, vb)
        else (Inr True, cancel_empty (vb\<lparr>vb_closed := True\<rparr>)))"

text \<open>After either way of closing, outside the bus mutex: the bus number is freed and the
  \<open>closeDone\<close> channel closed.\<close>

definition release_bus :: "VirtualBus \<Rightarrow> bus_table \<Rightarrow> VirtualBus \<times> bus_table" where
  "release_bus vb allocatedBusIds =
     (vb\<lparr>vb_closeDone := True\<rparr>, allocatedBusIds(vb_busID vb := False))"

text \<open>The first critical section of \<open>CloseAndTakeRegistrations\<close>: the snapshots it marked with
  their lifecycles, and the lifecycles whose removal is under way elsewhere.\<close>

fun mark_all :: "busDevice list \<Rightarrow> VirtualBus \<Rightarrow> ((DeviceMeta \<times> nat) list \<times> nat list) \<times> VirtualBus" where
  "mark_all [] vb = (([], []), vb)"
| "mark_all (d # ds) vb =
     (if lc_removing (lifecycle vb (bd_lifecycle d))
      then (case mark_all ds vb of ((marked, waiting), vb') \<Rightarrow>
              ((marked, bd_lifecycle d # waiting), vb'))
      else (case markRegistrationRemovalLocked d vb of (m, vb1) \<Rightarrow>
              (case mark_all ds vb1 of ((marked, waiting), vb') \<Rightarrow> ((m # marked, waiting), vb'))))"

definition close_begin :: "VirtualBus \<Rightarrow> ((DeviceMeta \<times> nat) list \<times> nat list) option \<times> VirtualBus" where
  "close_begin vb =
     (if vb_closed vb then (None, vb)
      else case mark_all (vb_devices vb) (vb\<lparr>vb_closed := True\<rparr>) of
             (mw, vb') \<Rightarrow> (Some mw, cancel_empty vb'))"

definition close_clear :: "VirtualBus \<Rightarrow> VirtualBus" where
  "close_clear vb = vb\<lparr>vb_allocatedDevIDs := (\<lambda>_. False)\<rparr>"

text \<open>\<open>CloseAndTakeRegistrations\<close> when no operation holds a fence and no other removal is under
  way.\<close>

definition CloseAndTakeRegistrations ::
    "VirtualBus \<Rightarrow> bus_table \<Rightarrow> DeviceMeta list \<times> VirtualBus \<times> bus_table" where
  "CloseAndTakeRegistrations vb allocatedBusIds =
     (case close_begin vb of
        (None, vb') \<Rightarrow> ([], vb', allocatedBusIds)
      | (Some (marked, waiting), vb') \<Rightarrow>
          (map fst marked,
           release_bus (close_clear
             (fold (\<lambda>(s, i). finishMarkedRegistrationRemoval i) marked vb')) allocatedBusIds))"

section \<open>Convenience operations\<close>

definition bus_Add :: "usb_device \<Rightarrow> VirtualBus \<Rightarrow> (bus_error + nat option) \<times> VirtualBus" where
  "bus_Add dev vb =
     (case AddRegistration dev vb of
        (Inl e, vb') \<Rightarrow> (Inl e, vb')
      | (Inr registration, vb') \<Rightarrow> (Inr (dm_Context registration), vb'))"

text \<open>A removal run to its end when no operation holds the fence: the pair of the source's
  \<open>RemoveIfPresent\<close>, and \<open>Remove\<close> on top of it.\<close>

definition finish_removal ::
    "remove_outcome \<times> VirtualBus \<Rightarrow> (bus_error + bool) \<times> VirtualBus" where
  "finish_removal r =
     (case r of
        (RemoveError e, vb) \<Rightarrow> (Inl e, vb)
      | (RemoveAbsent, vb) \<Rightarrow> (Inr False, vb)
      | (RemoveWait _ _, vb) \<Rightarrow> (Inr False, vb)
      | (RemoveMarked _ i, vb) \<Rightarrow> (Inr True, finishMarkedRegistrationRemoval i vb))"

definition bus_Remove :: "usb_device \<Rightarrow> VirtualBus \<Rightarrow> bus_error option \<times> VirtualBus" where
  "bus_Remove dev vb =
     (case finish_removal (RemoveIfPresent dev vb) of
        (Inl e, vb') \<Rightarrow> (Some e, vb')
      | (Inr removed, vb') \<Rightarrow> (if removed then None else Some ErrDeviceNotFound, vb'))"

definition CloseAndTakeDevices ::
    "VirtualBus \<Rightarrow> bus_table \<Rightarrow> usb_device list \<times> VirtualBus \<times> bus_table" where
  "CloseAndTakeDevices vb allocatedBusIds =
     (case CloseAndTakeRegistrations vb allocatedBusIds of
        (registrations, rest) \<Rightarrow> (map dm_Dev registrations, rest))"

text \<open>Removal by address, run to its end: the snapshot of the registration removed, here or by
  the removal waited for.\<close>

definition remove_by_id_result :: "remove_outcome \<times> VirtualBus \<Rightarrow> (bus_error + DeviceMeta) \<times> VirtualBus" where
  "remove_by_id_result r =
     (case r of
        (RemoveError e, vb) \<Rightarrow> (Inl e, vb)
      | (RemoveWait (Some s) _, vb) \<Rightarrow> (Inr s, vb)
      | (RemoveMarked s i, vb) \<Rightarrow> (Inr s, finishMarkedRegistrationRemoval i vb)
      | (_, vb) \<Rightarrow> (Inl ErrDeviceNotFound, vb))"

definition RemoveDeviceByIDSnapshot :: "bytes \<Rightarrow> VirtualBus \<Rightarrow> (bus_error + usb_device) \<times> VirtualBus" where
  "RemoveDeviceByIDSnapshot deviceID vb =
     (case remove_by_id_result (RemoveDeviceRegistrationByIDSnapshot deviceID vb) of
        (res, vb') \<Rightarrow> (map_sum id dm_Dev res, vb'))"

definition RemoveDeviceByID :: "bytes \<Rightarrow> VirtualBus \<Rightarrow> bus_error option \<times> VirtualBus" where
  "RemoveDeviceByID deviceID vb =
     (case RemoveDeviceByIDSnapshot deviceID vb of
        (Inl e, vb') \<Rightarrow> (Some e, vb')
      | (Inr _, vb') \<Rightarrow> (None, vb'))"

definition bus_Close :: "VirtualBus \<Rightarrow> bus_table \<Rightarrow> VirtualBus \<times> bus_table" where
  "bus_Close vb allocatedBusIds = snd (CloseAndTakeDevices vb allocatedBusIds)"

section \<open>Elementary facts\<close>

lemma length_set_lifecycle [simp]: "length (vb_lifecycles (set_lifecycle i l vb)) = length (vb_lifecycles vb)"
  by (simp add: set_lifecycle_def)

lemma lifecycle_set_lifecycle [simp]:
  "i < length (vb_lifecycles vb) \<Longrightarrow>
   lifecycle (set_lifecycle i l vb) j = (if j = i then l else lifecycle vb j)"
  by (simp add: set_lifecycle_def lifecycle_def nth_list_update)

lemma set_lifecycle_fields [simp]:
  "vb_addr (set_lifecycle i l vb) = vb_addr vb"
  "vb_busID (set_lifecycle i l vb) = vb_busID vb"
  "vb_nextRegistrationToken (set_lifecycle i l vb) = vb_nextRegistrationToken vb"
  "vb_allocatedDevIDs (set_lifecycle i l vb) = vb_allocatedDevIDs vb"
  "vb_devices (set_lifecycle i l vb) = vb_devices vb"
  "vb_emptyCtx (set_lifecycle i l vb) = vb_emptyCtx vb"
  "vb_closed (set_lifecycle i l vb) = vb_closed vb"
  "vb_closeDone (set_lifecycle i l vb) = vb_closeDone vb"
  "vb_nextCtx (set_lifecycle i l vb) = vb_nextCtx vb"
  "vb_cancelled (set_lifecycle i l vb) = vb_cancelled vb"
  by (simp_all add: set_lifecycle_def)

lemma cancel_empty_fields [simp]:
  "vb_addr (cancel_empty vb) = vb_addr vb"
  "vb_busID (cancel_empty vb) = vb_busID vb"
  "vb_nextRegistrationToken (cancel_empty vb) = vb_nextRegistrationToken vb"
  "vb_allocatedDevIDs (cancel_empty vb) = vb_allocatedDevIDs vb"
  "vb_devices (cancel_empty vb) = vb_devices vb"
  "vb_emptyCtx (cancel_empty vb) = None"
  "vb_closed (cancel_empty vb) = vb_closed vb"
  "vb_closeDone (cancel_empty vb) = vb_closeDone vb"
  "vb_lifecycles (cancel_empty vb) = vb_lifecycles vb"
  "vb_nextCtx (cancel_empty vb) = vb_nextCtx vb"
  "set (vb_cancelled (cancel_empty vb)) = set_option (vb_emptyCtx vb) \<union> set (vb_cancelled vb)"
  by (simp_all add: cancel_empty_def split: option.split)

text \<open>The search for an address: it ends, and finds the smallest free address of the range.\<close>

lemma nextAvailableDeviceID_spec:
  assumes "start \<le> maxID"
  shows "case nextAvailableDeviceID allocated maxID start of
      Some a \<Rightarrow> start \<le> a \<and> a \<le> maxID \<and> \<not> allocated a \<and> (\<forall>b. start \<le> b \<and> b < a \<longrightarrow> allocated b)
    | None \<Rightarrow> \<forall>b. start \<le> b \<and> b \<le> maxID \<longrightarrow> allocated b"
  using assms
proof (induction allocated maxID start rule: nextAvailableDeviceID.induct)
  case (1 allocated maxID start)
  show ?case
  proof (cases "\<not> allocated start \<or> start = maxID")
    case True
    then show ?thesis using 1(2) by (subst nextAvailableDeviceID.simps) auto
  next
    case False
    then have less: "start < maxID" and a: "allocated start" using 1(2) by auto
    have u: "unat (start + 1) = unat start + 1"
      using less unsigned_less [where ?'a = nat, of maxID]
      by (simp add: word_less_nat_alt unat_word_ariths)
    have s: "start + 1 \<le> maxID" "\<And>b. start + 1 \<le> b \<longleftrightarrow> start < b"
      using less by (auto simp: word_le_nat_alt word_less_nat_alt u)
    have e: "nextAvailableDeviceID allocated maxID start = nextAvailableDeviceID allocated maxID (start + 1)"
      using False by (subst nextAvailableDeviceID.simps) auto
    have split: "start \<le> b \<longleftrightarrow> b = start \<or> start + 1 \<le> b" for b
      unfolding s(2) by (simp add: le_less) blast
    have ih: "case nextAvailableDeviceID allocated maxID (start + 1) of
        Some a \<Rightarrow> start + 1 \<le> a \<and> a \<le> maxID \<and> \<not> allocated a \<and>
          (\<forall>b. start + 1 \<le> b \<and> b < a \<longrightarrow> allocated b)
      | None \<Rightarrow> \<forall>b. start + 1 \<le> b \<and> b \<le> maxID \<longrightarrow> allocated b"
      by (rule 1(1)) (use False s(1) in simp_all)
    show ?thesis
    proof (cases "nextAvailableDeviceID allocated maxID (start + 1)")
      case None
      then show ?thesis using ih a by (simp only: e split option.case) blast
    next
      case (Some x)
      then show ?thesis using ih a by (simp only: e split option.case) blast
    qed
  qed
qed

end
