(* ===== verification/Virtual_Bus_Runs.thy ===== *)
theory Virtual_Bus_Runs
  imports Virtual_Bus
begin

text \<open>
  The runs of one virtual bus: every interleaving of the critical sections of its operations,
  as a step relation, and the invariants of the reachable states. Beside the bus a run keeps
  what the goroutines hold between their critical sections: snapshots that passed the first
  check of an acquisition, read fences not yet verified, granted leases, lifecycles whose
  removal was marked and is to be finished, and what a closing goroutine waits for.
\<close>

section \<open>Steps\<close>

record bus_run =
  br_bus :: VirtualBus
  br_table :: bus_table
  br_checked :: "DeviceMeta list"
  br_pending :: "DeviceMeta list"
  br_leases :: "DeviceMeta list"
  br_marked :: "nat set"
  br_closing :: "nat list option"
  br_releasing :: bool

definition bus_start :: "nat \<Rightarrow> u32 \<Rightarrow> bus_table \<Rightarrow> bus_run" where
  "bus_start addr busID table = \<lparr>br_bus = fst (virtualbus_New addr busID table),
     br_table = snd (virtualbus_New addr busID table), br_checked = [], br_pending = [],
     br_leases = [], br_marked = {}, br_closing = None, br_releasing = False\<rparr>"

fun outcome_mark :: "remove_outcome \<Rightarrow> nat set" where
  "outcome_mark (RemoveMarked _ i) = {i}"
| "outcome_mark _ = {}"

text \<open>Export names reach \<open>addRegistration\<close> empty or validated.\<close>

definition export_name :: "bytes \<Rightarrow> bool" where
  "export_name name \<longleftrightarrow> name = [] \<or> ValidProductionXboxOneBusID name"

inductive bus_step :: "bus_run \<Rightarrow> bus_run \<Rightarrow> bool" where
  add: "export_name name \<Longrightarrow> addRegistration dev published maxID name (br_bus r) = (res, vb') \<Longrightarrow>
    bus_step r (r\<lparr>br_bus := vb'\<rparr>)"
| publish: "PublishRegistration s (br_bus r) = (res, vb') \<Longrightarrow> bus_step r (r\<lparr>br_bus := vb'\<rparr>)"
| check: "acquire_check s (br_bus r) \<Longrightarrow> bus_step r (r\<lparr>br_checked := s # br_checked r\<rparr>)"
| fence: "s \<in> set (br_checked r) \<Longrightarrow>
    bus_step r (r\<lparr>br_bus := RLock (the (dm_lifecycle s)) (br_bus r),
      br_checked := remove1 s (br_checked r), br_pending := s # br_pending r\<rparr>)"
| verify: "s \<in> set (br_pending r) \<Longrightarrow> acquire_verify s (br_bus r) = (token, vb') \<Longrightarrow>
    bus_step r (r\<lparr>br_bus := vb', br_pending := remove1 s (br_pending r),
      br_leases := (if token = None then br_leases r else s # br_leases r)\<rparr>)"
| release: "s \<in> set (br_leases r) \<Longrightarrow> lease_Release (dm_lifecycle s) (br_bus r) = (token, vb') \<Longrightarrow>
    bus_step r (r\<lparr>br_bus := vb', br_leases := remove1 s (br_leases r)\<rparr>)"
| remove_registration: "RemoveRegistrationIfPresent s (br_bus r) = (out, vb') \<Longrightarrow>
    bus_step r (r\<lparr>br_bus := vb', br_marked := outcome_mark out \<union> br_marked r\<rparr>)"
| remove_device: "RemoveIfPresent dev (br_bus r) = (out, vb') \<Longrightarrow>
    bus_step r (r\<lparr>br_bus := vb', br_marked := outcome_mark out \<union> br_marked r\<rparr>)"
| remove_by_id: "RemoveDeviceRegistrationByIDSnapshot name (br_bus r) = (out, vb') \<Longrightarrow>
    bus_step r (r\<lparr>br_bus := vb', br_marked := outcome_mark out \<union> br_marked r\<rparr>)"
| finish: "i \<in> br_marked r \<Longrightarrow> lc_mu (lifecycle (br_bus r) i) = 0 \<Longrightarrow>
    bus_step r (r\<lparr>br_bus := finishMarkedRegistrationRemoval i (br_bus r),
      br_marked := br_marked r - {i}\<rparr>)"
| empty_context: "GetBusEmptyContext (br_bus r) = (res, vb') \<Longrightarrow> bus_step r (r\<lparr>br_bus := vb'\<rparr>)"
| close_empty: "CloseIfEmptyContext expected (br_bus r) = (res, vb') \<Longrightarrow>
    bus_step r (r\<lparr>br_bus := vb', br_releasing := (br_releasing r \<or> res = Inr True)\<rparr>)"
| close: "close_begin (br_bus r) = (Some (marked, waiting), vb') \<Longrightarrow>
    bus_step r (r\<lparr>br_bus := vb', br_marked := set (map snd marked) \<union> br_marked r,
      br_closing := Some (map snd marked @ waiting)\<rparr>)"
| clear: "br_closing r = Some ws \<Longrightarrow>
    (\<forall>i \<in> set ws. lc_removalDone (lifecycle (br_bus r) i)) \<Longrightarrow>
    bus_step r (r\<lparr>br_bus := close_clear (br_bus r), br_closing := None, br_releasing := True\<rparr>)"
| free: "br_releasing r \<Longrightarrow> release_bus (br_bus r) (br_table r) = (vb', table') \<Longrightarrow>
    bus_step r (r\<lparr>br_bus := vb', br_table := table', br_releasing := False\<rparr>)"

inductive bus_reach :: "nat \<Rightarrow> u32 \<Rightarrow> bus_table \<Rightarrow> bus_run \<Rightarrow> bool" for addr busID table where
  start: "bus_reach addr busID table (bus_start addr busID table)"
| step: "bus_reach addr busID table r \<Longrightarrow> bus_step r r' \<Longrightarrow> bus_reach addr busID table r'"

section \<open>Invariants\<close>

text \<open>A registration and its lifecycle agree.\<close>

definition reg_ok :: "VirtualBus \<Rightarrow> busDevice \<Rightarrow> bool" where
  "reg_ok vb d \<longleftrightarrow> bd_lifecycle d < length (vb_lifecycles vb) \<and>
     lc_dev (lifecycle vb (bd_lifecycle d)) = bd_dev d \<and>
     lc_meta (lifecycle vb (bd_lifecycle d)) = bd_meta d \<and>
     lc_ctx (lifecycle vb (bd_lifecycle d)) = bd_ctx d \<and>
     lc_token (lifecycle vb (bd_lifecycle d)) = bd_registrationToken d"

definition live :: "VirtualBus \<Rightarrow> nat set" where
  "live vb = bd_lifecycle ` set (vb_devices vb)"

definition life_inv :: "VirtualBus \<Rightarrow> nat set \<Rightarrow> bool" where
  "life_inv vb marked \<longleftrightarrow>
     (\<forall>i < length (vb_lifecycles vb).
        lc_active (lifecycle vb i) = (i \<in> live vb) \<and>
        lc_removalDone (lifecycle vb i) = (i \<notin> live vb) \<and>
        lc_removing (lifecycle vb i) = (i \<in> marked \<or> i \<notin> live vb) \<and>
        lc_bus (lifecycle vb i) = vb_addr vb \<and>
        lc_token (lifecycle vb i) = of_nat (Suc i)) \<and>
     marked \<subseteq> live vb"

definition devices_inv :: "VirtualBus \<Rightarrow> bool" where
  "devices_inv vb \<longleftrightarrow>
     list_all (reg_ok vb) (vb_devices vb) \<and> distinct (map bd_lifecycle (vb_devices vb)) \<and>
     length (vb_lifecycles vb) = unat (vb_nextRegistrationToken vb)"

definition named :: "u32 \<Rightarrow> busDevice \<Rightarrow> bool" where
  "named busID d \<longleftrightarrow> em_DevID (bd_meta d) \<noteq> 0 \<and>
     (\<exists>name. export_name name \<and> bd_meta d = export_meta busID (em_DevID (bd_meta d)) name) \<and>
     (\<exists>t n. bd_dev d = Device t n)"

definition address_inv :: "VirtualBus \<Rightarrow> bool" where
  "address_inv vb \<longleftrightarrow>
     (\<forall>a. vb_allocatedDevIDs vb a = (a \<in> set (map (em_DevID \<circ> bd_meta) (vb_devices vb)))) \<and>
     distinct (map (em_DevID \<circ> bd_meta) (vb_devices vb)) \<and>
     distinct (map (em_USBBusID \<circ> bd_meta) (vb_devices vb)) \<and>
     distinct (map bd_dev (vb_devices vb)) \<and> list_all (named (vb_busID vb)) (vb_devices vb)"

definition context_inv :: "VirtualBus \<Rightarrow> bool" where
  "context_inv vb \<longleftrightarrow>
     distinct (map lc_ctx (vb_lifecycles vb)) \<and>
     (\<forall>c \<in> set (vb_cancelled vb) \<union> set_option (vb_emptyCtx vb) \<union> set (map lc_ctx (vb_lifecycles vb)).
        c < vb_nextCtx vb) \<and>
     set_option (vb_emptyCtx vb) \<inter> (set (vb_cancelled vb) \<union> set (map lc_ctx (vb_lifecycles vb))) = {} \<and>
     (\<forall>i < length (vb_lifecycles vb).
        (lc_ctx (lifecycle vb i) \<in> set (vb_cancelled vb)) = (i \<notin> live vb)) \<and>
     (vb_emptyCtx vb \<noteq> None \<longrightarrow> vb_devices vb = [] \<and> \<not> vb_closed vb)"

definition held_on :: "nat \<Rightarrow> DeviceMeta list \<Rightarrow> nat" where
  "held_on i ss = length (filter (\<lambda>s. dm_lifecycle s = Some i) ss)"

definition fence_inv :: "bus_run \<Rightarrow> bool" where
  "fence_inv r \<longleftrightarrow>
     (\<forall>s \<in> set (br_checked r) \<union> set (br_pending r) \<union> set (br_leases r).
        registrationIdentityMatchesLocked (br_bus r) s) \<and>
     (\<forall>s \<in> set (br_leases r). the (dm_lifecycle s) \<in> live (br_bus r)) \<and>
     (\<forall>i < length (vb_lifecycles (br_bus r)).
        lc_mu (lifecycle (br_bus r) i) = held_on i (br_pending r) + held_on i (br_leases r))"

definition close_inv :: "bus_run \<Rightarrow> bool" where
  "close_inv r \<longleftrightarrow>
     (\<forall>ws. br_closing r = Some ws \<longrightarrow> vb_closed (br_bus r) \<and> \<not> br_releasing r \<and>
        \<not> vb_closeDone (br_bus r) \<and> live (br_bus r) \<subseteq> set ws \<and>
        live (br_bus r) \<subseteq> br_marked r \<and> set ws \<subseteq> {..< length (vb_lifecycles (br_bus r))}) \<and>
     (vb_closed (br_bus r) \<and> br_closing r = None \<longrightarrow>
        vb_devices (br_bus r) = [] \<and> vb_closeDone (br_bus r) = (\<not> br_releasing r)) \<and>
     (\<not> vb_closed (br_bus r) \<longrightarrow> \<not> br_releasing r \<and> \<not> vb_closeDone (br_bus r))"

definition bus_inv :: "bus_run \<Rightarrow> bool" where
  "bus_inv r \<longleftrightarrow> life_inv (br_bus r) (br_marked r) \<and> devices_inv (br_bus r) \<and>
     address_inv (br_bus r) \<and> context_inv (br_bus r) \<and> fence_inv r \<and> close_inv r"

lemma bus_inv_start: "bus_inv (bus_start addr busID table)"
  by (simp add: bus_inv_def bus_start_def virtualbus_New_def fresh_bus_def life_inv_def
      devices_inv_def address_inv_def context_inv_def fence_inv_def close_inv_def live_def)

section \<open>Adding\<close>

lemma addRegistration_cases:
  assumes "addRegistration dev published maxID name vb = (res, vb')"
  obtains (error) e where "res = Inl e" "vb' = vb"
  | (added) devID t n where "dev = Device t n" "\<not> vb_closed vb"
      "vb_nextRegistrationToken vb \<noteq> - 1" "maxID \<noteq> 0"
      "duplicate_error dev name (vb_devices vb) = None"
      "nextAvailableDeviceIDLocked vb maxID = Some devID"
      "vb' = (cancel_empty vb)
        \<lparr>vb_allocatedDevIDs := (vb_allocatedDevIDs vb)(devID := True),
         vb_nextCtx := vb_nextCtx vb + 1,
         vb_nextRegistrationToken := vb_nextRegistrationToken vb + 1,
         vb_devices := vb_devices vb @
           [\<lparr>bd_dev = dev, bd_meta = export_meta (vb_busID vb) devID name, bd_ctx = vb_nextCtx vb,
             bd_registrationToken = vb_nextRegistrationToken vb + 1,
             bd_lifecycle = length (vb_lifecycles vb), bd_published = published\<rparr>],
         vb_lifecycles := vb_lifecycles vb @
           [\<lparr>lc_bus = vb_addr vb, lc_dev = dev, lc_meta = export_meta (vb_busID vb) devID name,
             lc_ctx = vb_nextCtx vb, lc_token = vb_nextRegistrationToken vb + 1,
             lc_active = True, lc_removing = False, lc_mu = 0, lc_removalDone = False\<rparr>]\<rparr>"
      "res = Inr (deviceMetaLocked vb' (last (vb_devices vb')))"
proof (cases "validateDeviceIdentity dev")
  case (Some e)
  then show ?thesis using assms error by (auto simp: addRegistration_def)
next
  case v: None
  then obtain t n where d: "dev = Device t n"
    by (auto simp: validateDeviceIdentity_def split: usb_device.splits)
  consider "maxID = 0 \<or> vb_closed vb \<or> vb_nextRegistrationToken vb = - 1 \<or>
      duplicate_error dev name (vb_devices vb) \<noteq> None \<or> nextAvailableDeviceIDLocked vb maxID = None"
    | devID where "maxID \<noteq> 0" "\<not> vb_closed vb" "vb_nextRegistrationToken vb \<noteq> - 1"
      "duplicate_error dev name (vb_devices vb) = None"
      "nextAvailableDeviceIDLocked vb maxID = Some devID"
    by blast
  then show ?thesis
  proof cases
    case 1
    then have "vb' = vb \<and> (\<exists>e. res = Inl e)"
      using assms v by (auto simp: addRegistration_def split: if_splits option.splits)
    then show ?thesis using error by blast
  next
    case (2 devID)
    then show ?thesis
      using assms v d by (intro added [of t n devID])
        (auto simp: addRegistration_def Let_def cancel_empty_def deviceMetaLocked_def split: option.splits)
  qed
qed

lemma duplicate_error_None:
  "duplicate_error dev name ds = None \<longleftrightarrow>
   (\<forall>d \<in> set ds. bd_dev d \<noteq> dev \<and> (name \<noteq> [] \<longrightarrow> ExportBusID (bd_meta d) \<noteq> Some name))"
  by (induction ds) auto

text \<open>The name a registration is exported under.\<close>

definition exported :: "u32 \<Rightarrow> u32 \<Rightarrow> bytes \<Rightarrow> bytes" where
  "exported busID devID name = (if name \<noteq> [] then name else numeric_bus_id busID devID)"

lemma export_meta_fields [simp]:
  "em_BusID (export_meta b d name) = b" "em_DevID (export_meta b d name) = d"
  "em_USBBusID (export_meta b d name) = copy_into (zeros 32) (exported b d name)"
  by (simp_all add: export_meta_def exported_def Let_def)

lemma valid_alias_text:
  assumes "ValidProductionXboxOneBusID s"
  shows "(0 :: u8) \<notin> set s" "s \<noteq> []" "length s = 29" "hd s = 0x78"
proof -
  have s: "length s = 29" "take 3 s = go_string ''x1-''"
    "\<not> (\<exists>v \<in> set (drop 3 s). (v < 0x61 \<or> v > 0x7A) \<and> (v < 0x32 \<or> v > 0x37))"
    using assms unfolding ValidProductionXboxOneBusID_def ProductionXboxOneBusIDLength_def
    by presburger+
  have sp: "s = go_string ''x1-'' @ drop 3 s" using append_take_drop_id [of 3 s] s(2) by simp
  have "(0 :: u8) \<notin> set (drop 3 s)" using s(3) by fastforce
  then have "(0 :: u8) \<notin> set (go_string ''x1-'' @ drop 3 s)" by (auto simp: go_string_def)
  then show "(0 :: u8) \<notin> set s" using sp by simp
  show "s \<noteq> []" "length s = 29" using s(1) by auto
  have "hd (go_string ''x1-'' @ drop 3 s) = 0x78" by (simp add: go_string_def)
  then show "hd s = 0x78" using sp by simp
qed

lemma numeric_not_alias: "\<not> ValidProductionXboxOneBusID (numeric_bus_id b d)"
proof
  assume "ValidProductionXboxOneBusID (numeric_bus_id b d)"
  then have "hd (numeric_bus_id b d) = 0x78" by (rule valid_alias_text)
  moreover have "hd (numeric_bus_id b d) \<in> set (decimal (unat b))"
    unfolding numeric_bus_id_def using decimal_nonempty [of "unat b"] by (simp del: decimal.simps)
  ultimately show False using decimal_digits [of "0x78" "unat b"] by (simp del: decimal.simps)
qed

lemma exported_text:
  assumes "export_name name"
  shows "(0 :: u8) \<notin> set (exported b d name)" "exported b d name \<noteq> []" "length (exported b d name) < 32"
  using assms numeric_bus_id_text [of b d] valid_alias_text [of name]
  by (auto simp: exported_def export_name_def)

lemma ExportBusID_export_meta:
  assumes "export_name name"
  shows "ExportBusID (export_meta b d name) = Some (exported b d name)"
  using ExportBusID_padded [OF exported_text [OF assms, of b d], of "export_meta b d name"] assms
  by (auto simp: exported_def export_name_def)

lemma padded_inj:
  assumes "export_name m" "export_name n"
    and "copy_into (zeros 32) (exported b d m) = copy_into (zeros 32) (exported b' d' n)"
  shows "exported b d m = exported b' d' n"
proof -
  have "exported b d m = takeWhile (\<lambda>b. b \<noteq> 0) (copy_into (zeros 32) (exported b d m))"
    by (rule takeWhile_padded(1) [OF exported_text(1,3) [OF assms(1)], symmetric])
  also have "\<dots> = takeWhile (\<lambda>b. b \<noteq> 0) (copy_into (zeros 32) (exported b' d' n))"
    by (simp only: assms(3))
  also have "\<dots> = exported b' d' n"
    by (rule takeWhile_padded(1) [OF exported_text(1,3) [OF assms(2)]])
  finally show ?thesis .
qed

lemma exported_fresh:
  assumes "export_name m" "export_name n" "exported b d m = exported b e n"
  shows "d = e \<or> (m \<noteq> [] \<and> n = m)"
  using assms numeric_not_alias numeric_bus_id_inj by (auto simp: exported_def export_name_def split: if_splits)

lemma add_name_fresh:
  assumes "export_name name" "named b e" "em_DevID (bd_meta e) \<noteq> devID"
    and "name \<noteq> [] \<longrightarrow> ExportBusID (bd_meta e) \<noteq> Some name"
  shows "em_USBBusID (bd_meta e) \<noteq> copy_into (zeros 32) (exported b devID name)"
proof
  assume eq: "em_USBBusID (bd_meta e) = copy_into (zeros 32) (exported b devID name)"
  obtain n where n: "export_name n" "bd_meta e = export_meta b (em_DevID (bd_meta e)) n"
    using assms(2) by (auto simp: named_def)
  define x where "x = em_DevID (bd_meta e)"
  have m: "bd_meta e = export_meta b x n" using n(2) by (simp add: x_def)
  have "exported b x n = exported b devID name"
    using padded_inj [OF n(1) assms(1)] eq unfolding m by simp
  then have "x = devID \<or> (n \<noteq> [] \<and> name = n)" by (rule exported_fresh [OF n(1) assms(1)])
  then have "name \<noteq> []" "exported b x n = name" using assms(3) x_def by (auto simp: exported_def)
  then show False using assms(4) ExportBusID_export_meta [OF n(1), of b x] unfolding m by simp
qed

lemma live_less: "devices_inv vb \<Longrightarrow> i \<in> live vb \<Longrightarrow> i < length (vb_lifecycles vb)"
  by (auto simp: devices_inv_def live_def reg_ok_def list_all_iff)

lemma nextAvailable_fresh:
  assumes "nextAvailableDeviceIDLocked vb maxID = Some devID" "maxID \<noteq> 0"
  shows "devID \<noteq> 0" "devID \<le> maxID" "\<not> vb_allocatedDevIDs vb devID"
    "\<And>b. 1 \<le> b \<Longrightarrow> b < devID \<Longrightarrow> vb_allocatedDevIDs vb b"
proof -
  have "1 \<le> maxID" using assms(2) by (simp add: word_le_nat_alt Suc_leI unat_gt_0)
  then have *: "1 \<le> devID \<and> devID \<le> maxID \<and> \<not> vb_allocatedDevIDs vb devID \<and>
      (\<forall>b. 1 \<le> b \<and> b < devID \<longrightarrow> vb_allocatedDevIDs vb b)"
    using nextAvailableDeviceID_spec [of 1 maxID "vb_allocatedDevIDs vb"] assms(1)
    by (simp add: nextAvailableDeviceIDLocked_def)
  then show "devID \<noteq> 0" by auto
  show "devID \<le> maxID" "\<not> vb_allocatedDevIDs vb devID"
    "\<And>b. 1 \<le> b \<Longrightarrow> b < devID \<Longrightarrow> vb_allocatedDevIDs vb b" using * by blast+
qed

text \<open>A bus to which one registration has been appended.\<close>

definition appended :: "VirtualBus \<Rightarrow> busDevice \<Rightarrow> registrationLifecycle \<Rightarrow> VirtualBus \<Rightarrow> bool" where
  "appended vb d l vb' \<longleftrightarrow>
     vb_devices vb' = vb_devices vb @ [d] \<and> vb_lifecycles vb' = vb_lifecycles vb @ [l] \<and>
     bd_lifecycle d = length (vb_lifecycles vb) \<and> vb_addr vb' = vb_addr vb \<and>
     vb_busID vb' = vb_busID vb"

lemma appended_simps:
  assumes "appended vb d l vb'" "devices_inv vb"
  shows "live vb' = insert (length (vb_lifecycles vb)) (live vb)"
    "length (vb_lifecycles vb') = Suc (length (vb_lifecycles vb))"
    "i < length (vb_lifecycles vb) \<Longrightarrow> lifecycle vb' i = lifecycle vb i"
    "lifecycle vb' (length (vb_lifecycles vb)) = l"
    "length (vb_lifecycles vb) \<notin> live vb"
  using assms live_less [OF assms(2), of "length (vb_lifecycles vb)"]
  by (auto simp: appended_def live_def lifecycle_def nth_append)

lemma appended_life:
  assumes "appended vb d l vb'" "devices_inv vb" "life_inv vb marked"
    and "lc_active l" "\<not> lc_removalDone l" "\<not> lc_removing l" "lc_bus l = vb_addr vb"
    and "lc_token l = of_nat (Suc (length (vb_lifecycles vb)))"
  shows "life_inv vb' marked"
  unfolding life_inv_def
proof (intro conjI allI impI)
  show "marked \<subseteq> live vb'" using assms(3) appended_simps(1) [OF assms(1,2)] by (auto simp: life_inv_def)
  fix i
  assume "i < length (vb_lifecycles vb')"
  then consider "i < length (vb_lifecycles vb)" | "i = length (vb_lifecycles vb)"
    using appended_simps(2) [OF assms(1,2)] by linarith
  then have "lc_active (lifecycle vb' i) = (i \<in> live vb') \<and>
      lc_removalDone (lifecycle vb' i) = (i \<notin> live vb') \<and>
      lc_removing (lifecycle vb' i) = (i \<in> marked \<or> i \<notin> live vb') \<and>
      lc_bus (lifecycle vb' i) = vb_addr vb' \<and> lc_token (lifecycle vb' i) = of_nat (Suc i)"
  proof cases
    case 1
    then show ?thesis using assms(1,3) appended_simps [OF assms(1,2)]
      by (auto simp: life_inv_def appended_def)
  next
    case 2
    have "i \<notin> marked" using assms(3) appended_simps(5) [OF assms(1,2)] 2 by (auto simp: life_inv_def)
    then show ?thesis using assms appended_simps [OF assms(1,2)] 2 by (simp add: appended_def)
  qed
  then show "lc_active (lifecycle vb' i) = (i \<in> live vb')"
    "lc_removalDone (lifecycle vb' i) = (i \<notin> live vb')"
    "lc_removing (lifecycle vb' i) = (i \<in> marked \<or> i \<notin> live vb')"
    "lc_bus (lifecycle vb' i) = vb_addr vb'" "lc_token (lifecycle vb' i) = of_nat (Suc i)"
    by blast+
qed

lemma appended_devices:
  assumes "appended vb d l vb'" "devices_inv vb"
    and "lc_dev l = bd_dev d" "lc_meta l = bd_meta d" "lc_ctx l = bd_ctx d"
    and "lc_token l = bd_registrationToken d"
    and "vb_nextRegistrationToken vb \<noteq> - 1"
    and "vb_nextRegistrationToken vb' = vb_nextRegistrationToken vb + 1"
  shows "devices_inv vb'"
proof -
  have a: "reg_ok vb' d" using assms appended_simps [OF assms(1,2)] by (simp add: reg_ok_def appended_def)
  have b: "reg_ok vb e \<Longrightarrow> reg_ok vb' e" for e
    using appended_simps [OF assms(1,2)] by (simp add: reg_ok_def)
  have c: "length (vb_lifecycles vb) \<notin> set (map bd_lifecycle (vb_devices vb))"
    using appended_simps(5) [OF assms(1,2)] by (simp add: live_def)
  have "unat (vb_nextRegistrationToken vb + 1) = Suc (unat (vb_nextRegistrationToken vb))"
    using assms(7) unatSuc [of "vb_nextRegistrationToken vb"]
    by (metis add.commute add_eq_0_iff)
  then show ?thesis
    using a b c assms(1,2,8) by (auto simp: devices_inv_def appended_def list_all_iff)
qed

lemma appended_address:
  assumes "appended vb d l vb'" "address_inv vb" "named (vb_busID vb) d"
    and "\<not> vb_allocatedDevIDs vb (em_DevID (bd_meta d))"
    and "vb_allocatedDevIDs vb' = (vb_allocatedDevIDs vb)(em_DevID (bd_meta d) := True)"
    and "bd_dev d \<notin> set (map bd_dev (vb_devices vb))"
    and "em_USBBusID (bd_meta d) \<notin> set (map (em_USBBusID \<circ> bd_meta) (vb_devices vb))"
  shows "address_inv vb'"
  using assms by (simp add: address_inv_def appended_def)

lemma appended_context:
  assumes "appended vb d l vb'" "devices_inv vb" "context_inv vb"
    and "lc_ctx l = vb_nextCtx vb" "vb_nextCtx vb' = vb_nextCtx vb + 1" "vb_emptyCtx vb' = None"
    and "set (vb_cancelled vb') = set_option (vb_emptyCtx vb) \<union> set (vb_cancelled vb)"
  shows "context_inv vb'"
proof -
  have bound: "c < vb_nextCtx vb"
    if "c \<in> set (vb_cancelled vb) \<union> set_option (vb_emptyCtx vb) \<union> set (map lc_ctx (vb_lifecycles vb))" for c
    using assms(3) that by (auto simp: context_inv_def)
  have lcs: "vb_lifecycles vb' = vb_lifecycles vb @ [l]" using assms(1) by (simp add: appended_def)
  have old: "(lc_ctx (lifecycle vb' i) \<in> set (vb_cancelled vb')) = (i \<notin> live vb')"
    if i: "i < length (vb_lifecycles vb)" for i
  proof -
    have m: "lc_ctx (lifecycle vb i) \<in> set (map lc_ctx (vb_lifecycles vb))"
      using i by (simp add: lifecycle_def)
    then have "lc_ctx (lifecycle vb i) \<notin> set_option (vb_emptyCtx vb)"
      using assms(3) unfolding context_inv_def by blast
    then show ?thesis
      using assms(3) i appended_simps [OF assms(1,2)] by (simp add: context_inv_def assms(7))
  qed
  have new: "vb_nextCtx vb \<notin> set (vb_cancelled vb')" using bound assms(7) by fastforce
  have all: "(lc_ctx (lifecycle vb' i) \<in> set (vb_cancelled vb')) = (i \<notin> live vb')"
    if "i < length (vb_lifecycles vb')" for i
  proof (cases "i < length (vb_lifecycles vb)")
    case True
    then show ?thesis by (rule old)
  next
    case False
    then have "i = length (vb_lifecycles vb)" using that appended_simps(2) [OF assms(1,2)] by simp
    then show ?thesis using new appended_simps(1,4) [OF assms(1,2)] assms(4) by simp
  qed
  have "distinct (map lc_ctx (vb_lifecycles vb'))"
    using assms(3,4) bound unfolding lcs context_inv_def by fastforce
  moreover have "c < vb_nextCtx vb'"
    if "c \<in> set (vb_cancelled vb') \<union> set_option (vb_emptyCtx vb') \<union> set (map lc_ctx (vb_lifecycles vb'))" for c
    using that bound [of c] assms(4-7) unfolding lcs by fastforce
  ultimately show ?thesis using all assms(6) unfolding context_inv_def by simp
qed

lemma identity_bound:
  "registrationIdentityMatchesLocked vb s \<Longrightarrow>
   \<exists>i. dm_lifecycle s = Some i \<and> i < length (vb_lifecycles vb)"
  by (auto simp: registrationIdentityMatchesLocked_def split: option.splits)

lemma held_on_fresh:
  "\<forall>s \<in> set ss. registrationIdentityMatchesLocked vb s \<Longrightarrow> held_on (length (vb_lifecycles vb)) ss = 0"
  using identity_bound [of vb] by (fastforce simp: held_on_def filter_empty_conv)

lemma appended_fence:
  assumes "appended (br_bus r) d l vb'" "devices_inv (br_bus r)" "fence_inv r" "lc_mu l = 0"
  shows "fence_inv (r\<lparr>br_bus := vb'\<rparr>)"
proof -
  note ap = appended_simps [OF assms(1,2)]
  have id: "registrationIdentityMatchesLocked vb' s" if "registrationIdentityMatchesLocked (br_bus r) s" for s
    using that ap assms(1)
    by (auto simp: registrationIdentityMatchesLocked_def appended_def split: option.splits)
  have fresh: "held_on (length (vb_lifecycles (br_bus r))) (br_pending r) = 0"
    "held_on (length (vb_lifecycles (br_bus r))) (br_leases r) = 0"
    using assms(3) by (auto simp: fence_inv_def intro!: held_on_fresh)
  have "lc_mu (lifecycle vb' i) = held_on i (br_pending r) + held_on i (br_leases r)"
    if "i < length (vb_lifecycles vb')" for i
  proof (cases "i < length (vb_lifecycles (br_bus r))")
    case True
    then show ?thesis using assms(3) ap by (simp add: fence_inv_def)
  next
    case False
    then have "i = length (vb_lifecycles (br_bus r))" using that ap by simp
    then show ?thesis using fresh ap assms(4) by simp
  qed
  then show ?thesis using assms(3) id ap(1) by (simp add: fence_inv_def)
qed

lemma add_inv:
  assumes "bus_inv r" "export_name name"
    and "addRegistration dev published maxID name (br_bus r) = (res, vb')"
  shows "bus_inv (r\<lparr>br_bus := vb'\<rparr>)"
  using assms(3)
proof (cases rule: addRegistration_cases)
  case (error e)
  then show ?thesis using assms(1) by simp
next
  case (added devID t n)
  let ?vb = "br_bus r"
  have inv: "life_inv ?vb (br_marked r)" "devices_inv ?vb" "address_inv ?vb" "context_inv ?vb"
    "fence_inv r" "close_inv r" using assms(1) by (simp_all add: bus_inv_def)
  define d where "d = \<lparr>bd_dev = dev, bd_meta = export_meta (vb_busID ?vb) devID name,
    bd_ctx = vb_nextCtx ?vb, bd_registrationToken = vb_nextRegistrationToken ?vb + 1,
    bd_lifecycle = length (vb_lifecycles ?vb), bd_published = published\<rparr>"
  define l where "l = \<lparr>lc_bus = vb_addr ?vb, lc_dev = dev,
    lc_meta = export_meta (vb_busID ?vb) devID name, lc_ctx = vb_nextCtx ?vb,
    lc_token = vb_nextRegistrationToken ?vb + 1, lc_active = True, lc_removing = False, lc_mu = 0,
    lc_removalDone = False\<rparr>"
  have vb': "vb' = (cancel_empty ?vb)
        \<lparr>vb_allocatedDevIDs := (vb_allocatedDevIDs ?vb)(devID := True),
         vb_nextCtx := vb_nextCtx ?vb + 1,
         vb_nextRegistrationToken := vb_nextRegistrationToken ?vb + 1,
         vb_devices := vb_devices ?vb @ [d], vb_lifecycles := vb_lifecycles ?vb @ [l]\<rparr>"
    using added(7) unfolding d_def l_def .
  have ap: "appended ?vb d l vb'" unfolding vb' by (simp add: appended_def d_def)
  note fresh = nextAvailable_fresh [OF added(6,4)]
  have dup: "bd_dev e \<noteq> dev" "name \<noteq> [] \<longrightarrow> ExportBusID (bd_meta e) \<noteq> Some name"
    if "e \<in> set (vb_devices ?vb)" for e using added(5) that by (auto simp: duplicate_error_None)
  have "length (vb_lifecycles ?vb) = unat (vb_nextRegistrationToken ?vb)"
    using inv(2) by (simp add: devices_inv_def)
  then have token: "vb_nextRegistrationToken ?vb + 1 = of_nat (Suc (length (vb_lifecycles ?vb)))" by simp
  have "life_inv vb' (br_marked r)" by (rule appended_life [OF ap inv(2,1)]) (simp_all add: l_def token)
  moreover have "devices_inv vb'"
    by (rule appended_devices [OF ap inv(2)]) (simp_all add: l_def d_def vb' added(3))
  moreover have "address_inv vb'"
  proof (rule appended_address [OF ap inv(3)])
    show "named (vb_busID ?vb) d"
      using assms(2) fresh(1) added(1) by (auto simp: named_def d_def)
    show "\<not> vb_allocatedDevIDs ?vb (em_DevID (bd_meta d))" using fresh(3) by (simp add: d_def)
    show "vb_allocatedDevIDs vb' = (vb_allocatedDevIDs ?vb)(em_DevID (bd_meta d) := True)"
      by (simp add: d_def vb')
    show "bd_dev d \<notin> set (map bd_dev (vb_devices ?vb))" using dup(1) by (auto simp: d_def)
    have "em_USBBusID (bd_meta e) \<noteq> em_USBBusID (bd_meta d)" if e: "e \<in> set (vb_devices ?vb)" for e
    proof -
      have "named (vb_busID ?vb) e" "em_DevID (bd_meta e) \<noteq> devID"
        using inv(3) fresh(3) e by (auto simp: address_inv_def list_all_iff)
      then show ?thesis using add_name_fresh [OF assms(2)] dup(2) [OF e] by (simp add: d_def)
    qed
    then show "em_USBBusID (bd_meta d) \<notin> set (map (em_USBBusID \<circ> bd_meta) (vb_devices ?vb))" by fastforce
  qed
  moreover have "context_inv vb'"
    by (rule appended_context [OF ap inv(2,4)]) (simp_all add: l_def vb')
  moreover have "fence_inv (r\<lparr>br_bus := vb'\<rparr>)"
    by (rule appended_fence [OF ap inv(2,5)]) (simp add: l_def)
  moreover have "close_inv (r\<lparr>br_bus := vb'\<rparr>)"
    using inv(6) added(2) by (auto simp: close_inv_def vb')
  ultimately show ?thesis by (simp add: bus_inv_def)
qed

section \<open>Changing one lifecycle\<close>

definition same_identity :: "registrationLifecycle \<Rightarrow> registrationLifecycle \<Rightarrow> bool" where
  "same_identity l l' \<longleftrightarrow> lc_bus l' = lc_bus l \<and> lc_dev l' = lc_dev l \<and> lc_meta l' = lc_meta l \<and>
     lc_ctx l' = lc_ctx l \<and> lc_token l' = lc_token l"

lemma set_lifecycle_identity:
  assumes "same_identity (lifecycle vb i) l" "i < length (vb_lifecycles vb)"
  shows "reg_ok (set_lifecycle i l vb) = reg_ok vb"
    "registrationIdentityMatchesLocked (set_lifecycle i l vb) s = registrationIdentityMatchesLocked vb s"
    "map lc_ctx (vb_lifecycles (set_lifecycle i l vb)) = map lc_ctx (vb_lifecycles vb)"
    "lc_ctx (lifecycle (set_lifecycle i l vb) j) = lc_ctx (lifecycle vb j)"
    "live (set_lifecycle i l vb) = live vb"
  subgoal using assms by (auto simp: fun_eq_iff reg_ok_def same_identity_def)
  subgoal using assms by (auto simp: registrationIdentityMatchesLocked_def same_identity_def split: option.splits)
  subgoal using assms by (simp add: set_lifecycle_def same_identity_def lifecycle_def map_update list_update_same_conv)
  subgoal using assms by (simp add: same_identity_def)
  subgoal by (simp add: live_def)
  done

lemma set_lifecycle_inv:
  assumes "same_identity (lifecycle vb i) l" "i < length (vb_lifecycles vb)"
  shows "devices_inv (set_lifecycle i l vb) = devices_inv vb"
    "address_inv (set_lifecycle i l vb) = address_inv vb"
    "context_inv (set_lifecycle i l vb) = context_inv vb"
proof -
  show "devices_inv (set_lifecycle i l vb) = devices_inv vb"
    by (simp add: devices_inv_def set_lifecycle_identity [OF assms])
  show "address_inv (set_lifecycle i l vb) = address_inv vb" by (simp add: address_inv_def)
  show "context_inv (set_lifecycle i l vb) = context_inv vb"
    unfolding context_inv_def set_lifecycle_identity [OF assms] by simp
qed

lemma life_inv_same_flags:
  assumes "life_inv vb marked" "i < length (vb_lifecycles vb)" "same_identity (lifecycle vb i) l"
    and "lc_active l = lc_active (lifecycle vb i)" "lc_removing l = lc_removing (lifecycle vb i)"
    and "lc_removalDone l = lc_removalDone (lifecycle vb i)"
  shows "life_inv (set_lifecycle i l vb) marked"
  using assms by (auto simp: life_inv_def set_lifecycle_identity(5) same_identity_def)

lemma mark_life:
  assumes "life_inv vb marked" "i \<in> live vb" "i < length (vb_lifecycles vb)"
  shows "life_inv (set_lifecycle i ((lifecycle vb i)\<lparr>lc_removing := True\<rparr>) vb) (insert i marked)"
  using assms by (auto simp: life_inv_def live_def)

lemma close_inv_cong:
  assumes "close_inv r" "vb_closed vb' = vb_closed (br_bus r)" "vb_closeDone vb' = vb_closeDone (br_bus r)"
    and "vb_devices vb' = vb_devices (br_bus r)"
    and "length (vb_lifecycles vb') = length (vb_lifecycles (br_bus r))"
  shows "close_inv (r\<lparr>br_bus := vb'\<rparr>)"
  using assms by (simp add: close_inv_def live_def)

section \<open>Publication and leases\<close>

lemma publish_first_map:
  "publish_first l ds = Some ds' \<Longrightarrow> (\<And>d. f (d\<lparr>bd_published := True\<rparr>) = f d) \<Longrightarrow> map f ds' = map f ds"
  by (induction ds arbitrary: ds') (auto split: if_splits)

lemma list_all_map_cong: "map P xs = map P ys \<Longrightarrow> list_all P xs = list_all P ys"
proof -
  have "list_all P zs \<longleftrightarrow> (\<forall>b \<in> set (map P zs). b)" for zs by (simp add: list_all_iff)
  then show "map P xs = map P ys \<Longrightarrow> list_all P xs = list_all P ys" by (simp only:)
qed

lemma PublishRegistration_cases:
  assumes "PublishRegistration s vb = (res, vb')"
  obtains "res \<noteq> Inr True" "vb' = vb"
  | ds where "res = Inr True" "vb' = vb\<lparr>vb_devices := ds\<rparr>" "snapshot_present vb s" "\<not> vb_closed vb"
    "registrationSnapshotDeviceIdentitySafe vb s" "authenticatesRegistrationLocked vb s"
    "publish_first (dm_lifecycle s) (vb_devices vb) = Some ds"
  using assms by (auto simp: PublishRegistration_def split: if_splits option.splits)

lemma publish_step_inv:
  assumes "bus_inv r" "PublishRegistration s (br_bus r) = (res, vb')"
  shows "bus_inv (r\<lparr>br_bus := vb'\<rparr>)"
  using assms(2)
proof (cases rule: PublishRegistration_cases)
  case 1
  then show ?thesis using assms(1) by simp
next
  case (2 ds)
  let ?vb = "br_bus r"
  have eqs: "map bd_lifecycle ds = map bd_lifecycle (vb_devices ?vb)"
    "map (em_DevID \<circ> bd_meta) ds = map (em_DevID \<circ> bd_meta) (vb_devices ?vb)"
    "map (em_USBBusID \<circ> bd_meta) ds = map (em_USBBusID \<circ> bd_meta) (vb_devices ?vb)"
    "map bd_dev ds = map bd_dev (vb_devices ?vb)"
    "map (reg_ok ?vb) ds = map (reg_ok ?vb) (vb_devices ?vb)"
    "map (named (vb_busID ?vb)) ds = map (named (vb_busID ?vb)) (vb_devices ?vb)"
    by (rule publish_first_map [OF 2(7)]; simp add: reg_ok_def named_def)+
  have live: "live vb' = live ?vb" using eqs(1) unfolding live_def 2(2) by (simp flip: set_map)
  have lc: "lifecycle vb' = lifecycle ?vb" by (simp add: fun_eq_iff lifecycle_def 2(2))
  have ok: "reg_ok vb' = reg_ok ?vb" by (simp add: fun_eq_iff reg_ok_def lc) (simp add: 2(2))
  have id: "registrationIdentityMatchesLocked vb' = registrationIdentityMatchesLocked ?vb"
    unfolding registrationIdentityMatchesLocked_def lc by (simp add: 2(2) cong: option.case_cong)
  have empty: "ds = [] \<longleftrightarrow> vb_devices ?vb = []" using eqs(1) by (metis map_is_Nil_conv)
  have "life_inv vb' (br_marked r)" using assms(1) by (simp add: bus_inv_def life_inv_def live lc) (simp add: 2(2))
  moreover have "devices_inv vb'"
    using assms(1) list_all_map_cong [OF eqs(5)] eqs(1) by (simp add: bus_inv_def devices_inv_def ok) (simp add: 2(2))
  moreover have "address_inv vb'"
    using assms(1) list_all_map_cong [OF eqs(6)] eqs(2-4) by (simp add: bus_inv_def address_inv_def 2(2))
  moreover have "context_inv vb'"
    using assms(1) empty by (simp add: bus_inv_def context_inv_def live lc) (simp add: 2(2))
  moreover have "fence_inv (r\<lparr>br_bus := vb'\<rparr>)"
    using assms(1) by (simp add: bus_inv_def fence_inv_def live lc id) (simp add: 2(2))
  moreover have "close_inv (r\<lparr>br_bus := vb'\<rparr>)"
    using assms(1) empty by (simp add: bus_inv_def close_inv_def live) (simp add: 2(2))
  ultimately show ?thesis by (simp add: bus_inv_def)
qed

lemma authenticates_identity:
  "authenticatesRegistrationLocked vb s \<Longrightarrow> registrationIdentityMatchesLocked vb s"
  by (simp add: authenticatesRegistrationLocked_def)

lemma authenticates_live:
  assumes "authenticatesRegistrationLocked vb s" "life_inv vb marked"
  shows "the (dm_lifecycle s) \<in> live vb" "the (dm_lifecycle s) \<notin> marked"
  using assms identity_bound [of vb s] by (auto simp: authenticatesRegistrationLocked_def life_inv_def)

lemma check_inv:
  assumes "bus_inv r" "acquire_check s (br_bus r)"
  shows "bus_inv (r\<lparr>br_checked := s # br_checked r\<rparr>)"
proof -
  have "registrationIdentityMatchesLocked (br_bus r) s"
    using assms(2) authenticates_identity by (auto simp: acquire_check_def split: if_splits)
  then show ?thesis using assms(1) by (auto simp: bus_inv_def fence_inv_def close_inv_def)
qed

lemma held_on_Cons: "held_on i (s # ss) = (if dm_lifecycle s = Some i then 1 else 0) + held_on i ss"
  by (simp add: held_on_def)

lemma held_on_remove1:
  "s \<in> set ss \<Longrightarrow> held_on i ss = (if dm_lifecycle s = Some i then 1 else 0) + held_on i (remove1 s ss)"
  by (induction ss) (auto simp: held_on_Cons)

text \<open>The snapshots the goroutines hold, all with an identity the bus recognizes.\<close>

definition snapshots :: "bus_run \<Rightarrow> DeviceMeta set" where
  "snapshots r = set (br_checked r) \<union> set (br_pending r) \<union> set (br_leases r)"

lemma snapshots_identity: "bus_inv r \<Longrightarrow> s \<in> snapshots r \<Longrightarrow> registrationIdentityMatchesLocked (br_bus r) s"
  by (auto simp: bus_inv_def fence_inv_def snapshots_def)

lemma snapshots_lifecycle:
  assumes "bus_inv r" "s \<in> snapshots r"
  obtains i where "dm_lifecycle s = Some i" "i < length (vb_lifecycles (br_bus r))"
  using identity_bound [OF snapshots_identity [OF assms]] by blast

text \<open>A change of the fence of one lifecycle with the goroutines that hold it.\<close>

lemma mu_inv:
  assumes "bus_inv r" "i < length (vb_lifecycles (br_bus r))"
    and "r' = r\<lparr>br_bus := set_lifecycle i ((lifecycle (br_bus r) i)\<lparr>lc_mu := n\<rparr>) (br_bus r),
      br_checked := c, br_pending := p, br_leases := q\<rparr>"
    and "snapshots r' \<subseteq> snapshots r" "\<forall>s \<in> set q. the (dm_lifecycle s) \<in> live (br_bus r)"
    and "\<And>j. j \<noteq> i \<Longrightarrow> held_on j p + held_on j q = held_on j (br_pending r) + held_on j (br_leases r)"
    and "held_on i p + held_on i q = n"
  shows "bus_inv r'"
proof -
  let ?vb = "set_lifecycle i ((lifecycle (br_bus r) i)\<lparr>lc_mu := n\<rparr>) (br_bus r)"
  have same: "same_identity (lifecycle (br_bus r) i) ((lifecycle (br_bus r) i)\<lparr>lc_mu := n\<rparr>)"
    by (simp add: same_identity_def)
  note id = set_lifecycle_identity [OF same assms(2)]
  have r': "br_bus r' = ?vb" "br_marked r' = br_marked r" "br_closing r' = br_closing r"
    "br_releasing r' = br_releasing r" "br_checked r' = c" "br_pending r' = p" "br_leases r' = q"
    using assms(3) by simp_all
  have "life_inv ?vb (br_marked r)"
    by (rule life_inv_same_flags [OF _ assms(2) same]) (use assms(1) in \<open>simp_all add: bus_inv_def\<close>)
  moreover have "close_inv (r\<lparr>br_bus := ?vb\<rparr>)"
    by (rule close_inv_cong) (use assms(1) in \<open>simp_all add: bus_inv_def\<close>)
  moreover have "fence_inv r'"
    unfolding fence_inv_def
  proof (intro conjI)
    show "\<forall>s \<in> set (br_checked r') \<union> set (br_pending r') \<union> set (br_leases r').
        registrationIdentityMatchesLocked (br_bus r') s"
      using snapshots_identity [OF assms(1)] assms(4) unfolding r' id snapshots_def by blast
    show "\<forall>s \<in> set (br_leases r'). the (dm_lifecycle s) \<in> live (br_bus r')"
      using assms(5) unfolding r' id .
    show "\<forall>j < length (vb_lifecycles (br_bus r')).
        lc_mu (lifecycle (br_bus r') j) = held_on j (br_pending r') + held_on j (br_leases r')"
      using assms(1,2,6,7) unfolding r' by (simp add: bus_inv_def fence_inv_def)
  qed
  ultimately show ?thesis
    using assms(1) set_lifecycle_inv [OF same assms(2)] unfolding bus_inv_def
    by (simp add: r' close_inv_def)
qed

lemma leases_live: "bus_inv r \<Longrightarrow> s \<in> set (br_leases r) \<Longrightarrow> the (dm_lifecycle s) \<in> live (br_bus r)"
  by (simp add: bus_inv_def fence_inv_def)

lemma mu_count:
  "bus_inv r \<Longrightarrow> i < length (vb_lifecycles (br_bus r)) \<Longrightarrow>
   lc_mu (lifecycle (br_bus r) i) = held_on i (br_pending r) + held_on i (br_leases r)"
  by (simp add: bus_inv_def fence_inv_def)

lemma fence_step_inv:
  assumes "bus_inv r" "s \<in> set (br_checked r)"
  shows "bus_inv (r\<lparr>br_bus := RLock (the (dm_lifecycle s)) (br_bus r),
      br_checked := remove1 s (br_checked r), br_pending := s # br_pending r\<rparr>)"
proof -
  obtain i where i: "dm_lifecycle s = Some i" "i < length (vb_lifecycles (br_bus r))"
    using snapshots_lifecycle [OF assms(1)] assms(2) by (auto simp: snapshots_def)
  show ?thesis
    by (rule mu_inv [OF assms(1) i(2), where n = "lc_mu (lifecycle (br_bus r) i) + 1"
          and c = "remove1 s (br_checked r)" and p = "s # br_pending r" and q = "br_leases r"])
      (use assms i leases_live mu_count set_remove1_subset [of s "br_checked r"] in
        \<open>auto simp: RLock_def snapshots_def held_on_Cons\<close>)
qed

lemma verify_inv:
  assumes "bus_inv r" "s \<in> set (br_pending r)" "acquire_verify s (br_bus r) = (token, vb')"
  shows "bus_inv (r\<lparr>br_bus := vb', br_pending := remove1 s (br_pending r),
      br_leases := (if token = None then br_leases r else s # br_leases r)\<rparr>)"
proof -
  have fi: "fence_inv r" and li: "life_inv (br_bus r) (br_marked r)" using assms(1) by (simp_all add: bus_inv_def)
  have sub: "set (remove1 s (br_pending r)) \<subseteq> set (br_pending r)" by (rule set_remove1_subset)
  obtain i where i: "dm_lifecycle s = Some i" "i < length (vb_lifecycles (br_bus r))"
    using snapshots_lifecycle [OF assms(1)] assms(2) by (auto simp: snapshots_def)
  show ?thesis
  proof (cases "\<not> vb_closed (br_bus r) \<and> authenticatesRegistrationLocked (br_bus r) s")
    case True
    then have v: "token = Some i" "vb' = br_bus r" using assms(3) i by (auto simp: acquire_verify_def)
    have "i \<in> live (br_bus r)" using authenticates_live(1) [OF _ li] True i by fastforce
    then have "fence_inv (r\<lparr>br_pending := remove1 s (br_pending r), br_leases := s # br_leases r\<rparr>)"
      using fi i held_on_remove1 [OF assms(2)] assms(2) sub by (auto simp: fence_inv_def held_on_Cons)
    then show ?thesis using assms(1) v by (simp add: bus_inv_def close_inv_def)
  next
    case False
    then have v: "token = None" "vb' = RUnlock i (br_bus r)" using assms(3) i by (auto simp: acquire_verify_def)
    show ?thesis
      by (rule mu_inv [OF assms(1) i(2), where n = "lc_mu (lifecycle (br_bus r) i) - 1"
            and c = "br_checked r" and p = "remove1 s (br_pending r)" and q = "br_leases r"])
        (use i v sub leases_live [OF assms(1)] mu_count [OF assms(1) i(2)] held_on_remove1 [OF assms(2)] in
          \<open>auto simp: RUnlock_def snapshots_def\<close>)
  qed
qed

lemma release_inv:
  assumes "bus_inv r" "s \<in> set (br_leases r)" "lease_Release (dm_lifecycle s) (br_bus r) = (token, vb')"
  shows "bus_inv (r\<lparr>br_bus := vb', br_leases := remove1 s (br_leases r)\<rparr>)"
proof -
  have sub: "set (remove1 s (br_leases r)) \<subseteq> set (br_leases r)" by (rule set_remove1_subset)
  obtain i where i: "dm_lifecycle s = Some i" "i < length (vb_lifecycles (br_bus r))"
    using snapshots_lifecycle [OF assms(1)] assms(2) by (auto simp: snapshots_def)
  have v: "vb' = RUnlock i (br_bus r)" using assms(3) i by (simp add: lease_Release_def)
  show ?thesis
    by (rule mu_inv [OF assms(1) i(2), where n = "lc_mu (lifecycle (br_bus r) i) - 1"
          and c = "br_checked r" and p = "br_pending r" and q = "remove1 s (br_leases r)"])
      (use i v sub leases_live [OF assms(1)] mu_count [OF assms(1) i(2)] held_on_remove1 [OF assms(2)] in
        \<open>auto simp: RUnlock_def snapshots_def\<close>)
qed

section \<open>Marking for removal\<close>

lemma live_device:
  assumes "i \<in> live vb"
  obtains d where "d \<in> set (vb_devices vb)" "bd_lifecycle d = i"
  using assms by (auto simp: live_def)

text \<open>A bus that differs only in the flags of its lifecycles.\<close>

definition flags_only :: "VirtualBus \<Rightarrow> VirtualBus \<Rightarrow> bool" where
  "flags_only vb vb' \<longleftrightarrow> vb' = vb\<lparr>vb_lifecycles := vb_lifecycles vb'\<rparr> \<and>
     length (vb_lifecycles vb') = length (vb_lifecycles vb) \<and>
     (\<forall>i < length (vb_lifecycles vb). same_identity (lifecycle vb i) (lifecycle vb' i) \<and>
        lc_mu (lifecycle vb' i) = lc_mu (lifecycle vb i))"

lemma flags_only_fields:
  assumes "flags_only vb vb'"
  shows "vb_addr vb' = vb_addr vb" "vb_busID vb' = vb_busID vb"
    "vb_nextRegistrationToken vb' = vb_nextRegistrationToken vb"
    "vb_allocatedDevIDs vb' = vb_allocatedDevIDs vb" "vb_devices vb' = vb_devices vb"
    "vb_emptyCtx vb' = vb_emptyCtx vb" "vb_closed vb' = vb_closed vb"
    "vb_closeDone vb' = vb_closeDone vb" "vb_nextCtx vb' = vb_nextCtx vb"
    "vb_cancelled vb' = vb_cancelled vb" "live vb' = live vb"
    "length (vb_lifecycles vb') = length (vb_lifecycles vb)"
proof -
  have e: "vb' = vb\<lparr>vb_lifecycles := vb_lifecycles vb'\<rparr>" using assms by (simp add: flags_only_def)
  show "vb_addr vb' = vb_addr vb" "vb_busID vb' = vb_busID vb"
    "vb_nextRegistrationToken vb' = vb_nextRegistrationToken vb"
    "vb_allocatedDevIDs vb' = vb_allocatedDevIDs vb" "vb_devices vb' = vb_devices vb"
    "vb_emptyCtx vb' = vb_emptyCtx vb" "vb_closed vb' = vb_closed vb"
    "vb_closeDone vb' = vb_closeDone vb" "vb_nextCtx vb' = vb_nextCtx vb"
    "vb_cancelled vb' = vb_cancelled vb"
    by (subst e, simp)+
  then show "live vb' = live vb" by (simp add: live_def)
  show "length (vb_lifecycles vb') = length (vb_lifecycles vb)" using assms by (simp add: flags_only_def)
qed

lemma flags_only_refl: "flags_only vb vb"
  by (simp add: flags_only_def same_identity_def)

lemma flags_only_trans:
  assumes "flags_only a b" "flags_only b c"
  shows "flags_only a c"
proof -
  have "b = a\<lparr>vb_lifecycles := vb_lifecycles b\<rparr>" "c = b\<lparr>vb_lifecycles := vb_lifecycles c\<rparr>"
    using assms by (simp_all add: flags_only_def)
  then have "c = a\<lparr>vb_lifecycles := vb_lifecycles c\<rparr>" by (metis VirtualBus.update_convs(9) VirtualBus.surjective)
  then show ?thesis using assms by (simp add: flags_only_def same_identity_def)
qed

lemma flags_only_inv:
  assumes "flags_only vb vb'"
  shows "devices_inv vb' = devices_inv vb" "address_inv vb' = address_inv vb"
    "context_inv vb' = context_inv vb"
    "registrationIdentityMatchesLocked vb' = registrationIdentityMatchesLocked vb"
proof -
  note f = flags_only_fields [OF assms]
  have i: "i < length (vb_lifecycles vb) \<Longrightarrow> same_identity (lifecycle vb i) (lifecycle vb' i)" for i
    using assms by (simp add: flags_only_def)
  have "reg_ok vb' = reg_ok vb"
    using i by (auto simp: fun_eq_iff reg_ok_def f same_identity_def)
  then show "devices_inv vb' = devices_inv vb" by (simp add: devices_inv_def f)
  show "address_inv vb' = address_inv vb" by (simp add: address_inv_def f)
  have c: "map lc_ctx (vb_lifecycles vb') = map lc_ctx (vb_lifecycles vb)"
    using i f(12) by (auto simp: list_eq_iff_nth_eq same_identity_def lifecycle_def)
  have "lc_ctx (lifecycle vb' j) = lc_ctx (lifecycle vb j)" if "j < length (vb_lifecycles vb)" for j
    using i [OF that] by (simp add: same_identity_def)
  then show "context_inv vb' = context_inv vb" unfolding context_inv_def f c by auto
  show "registrationIdentityMatchesLocked vb' = registrationIdentityMatchesLocked vb"
    using i by (auto simp: fun_eq_iff registrationIdentityMatchesLocked_def f same_identity_def split: option.splits)
qed

lemma flags_only_mark:
  assumes "i < length (vb_lifecycles vb)"
  shows "flags_only vb (set_lifecycle i ((lifecycle vb i)\<lparr>lc_removing := True\<rparr>) vb)"
  using assms by (simp add: flags_only_def same_identity_def set_lifecycle_def lifecycle_def nth_list_update)

lemma marked_inv:
  assumes "bus_inv r" "flags_only (br_bus r) vb'" "life_inv vb' marked'" "br_marked r \<subseteq> marked'"
  shows "bus_inv (r\<lparr>br_bus := vb', br_marked := marked'\<rparr>)"
proof -
  note f = flags_only_fields [OF assms(2)]
  have "fence_inv (r\<lparr>br_bus := vb'\<rparr>)"
    using assms(1,2) by (simp add: bus_inv_def fence_inv_def f flags_only_inv [OF assms(2)] flags_only_def)
  moreover have "close_inv (r\<lparr>br_bus := vb', br_marked := marked'\<rparr>)"
  proof -
    have c: "close_inv r" using assms(1) by (simp add: bus_inv_def)
    have "live (br_bus r) \<subseteq> br_marked r \<Longrightarrow> live (br_bus r) \<subseteq> marked'"
      using assms(4) by (rule subset_trans [rotated])
    then show ?thesis using c by (simp add: close_inv_def f)
  qed
  ultimately show ?thesis
    using assms(1,3) by (simp add: bus_inv_def flags_only_inv [OF assms(2)] fence_inv_def)
qed

text \<open>What the first critical section of any removal does.\<close>

definition begins_removal :: "VirtualBus \<Rightarrow> remove_outcome \<Rightarrow> VirtualBus \<Rightarrow> bool" where
  "begins_removal vb out vb' \<longleftrightarrow>
     (vb' = vb \<and> outcome_mark out = {}) \<or>
     (\<exists>d \<in> set (vb_devices vb). registrationActiveLocked vb d \<and>
        out = RemoveMarked (deviceMetaLocked vb d) (bd_lifecycle d) \<and>
        vb' = set_lifecycle (bd_lifecycle d)
          ((lifecycle vb (bd_lifecycle d))\<lparr>lc_removing := True\<rparr>) vb)"

lemma remove_found_begins:
  "d \<in> set (vb_devices vb) \<Longrightarrow> remove_found waited d vb = (out, vb') \<Longrightarrow> begins_removal vb out vb'"
  by (auto simp: remove_found_def begins_removal_def markRegistrationRemovalLocked_def split: if_splits)

lemma find_in_set: "find P xs = Some x \<Longrightarrow> x \<in> set xs \<and> P x"
  by (auto simp: find_Some_iff)

lemma begins_nothing: "outcome_mark out = {} \<Longrightarrow> begins_removal vb out vb"
  by (simp add: begins_removal_def)

lemma RemoveDevice_begins:
  "RemoveDeviceRegistrationByIDSnapshot name vb = (out, vb') \<Longrightarrow> begins_removal vb out vb'"
  unfolding RemoveDeviceRegistrationByIDSnapshot_def
  by (auto dest!: find_in_set intro: remove_found_begins begins_nothing split: option.splits)

lemma RemoveIfPresent_begins: "RemoveIfPresent dev vb = (out, vb') \<Longrightarrow> begins_removal vb out vb'"
  unfolding RemoveIfPresent_def
  by (auto dest!: find_in_set intro: remove_found_begins begins_nothing split: option.splits)

lemma RemoveRegistration_cases:
  assumes "RemoveRegistrationIfPresent s vb = (out, vb')"
  obtains (nothing_done) "vb' = vb" "outcome_mark out = {}"
  | (marked) d where "d \<in> set (vb_devices vb)" "dm_lifecycle s = Some (bd_lifecycle d)"
    "authenticatesRegistrationLocked vb s"
    "out = RemoveMarked (deviceMetaLocked vb d) (bd_lifecycle d)"
    "vb' = set_lifecycle (bd_lifecycle d) ((lifecycle vb (bd_lifecycle d))\<lparr>lc_removing := True\<rparr>) vb"
proof (cases "find (\<lambda>d. bd_lifecycle d = the (dm_lifecycle s) \<and> authenticatesRegistrationLocked vb s)
    (vb_devices vb)")
  case None
  then have "vb' = vb \<and> outcome_mark out = {}"
    using assms by (auto simp: RemoveRegistrationIfPresent_def Let_def split: if_splits)
  then show ?thesis using nothing_done by blast
next
  case (Some d)
  then have d: "d \<in> set (vb_devices vb)" "bd_lifecycle d = the (dm_lifecycle s)"
    "authenticatesRegistrationLocked vb s" by (auto dest: find_in_set)
  then have l: "dm_lifecycle s = Some (bd_lifecycle d)"
    using identity_bound [OF authenticates_identity [OF d(3)]] by auto
  have "(vb' = vb \<and> outcome_mark out = {}) \<or>
      (out = RemoveMarked (deviceMetaLocked vb d) (bd_lifecycle d) \<and>
       vb' = set_lifecycle (bd_lifecycle d) ((lifecycle vb (bd_lifecycle d))\<lparr>lc_removing := True\<rparr>) vb)"
    using assms Some unfolding RemoveRegistrationIfPresent_def Let_def
    by (auto simp: markRegistrationRemovalLocked_def split: if_splits)
  then show ?thesis using nothing_done marked [OF d(1) l d(3)] by blast
qed

lemma RemoveRegistration_begins:
  assumes "RemoveRegistrationIfPresent s vb = (out, vb')"
  shows "begins_removal vb out vb'"
  using assms
proof (cases rule: RemoveRegistration_cases)
  case nothing_done
  then show ?thesis using begins_nothing by blast
next
  case (marked d)
  then have "registrationActiveLocked vb d"
    by (simp add: authenticatesRegistrationLocked_def registrationActiveLocked_def)
  then show ?thesis using marked unfolding begins_removal_def by blast
qed

lemma begins_removal_inv:
  assumes "bus_inv r" "begins_removal (br_bus r) out vb'"
  shows "bus_inv (r\<lparr>br_bus := vb', br_marked := outcome_mark out \<union> br_marked r\<rparr>)"
  using assms(2) unfolding begins_removal_def
proof (elim disjE bexE conjE)
  assume "vb' = br_bus r" "outcome_mark out = {}"
  then show ?thesis using assms(1) by simp
next
  fix d
  assume d: "d \<in> set (vb_devices (br_bus r))"
    "out = RemoveMarked (deviceMetaLocked (br_bus r) d) (bd_lifecycle d)"
    "vb' = set_lifecycle (bd_lifecycle d) ((lifecycle (br_bus r) (bd_lifecycle d))\<lparr>lc_removing := True\<rparr>) (br_bus r)"
  have l: "bd_lifecycle d \<in> live (br_bus r)" using d(1) by (simp add: live_def)
  have b: "bd_lifecycle d < length (vb_lifecycles (br_bus r))"
    using assms(1) live_less [OF _ l] by (simp add: bus_inv_def)
  have "life_inv vb' (insert (bd_lifecycle d) (br_marked r))"
    unfolding d(3) using assms(1) by (intro mark_life l b) (simp add: bus_inv_def)
  then show ?thesis
    using marked_inv [OF assms(1) flags_only_mark [OF b]] d(3) by (simp add: d(2) subset_insertI)
qed

lemma mark_all_spec:
  assumes "mark_all ds vb = ((m, w), vb')" "devices_inv vb" "life_inv vb marked"
    and "bd_lifecycle ` set ds \<subseteq> live vb"
  shows "flags_only vb vb' \<and> life_inv vb' (set (map snd m) \<union> marked) \<and>
    set (map snd m) \<union> set w = bd_lifecycle ` set ds"
  using assms
proof (induction ds arbitrary: vb m w marked)
  case Nil
  then show ?case by (simp add: flags_only_refl)
next
  case (Cons d ds)
  let ?i = "bd_lifecycle d"
  have l: "?i \<in> live vb" using Cons.prems(4) by simp
  have b: "?i < length (vb_lifecycles vb)" by (rule live_less [OF Cons.prems(2) l])
  show ?case
  proof (cases "lc_removing (lifecycle vb ?i)")
    case True
    then obtain w' where w: "mark_all ds vb = ((m, w'), vb')" "w = ?i # w'"
      using Cons.prems(1) by (auto split: prod.splits)
    then show ?thesis using Cons.IH [OF w(1) Cons.prems(2,3)] Cons.prems(4) by auto
  next
    case False
    let ?vb = "set_lifecycle ?i ((lifecycle vb ?i)\<lparr>lc_removing := True\<rparr>) vb"
    obtain m' where m: "mark_all ds ?vb = ((m', w), vb')" "m = (deviceMetaLocked vb d, ?i) # m'"
      using Cons.prems(1) False by (auto simp: markRegistrationRemovalLocked_def split: prod.splits)
    note fl = flags_only_mark [OF b]
    have "devices_inv ?vb" using Cons.prems(2) flags_only_inv(1) [OF fl] by simp
    moreover have "life_inv ?vb (insert ?i marked)" by (rule mark_life [OF Cons.prems(3) l b])
    moreover have "bd_lifecycle ` set ds \<subseteq> live ?vb" using Cons.prems(4) by (simp add: live_def)
    ultimately have ih: "flags_only ?vb vb'" "life_inv vb' (set (map snd m') \<union> insert ?i marked)"
      "set (map snd m') \<union> set w = bd_lifecycle ` set ds"
      using Cons.IH [OF m(1)] by blast+
    have ms: "set (map snd m) = insert ?i (set (map snd m'))" by (simp add: m(2))
    have u: "set (map snd m) \<union> marked = set (map snd m') \<union> insert ?i marked" unfolding ms by blast
    have "set (map snd m) \<union> set w = bd_lifecycle ` set (d # ds)"
      unfolding ms using ih(3) by auto
    then show ?thesis using flags_only_trans [OF fl ih(1)] ih(2) unfolding u by blast
  qed
qed

section \<open>Finishing a removal\<close>

lemma find_lifecycle:
  assumes "distinct (map bd_lifecycle ds)" "d \<in> set ds"
  shows "find (\<lambda>e. bd_lifecycle e = bd_lifecycle d) ds = Some d"
  using assms by (induction ds) auto

text \<open>The state after the removal of registration \<open>d\<close> is finished.\<close>

definition removed :: "busDevice \<Rightarrow> VirtualBus \<Rightarrow> VirtualBus" where
  "removed d vb = vb
     \<lparr>vb_cancelled := bd_ctx d # vb_cancelled vb,
      vb_allocatedDevIDs := (vb_allocatedDevIDs vb)(em_DevID (bd_meta d) := False),
      vb_devices := remove1 d (vb_devices vb),
      vb_lifecycles := (vb_lifecycles vb)[bd_lifecycle d :=
        (lifecycle vb (bd_lifecycle d))\<lparr>lc_active := False, lc_removalDone := True\<rparr>]\<rparr>"

lemma finish_removed:
  assumes "devices_inv vb" "d \<in> set (vb_devices vb)"
  shows "finishMarkedRegistrationRemoval (bd_lifecycle d) vb = removed d vb"
proof -
  have f: "find (\<lambda>e. bd_lifecycle e = bd_lifecycle d) (vb_devices vb) = Some d"
    by (rule find_lifecycle) (use assms in \<open>simp_all add: devices_inv_def\<close>)
  have b: "bd_lifecycle d < length (vb_lifecycles vb)"
    by (rule live_less [OF assms(1)]) (use assms(2) in \<open>simp add: live_def\<close>)
  show ?thesis
    using b unfolding finishMarkedRegistrationRemoval_def f
    by (simp add: Let_def removed_def set_lifecycle_def lifecycle_def)
qed

lemma removed_simps:
  assumes "devices_inv vb" "d \<in> set (vb_devices vb)"
  shows "live (removed d vb) = live vb - {bd_lifecycle d}"
    "length (vb_lifecycles (removed d vb)) = length (vb_lifecycles vb)"
    "lifecycle (removed d vb) i = (if i = bd_lifecycle d
       then (lifecycle vb i)\<lparr>lc_active := False, lc_removalDone := True\<rparr> else lifecycle vb i)"
    "map lc_ctx (vb_lifecycles (removed d vb)) = map lc_ctx (vb_lifecycles vb)"
proof -
  have b: "bd_lifecycle d < length (vb_lifecycles vb)"
    by (rule live_less [OF assms(1)]) (use assms(2) in \<open>simp add: live_def\<close>)
  have dist: "distinct (vb_devices vb)" "inj_on bd_lifecycle (set (vb_devices vb))"
    using assms(1) by (auto simp: devices_inv_def distinct_map)
  show "live (removed d vb) = live vb - {bd_lifecycle d}"
    using dist assms(2) by (auto simp: removed_def live_def inj_on_def)
  show "length (vb_lifecycles (removed d vb)) = length (vb_lifecycles vb)" by (simp add: removed_def)
  show "lifecycle (removed d vb) i = (if i = bd_lifecycle d
       then (lifecycle vb i)\<lparr>lc_active := False, lc_removalDone := True\<rparr> else lifecycle vb i)"
    using b by (simp add: removed_def lifecycle_def nth_list_update)
  show "map lc_ctx (vb_lifecycles (removed d vb)) = map lc_ctx (vb_lifecycles vb)"
    using b by (simp add: removed_def lifecycle_def map_update list_update_same_conv)
qed

lemma removed_fields [simp]:
  "vb_addr (removed d vb) = vb_addr vb" "vb_busID (removed d vb) = vb_busID vb"
  "vb_nextRegistrationToken (removed d vb) = vb_nextRegistrationToken vb"
  "vb_emptyCtx (removed d vb) = vb_emptyCtx vb" "vb_closed (removed d vb) = vb_closed vb"
  "vb_closeDone (removed d vb) = vb_closeDone vb" "vb_nextCtx (removed d vb) = vb_nextCtx vb"
  "vb_cancelled (removed d vb) = bd_ctx d # vb_cancelled vb"
  "vb_devices (removed d vb) = remove1 d (vb_devices vb)"
  "vb_allocatedDevIDs (removed d vb) = (vb_allocatedDevIDs vb)(em_DevID (bd_meta d) := False)"
  by (simp_all add: removed_def)

lemma removed_life:
  assumes "devices_inv vb" "d \<in> set (vb_devices vb)" "life_inv vb marked" "bd_lifecycle d \<in> marked"
  shows "life_inv (removed d vb) (marked - {bd_lifecycle d})"
  using assms(3,4) by (auto simp: life_inv_def removed_simps [OF assms(1,2)])

lemma removed_identity:
  assumes "devices_inv vb" "d \<in> set (vb_devices vb)"
  shows "registrationIdentityMatchesLocked (removed d vb) = registrationIdentityMatchesLocked vb"
    "reg_ok (removed d vb) = reg_ok vb"
  by (auto simp: fun_eq_iff registrationIdentityMatchesLocked_def reg_ok_def
      removed_simps(2,3) [OF assms] split: option.splits)

lemma in_remove1: "x \<in> set (remove1 y xs) \<Longrightarrow> x \<in> set xs"
  using set_remove1_subset by (rule subsetD)

lemma distinct_map_remove1: "distinct (map f xs) \<Longrightarrow> distinct (map f (remove1 x xs))"
  by (induction xs) (auto dest: in_remove1)

lemma removed_devices:
  assumes "devices_inv vb" "d \<in> set (vb_devices vb)"
  shows "devices_inv (removed d vb)"
  using assms by (auto simp: devices_inv_def removed_identity [OF assms] removed_simps(2) [OF assms]
      list_all_iff intro: distinct_map_remove1 dest: in_remove1)

lemma removed_address:
  assumes "address_inv vb" "d \<in> set (vb_devices vb)"
  shows "address_inv (removed d vb)"
proof -
  have dist: "distinct (map (em_DevID \<circ> bd_meta) (vb_devices vb))" using assms(1) by (simp add: address_inv_def)
  then have "distinct (vb_devices vb)" "inj_on (em_DevID \<circ> bd_meta) (set (vb_devices vb))"
    by (simp_all add: distinct_map)
  then have "set (map (em_DevID \<circ> bd_meta) (remove1 d (vb_devices vb))) =
      set (map (em_DevID \<circ> bd_meta) (vb_devices vb)) - {em_DevID (bd_meta d)}"
    using assms(2) by (auto simp: inj_on_def)
  then show ?thesis
    using assms(1) by (auto simp: address_inv_def list_all_iff intro: distinct_map_remove1 dest: in_remove1)
qed

lemma removed_context:
  assumes "context_inv vb" "devices_inv vb" "d \<in> set (vb_devices vb)"
  shows "context_inv (removed d vb)"
proof -
  note rm = removed_simps [OF assms(2,3)]
  have b: "bd_lifecycle d < length (vb_lifecycles vb)"
    by (rule live_less [OF assms(2)]) (use assms(3) in \<open>simp add: live_def\<close>)
  have ctx: "lc_ctx (lifecycle vb (bd_lifecycle d)) = bd_ctx d"
    using assms(2,3) by (auto simp: devices_inv_def list_all_iff reg_ok_def)
  have dist: "distinct (map lc_ctx (vb_lifecycles vb))" using assms(1) by (simp add: context_inv_def)
  have inj: "lc_ctx (lifecycle vb i) = bd_ctx d \<longleftrightarrow> i = bd_lifecycle d" if "i < length (vb_lifecycles vb)" for i
    using nth_eq_iff_index_eq [OF dist, of i "bd_lifecycle d"] that b ctx by (simp add: lifecycle_def)
  have m: "bd_ctx d \<in> set (map lc_ctx (vb_lifecycles vb))"
    using b ctx by (metis length_map lifecycle_def nth_map nth_mem)
  then have "vb_devices vb \<noteq> []" "vb_emptyCtx vb = None" "bd_ctx d < vb_nextCtx vb"
    using assms(1,3) by (auto simp: context_inv_def)
  moreover have "(lc_ctx (lifecycle (removed d vb) i) \<in> set (vb_cancelled (removed d vb))) =
      (i \<notin> live (removed d vb))" if "i < length (vb_lifecycles vb)" for i
    using assms(1) that inj [OF that] by (auto simp: context_inv_def rm(1,3))
  ultimately show ?thesis
    using assms(1) unfolding context_inv_def rm(2,4) by auto
qed

lemma held_on_pos: "s \<in> set ss \<Longrightarrow> dm_lifecycle s = Some i \<Longrightarrow> held_on i ss \<noteq> 0"
  by (auto simp: held_on_def filter_empty_conv)

lemma finish_inv:
  assumes "bus_inv r" "i \<in> br_marked r" "lc_mu (lifecycle (br_bus r) i) = 0"
  shows "bus_inv (r\<lparr>br_bus := finishMarkedRegistrationRemoval i (br_bus r), br_marked := br_marked r - {i}\<rparr>)"
proof -
  let ?vb = "br_bus r"
  have inv: "life_inv ?vb (br_marked r)" "devices_inv ?vb" "address_inv ?vb" "context_inv ?vb"
    "fence_inv r" "close_inv r" using assms(1) by (simp_all add: bus_inv_def)
  have "i \<in> live ?vb" using inv(1) assms(2) by (auto simp: life_inv_def)
  then obtain d where d: "d \<in> set (vb_devices ?vb)" "bd_lifecycle d = i" by (rule live_device)
  note fin = finish_removed [OF inv(2) d(1), unfolded d(2)]
  note rm = removed_simps [OF inv(2) d(1)]
  have "life_inv (removed d ?vb) (br_marked r - {i})"
    using removed_life [OF inv(2) d(1) inv(1)] assms(2) d(2) by simp
  moreover have "fence_inv (r\<lparr>br_bus := removed d ?vb\<rparr>)"
  proof -
    have "i < length (vb_lifecycles ?vb)" by (rule live_less [OF inv(2) \<open>i \<in> live ?vb\<close>])
    then have "held_on i (br_leases r) = 0" using mu_count [OF assms(1)] assms(3) by simp
    then have "dm_lifecycle s \<noteq> Some i" if "s \<in> set (br_leases r)" for s
      using held_on_pos [OF that] by blast
    then have "the (dm_lifecycle s) \<noteq> i" if "s \<in> set (br_leases r)" for s
      using that snapshots_lifecycle [OF assms(1), of s] unfolding snapshots_def
      by (metis UnI2 option.sel)
    then show ?thesis
      using inv(5) by (simp add: fence_inv_def removed_identity [OF inv(2) d(1)] rm d(2))
  qed
  moreover have "close_inv (r\<lparr>br_bus := removed d ?vb, br_marked := br_marked r - {i}\<rparr>)"
    using inv(6) d by (auto simp: close_inv_def rm(1,2))
  ultimately show ?thesis
    using removed_devices [OF inv(2) d(1)] removed_address [OF inv(3) d(1)]
      removed_context [OF inv(4,2) d(1)]
    by (simp add: fin bus_inv_def close_inv_def fence_inv_def)
qed

section \<open>Closing\<close>

lemma empty_context_inv:
  assumes "bus_inv r" "GetBusEmptyContext (br_bus r) = (res, vb')"
  shows "bus_inv (r\<lparr>br_bus := vb'\<rparr>)"
proof (cases "vb' = br_bus r")
  case True
  then show ?thesis using assms(1) by simp
next
  case False
  let ?vb = "br_bus r"
  have v: "\<not> vb_closed ?vb" "vb_devices ?vb = []" "vb_emptyCtx ?vb = None"
    "vb' = ?vb\<lparr>vb_emptyCtx := Some (vb_nextCtx ?vb), vb_nextCtx := vb_nextCtx ?vb + 1\<rparr>"
    using assms(2) False by (auto simp: GetBusEmptyContext_def split: if_splits option.splits)
  have lc: "lifecycle vb' = lifecycle ?vb" "live vb' = live ?vb"
    by (simp_all add: fun_eq_iff lifecycle_def live_def v(4))
  have id: "registrationIdentityMatchesLocked vb' = registrationIdentityMatchesLocked ?vb"
    unfolding registrationIdentityMatchesLocked_def lc by (simp add: v(4) cong: option.case_cong)
  have inv: "life_inv ?vb (br_marked r)" "devices_inv ?vb" "address_inv ?vb" "context_inv ?vb"
    "fence_inv r" "close_inv r" using assms(1) by (simp_all add: bus_inv_def)
  have bound: "c < vb_nextCtx ?vb"
    if "c \<in> set (vb_cancelled ?vb) \<union> set (map lc_ctx (vb_lifecycles ?vb))" for c
    using inv(4) that by (auto simp: context_inv_def)
  have "life_inv vb' (br_marked r)" using inv(1) unfolding life_inv_def lc by (simp add: v(4))
  moreover have "devices_inv vb'" using inv(2) unfolding devices_inv_def by (simp add: v(2,4))
  moreover have "address_inv vb'" using inv(3) unfolding address_inv_def by (simp add: v(2,4))
  moreover have "context_inv vb'"
  proof -
    have "c < vb_nextCtx vb'"
      if "c \<in> set (vb_cancelled vb') \<union> set_option (vb_emptyCtx vb') \<union> set (map lc_ctx (vb_lifecycles vb'))" for c
      using that bound [of c] by (auto simp: v(4))
    moreover have "set_option (vb_emptyCtx vb') \<inter>
        (set (vb_cancelled vb') \<union> set (map lc_ctx (vb_lifecycles vb'))) = {}"
      using bound by (fastforce simp: v(4))
    ultimately show ?thesis
      using inv(4) v(1,2) unfolding context_inv_def lc by (simp add: v(4))
  qed
  moreover have "fence_inv (r\<lparr>br_bus := vb'\<rparr>)" using inv(5) by (simp add: fence_inv_def lc id) (simp add: v(4))
  moreover have "close_inv (r\<lparr>br_bus := vb'\<rparr>)"
    by (rule close_inv_cong [OF inv(6)]) (simp_all add: v(4))
  ultimately show ?thesis by (simp add: bus_inv_def)
qed

text \<open>Closing admission and disarming the empty-bus context leave the registrations alone.\<close>

definition admission_closed :: "VirtualBus \<Rightarrow> VirtualBus" where
  "admission_closed vb = cancel_empty (vb\<lparr>vb_closed := True\<rparr>)"

lemma admission_closed_inv:
  "life_inv (admission_closed vb) marked = life_inv vb marked"
  "devices_inv (admission_closed vb) = devices_inv vb"
  "address_inv (admission_closed vb) = address_inv vb"
  "registrationIdentityMatchesLocked (admission_closed vb) = registrationIdentityMatchesLocked vb"
  "live (admission_closed vb) = live vb" "lifecycle (admission_closed vb) = lifecycle vb"
proof -
  show lc: "lifecycle (admission_closed vb) = lifecycle vb"
    by (simp add: fun_eq_iff lifecycle_def admission_closed_def)
  show live: "live (admission_closed vb) = live vb" by (simp add: live_def admission_closed_def)
  show "life_inv (admission_closed vb) marked = life_inv vb marked"
    unfolding life_inv_def lc live by (simp add: admission_closed_def)
  have "reg_ok (admission_closed vb) = reg_ok vb"
    unfolding reg_ok_def lc by (simp add: admission_closed_def)
  then show "devices_inv (admission_closed vb) = devices_inv vb"
    unfolding devices_inv_def by (simp add: admission_closed_def)
  show "address_inv (admission_closed vb) = address_inv vb"
    unfolding address_inv_def by (simp add: admission_closed_def)
  show "registrationIdentityMatchesLocked (admission_closed vb) = registrationIdentityMatchesLocked vb"
    unfolding registrationIdentityMatchesLocked_def lc
    by (simp add: admission_closed_def cong: option.case_cong)
qed

lemma admission_closed_context:
  assumes "context_inv vb"
  shows "context_inv (admission_closed vb)"
proof -
  have "lc_ctx (lifecycle vb i) \<notin> set_option (vb_emptyCtx vb)" if "i < length (vb_lifecycles vb)" for i
  proof -
    have "lc_ctx (lifecycle vb i) \<in> set (map lc_ctx (vb_lifecycles vb))" using that by (simp add: lifecycle_def)
    then show ?thesis using assms unfolding context_inv_def by blast
  qed
  then show ?thesis
    using assms unfolding context_inv_def admission_closed_inv by (auto simp: admission_closed_def)
qed

lemma close_empty_inv:
  assumes "bus_inv r" "CloseIfEmptyContext expected (br_bus r) = (res, vb')"
  shows "bus_inv (r\<lparr>br_bus := vb', br_releasing := (br_releasing r \<or> res = Inr True)\<rparr>)"
proof (cases "res = Inr True")
  case False
  then have "vb' = br_bus r"
    using assms(2) by (auto simp: CloseIfEmptyContext_def split: if_splits option.splits)
  then show ?thesis using assms(1) False by simp
next
  case True
  let ?vb = "br_bus r"
  have v: "vb' = admission_closed ?vb" "\<not> vb_closed ?vb" "vb_devices ?vb = []"
    using assms(2) True by (auto simp: CloseIfEmptyContext_def admission_closed_def split: if_splits option.splits)
  have inv: "life_inv ?vb (br_marked r)" "devices_inv ?vb" "address_inv ?vb" "context_inv ?vb"
    "fence_inv r" "close_inv r" using assms(1) by (simp_all add: bus_inv_def)
  have "fence_inv (r\<lparr>br_bus := vb'\<rparr>)"
    using inv(5) by (simp add: fence_inv_def v(1) admission_closed_inv) (simp add: admission_closed_def)
  moreover have "close_inv (r\<lparr>br_bus := vb', br_releasing := True\<rparr>)"
    using inv(6) v(2,3) by (auto simp: close_inv_def v(1) admission_closed_def)
  ultimately show ?thesis
    using inv True v(1) admission_closed_context by (simp add: bus_inv_def admission_closed_inv fence_inv_def)
qed

lemma mark_all_cancel_empty:
  "mark_all ds (cancel_empty vb) = (case mark_all ds vb of (mw, vb') \<Rightarrow> (mw, cancel_empty vb'))"
proof (induction ds arbitrary: vb)
  case (Cons d ds)
  have lc: "lifecycle (cancel_empty vb) = lifecycle vb" by (simp add: fun_eq_iff lifecycle_def)
  have set: "set_lifecycle i l (cancel_empty vb) = cancel_empty (set_lifecycle i l vb)" for i l
    by (simp add: set_lifecycle_def cancel_empty_def split: option.splits)
  have "markRegistrationRemovalLocked d (cancel_empty vb) =
      (case markRegistrationRemovalLocked d vb of (m, vb') \<Rightarrow> (m, cancel_empty vb'))"
    by (simp add: markRegistrationRemovalLocked_def lc set deviceMetaLocked_def)
  then show ?case by (simp add: Cons.IH lc split: prod.splits)
qed simp

lemma mark_all_waiting:
  "mark_all ds vb = ((m, w), vb') \<Longrightarrow> i \<in> set w \<Longrightarrow>
   lc_removing (lifecycle vb i) \<or> i \<in> set (map snd m)"
proof (induction ds arbitrary: vb m w)
  case (Cons d ds)
  show ?case
  proof (cases "lc_removing (lifecycle vb (bd_lifecycle d))")
    case True
    then obtain w' where w: "mark_all ds vb = ((m, w'), vb')" "w = bd_lifecycle d # w'"
      using Cons.prems(1) by (auto split: prod.splits)
    then show ?thesis using Cons.IH [OF w(1)] Cons.prems(2) True by auto
  next
    case False
    let ?i = "bd_lifecycle d"
    let ?vb = "set_lifecycle ?i ((lifecycle vb ?i)\<lparr>lc_removing := True\<rparr>) vb"
    obtain m' where m: "mark_all ds ?vb = ((m', w), vb')" "m = (deviceMetaLocked vb d, ?i) # m'"
      using Cons.prems(1) False by (auto simp: markRegistrationRemovalLocked_def split: prod.splits)
    have "i \<noteq> ?i \<Longrightarrow> lifecycle ?vb i = lifecycle vb i" by (simp add: lifecycle_def set_lifecycle_def)
    then show ?thesis using Cons.IH [OF m(1) Cons.prems(2)] m(2) by (cases "i = ?i") auto
  qed
qed simp

lemma close_begin_inv:
  assumes "bus_inv r" "close_begin (br_bus r) = (Some (marked, waiting), vb')"
  shows "bus_inv (r\<lparr>br_bus := vb', br_marked := set (map snd marked) \<union> br_marked r,
      br_closing := Some (map snd marked @ waiting)\<rparr>)"
proof -
  let ?vb = "br_bus r"
  let ?ac = "admission_closed ?vb"
  have inv: "life_inv ?vb (br_marked r)" "devices_inv ?vb" "address_inv ?vb" "context_inv ?vb"
    "fence_inv r" "close_inv r" using assms(1) by (simp_all add: bus_inv_def)
  have open_bus: "\<not> vb_closed ?vb" using assms(2) by (auto simp: close_begin_def)
  have m: "mark_all (vb_devices ?vb) ?ac = ((marked, waiting), vb')"
    using assms(2) open_bus unfolding admission_closed_def mark_all_cancel_empty
    by (auto simp: close_begin_def split: prod.splits)
  have sp: "flags_only ?ac vb' \<and> life_inv vb' (set (map snd marked) \<union> br_marked r) \<and>
      set (map snd marked) \<union> set waiting = bd_lifecycle ` set (vb_devices ?vb)"
    by (rule mark_all_spec [OF m]) (use inv in \<open>simp_all add: admission_closed_inv\<close>, simp add: live_def)
  then have fl: "flags_only ?ac vb'" by blast
  note f = flags_only_fields [OF fl] and fi = flags_only_inv [OF fl]
  have ws: "set (map snd marked @ waiting) = live ?vb" using sp by (simp add: live_def)
  have all_marked: "live ?vb \<subseteq> set (map snd marked) \<union> br_marked r"
  proof
    fix i
    assume i: "i \<in> live ?vb"
    then have "i \<in> set (map snd marked) \<or> i \<in> set waiting" using ws by auto
    then have "lc_removing (lifecycle ?vb i) \<or> i \<in> set (map snd marked)"
      using mark_all_waiting [OF m] unfolding admission_closed_inv by blast
    then show "i \<in> set (map snd marked) \<union> br_marked r"
      using inv(1) i live_less [OF inv(2) i] by (auto simp: life_inv_def)
  qed
  have mu: "lc_mu (lifecycle vb' i) = lc_mu (lifecycle ?vb i)" if "i < length (vb_lifecycles ?vb)" for i
    using fl that by (simp add: flags_only_def admission_closed_inv) (simp add: admission_closed_def)
  have len: "length (vb_lifecycles vb') = length (vb_lifecycles ?vb)" using f(12) by (simp add: admission_closed_def)
  have "fence_inv (r\<lparr>br_bus := vb'\<rparr>)"
    using inv(5) mu by (simp add: fence_inv_def fi f(11) admission_closed_inv len)
  moreover have "close_inv (r\<lparr>br_bus := vb', br_marked := set (map snd marked) \<union> br_marked r,
      br_closing := Some (map snd marked @ waiting)\<rparr>)"
    using inv(6) open_bus all_marked ws live_less [OF inv(2)] len f(7,8,11)
    by (auto simp: close_inv_def admission_closed_inv) (auto simp: admission_closed_def)
  ultimately show ?thesis
    using sp inv admission_closed_context [OF inv(4)]
    by (simp add: bus_inv_def fi admission_closed_inv fence_inv_def)
qed

lemma clear_inv:
  assumes "bus_inv r" "br_closing r = Some ws"
    and "\<forall>i \<in> set ws. lc_removalDone (lifecycle (br_bus r) i)"
  shows "bus_inv (r\<lparr>br_bus := close_clear (br_bus r), br_closing := None, br_releasing := True\<rparr>)"
proof -
  let ?vb = "br_bus r"
  have inv: "life_inv ?vb (br_marked r)" "devices_inv ?vb" "address_inv ?vb" "context_inv ?vb"
    "fence_inv r" "close_inv r" using assms(1) by (simp_all add: bus_inv_def)
  have "live ?vb \<subseteq> set ws" using inv(6) assms(2) by (simp add: close_inv_def)
  then have "live ?vb = {}" using assms(3) inv(1) live_less [OF inv(2)] by (fastforce simp: life_inv_def)
  then have e: "vb_devices ?vb = []" by (simp add: live_def)
  have "vb_allocatedDevIDs ?vb = (\<lambda>_. False)" using inv(3) e by (simp add: address_inv_def fun_eq_iff)
  then have "close_clear ?vb = ?vb" by (simp add: close_clear_def)
  then show ?thesis using assms(1,2) e by (simp add: bus_inv_def close_inv_def fence_inv_def)
qed

lemma free_inv:
  assumes "bus_inv r" "br_releasing r" "release_bus (br_bus r) (br_table r) = (vb', table')"
  shows "bus_inv (r\<lparr>br_bus := vb', br_table := table', br_releasing := False\<rparr>)"
proof -
  let ?vb = "br_bus r"
  have v: "vb' = ?vb\<lparr>vb_closeDone := True\<rparr>" using assms(3) by (simp add: release_bus_def)
  have lc: "lifecycle vb' = lifecycle ?vb" "live vb' = live ?vb"
    by (simp_all add: fun_eq_iff lifecycle_def live_def v)
  have id: "registrationIdentityMatchesLocked vb' = registrationIdentityMatchesLocked ?vb"
    "reg_ok vb' = reg_ok ?vb"
    unfolding registrationIdentityMatchesLocked_def reg_ok_def lc by (simp_all add: v cong: option.case_cong)
  have inv: "life_inv ?vb (br_marked r)" "devices_inv ?vb" "address_inv ?vb" "context_inv ?vb"
    "fence_inv r" "close_inv r" using assms(1) by (simp_all add: bus_inv_def)
  have "life_inv vb' (br_marked r)" using inv(1) unfolding life_inv_def lc by (simp add: v)
  moreover have "devices_inv vb'" using inv(2) unfolding devices_inv_def id by (simp add: v)
  moreover have "address_inv vb'" using inv(3) unfolding address_inv_def by (simp add: v)
  moreover have "context_inv vb'" using inv(4) unfolding context_inv_def lc by (simp add: v)
  moreover have "fence_inv (r\<lparr>br_bus := vb'\<rparr>)" using inv(5) by (simp add: fence_inv_def lc id) (simp add: v)
  moreover have "close_inv (r\<lparr>br_bus := vb', br_table := table', br_releasing := False\<rparr>)"
    using inv(6) assms(2) by (auto simp: close_inv_def lc v)
  ultimately show ?thesis by (simp add: bus_inv_def fence_inv_def)
qed

lemma bus_step_inv:
  assumes "bus_step r r'" "bus_inv r"
  shows "bus_inv r'"
  using assms(1)
proof cases
  case add
  then show ?thesis using add_inv [OF assms(2)] by blast
next
  case publish
  then show ?thesis using publish_step_inv [OF assms(2)] by blast
next
  case check
  then show ?thesis using check_inv [OF assms(2)] by blast
next
  case fence
  then show ?thesis using fence_step_inv [OF assms(2)] by blast
next
  case verify
  then show ?thesis using verify_inv [OF assms(2)] by blast
next
  case release
  then show ?thesis using release_inv [OF assms(2)] by blast
next
  case remove_registration
  then show ?thesis using begins_removal_inv [OF assms(2) RemoveRegistration_begins] by blast
next
  case remove_device
  then show ?thesis using begins_removal_inv [OF assms(2) RemoveIfPresent_begins] by blast
next
  case remove_by_id
  then show ?thesis using begins_removal_inv [OF assms(2) RemoveDevice_begins] by blast
next
  case finish
  then show ?thesis using finish_inv [OF assms(2)] by blast
next
  case empty_context
  then show ?thesis using empty_context_inv [OF assms(2)] by blast
next
  case close_empty
  then show ?thesis using close_empty_inv [OF assms(2)] by blast
next
  case close
  then show ?thesis using close_begin_inv [OF assms(2)] by blast
next
  case clear
  then show ?thesis using clear_inv [OF assms(2)] by blast
next
  case free
  then show ?thesis using free_inv [OF assms(2)] by blast
qed

lemma bus_reach_inv: "bus_reach addr busID table r \<Longrightarrow> bus_inv r"
  by (induction rule: bus_reach.induct) (auto intro: bus_inv_start bus_step_inv)

lemma bus_reach_steps: "bus_step\<^sup>*\<^sup>* r r' \<Longrightarrow> bus_reach addr busID table r \<Longrightarrow> bus_reach addr busID table r'"
  by (induction rule: rtranclp_induct) (auto intro: bus_reach.step)

lemma bus_steps_inv: "bus_step\<^sup>*\<^sup>* r r' \<Longrightarrow> bus_inv r \<Longrightarrow> bus_inv r'"
  by (induction rule: rtranclp_induct) (auto intro: bus_step_inv)

end
