(* ===== verification/Virtual_Bus_Safety.thy ===== *)
theory Virtual_Bus_Safety
  imports Virtual_Bus_Runs
begin

text \<open>
  What every run of a virtual bus guarantees: exact addresses and names, leases that fence
  removal, snapshots of removed registrations that stay powerless, lookup by export name,
  and a close that drains the bus and can always complete.
\<close>

section \<open>What every run guarantees\<close>

lemma registered_token_inj:
  assumes "devices_inv vb" "life_inv vb marked"
  shows "distinct (map bd_registrationToken (vb_devices vb))"
proof -
  have ok: "bd_lifecycle d < length (vb_lifecycles vb) \<and>
      bd_registrationToken d = of_nat (Suc (bd_lifecycle d))" if "d \<in> set (vb_devices vb)" for d
  proof -
    have r: "reg_ok vb d" using assms(1) that by (simp add: devices_inv_def list_all_iff)
    then have "bd_lifecycle d < length (vb_lifecycles vb)" by (simp add: reg_ok_def)
    moreover from this have "lc_token (lifecycle vb (bd_lifecycle d)) = of_nat (Suc (bd_lifecycle d))"
      using assms(2) by (simp add: life_inv_def)
    ultimately show ?thesis using r by (simp add: reg_ok_def del: of_nat_Suc)
  qed
  have len: "length (vb_lifecycles vb) < 2 ^ 64"
    using assms(1) unsigned_less [where ?'a = nat, of "vb_nextRegistrationToken vb"]
    by (simp add: devices_inv_def)
  have t: "unat (bd_registrationToken d) = Suc (bd_lifecycle d)" if "d \<in> set (vb_devices vb)" for d
  proof -
    have "Suc (bd_lifecycle d) < 2 ^ 64" using ok [OF that] len by simp
    then have "unat (of_nat (Suc (bd_lifecycle d)) :: u64) = Suc (bd_lifecycle d)"
      by (intro unat_of_nat_less) simp
    then show ?thesis using ok [OF that] by (simp only:)
  qed
  have "bd_lifecycle d = bd_lifecycle e"
    if "d \<in> set (vb_devices vb)" "e \<in> set (vb_devices vb)" "bd_registrationToken d = bd_registrationToken e" for d e
    using t [OF that(1)] t [OF that(2)] unfolding that(3) by linarith
  moreover have dist: "distinct (vb_devices vb)" "inj_on bd_lifecycle (set (vb_devices vb))"
    using assms(1) by (simp_all add: devices_inv_def distinct_map)
  ultimately have "inj_on bd_registrationToken (set (vb_devices vb))"
    by (intro inj_onI) (blast dest: inj_onD)
  then show ?thesis using dist(1) by (simp add: distinct_map)
qed

text \<open>C3: In every reachable state of a bus the registrations have pairwise different
  addresses, export names, devices and registration tokens; no address is zero, and an
  address is reserved exactly while a registration has it.\<close>

theorem bus_addresses_exact:
  assumes "bus_reach addr busID table r"
  shows "distinct (map (em_DevID \<circ> bd_meta) (vb_devices (br_bus r))) \<and>
    distinct (map (em_USBBusID \<circ> bd_meta) (vb_devices (br_bus r))) \<and>
    distinct (map bd_dev (vb_devices (br_bus r))) \<and>
    distinct (map bd_registrationToken (vb_devices (br_bus r))) \<and>
    0 \<notin> set (map (em_DevID \<circ> bd_meta) (vb_devices (br_bus r))) \<and>
    (\<forall>a. vb_allocatedDevIDs (br_bus r) a = (a \<in> set (map (em_DevID \<circ> bd_meta) (vb_devices (br_bus r)))))"
proof -
  have "bus_inv r" by (rule bus_reach_inv [OF assms])
  then have a: "address_inv (br_bus r)" "devices_inv (br_bus r)" "life_inv (br_bus r) (br_marked r)"
    by (simp_all add: bus_inv_def)
  have "0 \<notin> set (map (em_DevID \<circ> bd_meta) (vb_devices (br_bus r)))"
    using a(1) by (auto simp: address_inv_def list_all_iff named_def)
  then show ?thesis using a(1) registered_token_inj [OF a(2,3)] unfolding address_inv_def by blast
qed

text \<open>C1: While a goroutine holds an operation lease, the registration it was granted for stays
  on the bus, under the same device, metadata, context and token, and its context is not
  cancelled: no removal and no close gets past the lease.\<close>

theorem lease_fences_removal:
  assumes "bus_reach addr busID table r" "s \<in> set (br_leases r)"
  shows "\<exists>d \<in> set (vb_devices (br_bus r)). bd_dev d = dm_Dev s \<and> bd_meta d = dm_Meta s \<and>
    Some (bd_ctx d) = dm_Context s \<and> bd_registrationToken d = dm_RegistrationToken s \<and>
    Some (bd_lifecycle d) = dm_lifecycle s \<and> bd_ctx d \<notin> set (vb_cancelled (br_bus r))"
proof -
  let ?vb = "br_bus r"
  have inv: "bus_inv r" by (rule bus_reach_inv [OF assms(1)])
  have id: "registrationIdentityMatchesLocked ?vb s"
    by (rule snapshots_identity [OF inv]) (use assms(2) in \<open>simp add: snapshots_def\<close>)
  then obtain i where i: "dm_lifecycle s = Some i" "i < length (vb_lifecycles ?vb)"
    using identity_bound by blast
  have "i \<in> live ?vb" using leases_live [OF inv assms(2)] i by simp
  then obtain d where d: "d \<in> set (vb_devices ?vb)" "bd_lifecycle d = i" by (rule live_device)
  have "reg_ok ?vb d" using inv d(1) by (simp add: bus_inv_def devices_inv_def list_all_iff)
  moreover have "lc_ctx (lifecycle ?vb i) \<notin> set (vb_cancelled ?vb)"
    using inv i(2) \<open>i \<in> live ?vb\<close> by (simp add: bus_inv_def context_inv_def)
  ultimately show ?thesis
    using id i d by (intro bexI [of _ d]) (auto simp: registrationIdentityMatchesLocked_def reg_ok_def)
qed

section \<open>Removal is for good\<close>

text \<open>What no step undoes: the identity of an allocated lifecycle and its removal mark.\<close>

definition keeps_removals :: "VirtualBus \<Rightarrow> VirtualBus \<Rightarrow> bool" where
  "keeps_removals vb vb' \<longleftrightarrow> vb_addr vb' = vb_addr vb \<and>
     length (vb_lifecycles vb) \<le> length (vb_lifecycles vb') \<and>
     (\<forall>i < length (vb_lifecycles vb). same_identity (lifecycle vb i) (lifecycle vb' i) \<and>
        (lc_removing (lifecycle vb i) \<longrightarrow> lc_removing (lifecycle vb' i)))"

lemma keeps_same: "vb_addr vb' = vb_addr vb \<Longrightarrow> vb_lifecycles vb' = vb_lifecycles vb \<Longrightarrow> keeps_removals vb vb'"
  by (simp add: keeps_removals_def same_identity_def lifecycle_def)

lemma keeps_refl [simp]: "keeps_removals vb vb"
  by (rule keeps_same) simp_all

lemma keeps_trans: "keeps_removals a b \<Longrightarrow> keeps_removals b c \<Longrightarrow> keeps_removals a c"
  by (auto simp: keeps_removals_def same_identity_def)

lemma keeps_set_lifecycle:
  assumes "same_identity (lifecycle vb i) l" "lc_removing (lifecycle vb i) \<longrightarrow> lc_removing l"
  shows "keeps_removals vb (set_lifecycle i l vb)"
proof -
  have upd: "j < length xs \<Longrightarrow> xs[i := l] ! j = (if j = i then l else xs ! j)" for j and xs :: "registrationLifecycle list"
    by auto
  show ?thesis
    using assms by (simp add: keeps_removals_def set_lifecycle_def lifecycle_def same_identity_def upd)
qed

lemma keeps_add:
  assumes "addRegistration dev published maxID name vb = (res, vb')"
  shows "keeps_removals vb vb'"
  using assms
proof (cases rule: addRegistration_cases)
  case error
  then show ?thesis by (simp add: keeps_same)
next
  case added
  then show ?thesis by (simp add: keeps_removals_def same_identity_def lifecycle_def nth_append)
qed

lemma keeps_begins:
  assumes "begins_removal vb out vb'"
  shows "keeps_removals vb vb'"
  using assms unfolding begins_removal_def
  by (auto simp: keeps_same same_identity_def intro!: keeps_set_lifecycle)

lemma keeps_finish: "keeps_removals vb (finishMarkedRegistrationRemoval i vb)"
proof -
  have fin: "keeps_removals vb1 (set_lifecycle i ((lifecycle vb1 i)\<lparr>lc_removalDone := True\<rparr>) vb1)" for vb1
    by (rule keeps_set_lifecycle) (simp_all add: same_identity_def)
  show ?thesis
  proof (cases "find (\<lambda>d. bd_lifecycle d = i) (vb_devices vb)")
    case None
    then show ?thesis using fin by (simp add: finishMarkedRegistrationRemoval_def)
  next
    case (Some d)
    define vb1 where "vb1 = vb\<lparr>vb_cancelled := bd_ctx d # vb_cancelled vb,
      vb_allocatedDevIDs := (vb_allocatedDevIDs vb)(em_DevID (bd_meta d) := False),
      vb_devices := remove1 d (vb_devices vb)\<rparr>"
    define vb2 where "vb2 = set_lifecycle i ((lifecycle vb i)\<lparr>lc_active := False\<rparr>) vb1"
    have "keeps_removals vb vb1" by (rule keeps_same) (simp_all add: vb1_def)
    moreover have "keeps_removals vb1 vb2"
      unfolding vb2_def by (rule keeps_set_lifecycle) (simp_all add: same_identity_def lifecycle_def vb1_def)
    moreover have "finishMarkedRegistrationRemoval i vb =
        set_lifecycle i ((lifecycle vb2 i)\<lparr>lc_removalDone := True\<rparr>) vb2"
      by (simp add: finishMarkedRegistrationRemoval_def Some vb1_def vb2_def Let_def)
    ultimately show ?thesis using fin [of vb2] keeps_trans by metis
  qed
qed

lemma keeps_mark_all: "mark_all ds vb = (mw, vb') \<Longrightarrow> keeps_removals vb vb'"
proof (induction ds arbitrary: vb mw)
  case Nil
  then show ?case by (simp add: keeps_same)
next
  case (Cons d ds)
  have "keeps_removals vb (snd (markRegistrationRemovalLocked d vb))"
    unfolding markRegistrationRemovalLocked_def snd_conv
    by (rule keeps_set_lifecycle) (simp_all add: same_identity_def)
  then show ?case using Cons
    by (auto split: if_splits prod.splits intro: keeps_trans)
qed

lemma keeps_mu: "keeps_removals vb (set_lifecycle i ((lifecycle vb i)\<lparr>lc_mu := n\<rparr>) vb)"
  by (rule keeps_set_lifecycle) (simp_all add: same_identity_def)

lemma keeps_cancel_empty: "keeps_removals vb (cancel_empty vb)"
  by (rule keeps_same) simp_all

lemma keeps_step:
  assumes "bus_step r r'"
  shows "keeps_removals (br_bus r) (br_bus r')"
  using assms
proof cases
  case add
  then show ?thesis using keeps_add by fastforce
next
  case publish
  then show ?thesis
    by (auto simp: PublishRegistration_def intro!: keeps_same split: if_splits option.splits)
next
  case (verify s token vb')
  then show ?thesis
    by (auto simp: acquire_verify_def RUnlock_def keeps_mu split: if_splits)
next
  case (release s token vb')
  then show ?thesis
    by (auto simp: lease_Release_def RUnlock_def keeps_mu split: option.splits)
next
  case remove_registration
  then show ?thesis using keeps_begins [OF RemoveRegistration_begins] by fastforce
next
  case remove_device
  then show ?thesis using keeps_begins [OF RemoveIfPresent_begins] by fastforce
next
  case remove_by_id
  then show ?thesis using keeps_begins [OF RemoveDevice_begins] by fastforce
next
  case finish
  then show ?thesis using keeps_finish by simp
next
  case empty_context
  then show ?thesis
    by (auto simp: GetBusEmptyContext_def intro!: keeps_same split: if_splits option.splits)
next
  case close_empty
  then show ?thesis
    by (auto simp: CloseIfEmptyContext_def intro!: keeps_same split: if_splits option.splits)
next
  case (close marked waiting vb')
  then obtain vb1 where vb1: "mark_all (vb_devices (br_bus r)) ((br_bus r)\<lparr>vb_closed := True\<rparr>) = ((marked, waiting), vb1)"
    "vb' = cancel_empty vb1"
    by (auto simp: close_begin_def split: if_splits prod.splits)
  have "keeps_removals (br_bus r) ((br_bus r)\<lparr>vb_closed := True\<rparr>)" by (rule keeps_same) simp_all
  then show ?thesis
    using keeps_trans [OF keeps_trans [OF _ keeps_mark_all [OF vb1(1)]] keeps_cancel_empty] close(1) vb1(2) by simp
qed (auto simp: RLock_def keeps_mu close_clear_def release_bus_def intro: keeps_same)

lemma keeps_steps: "bus_step\<^sup>*\<^sup>* r r' \<Longrightarrow> keeps_removals (br_bus r) (br_bus r')"
  by (induction rule: rtranclp_induct) (auto intro: keeps_trans keeps_step keeps_same)

lemma keeps_identity:
  "keeps_removals vb vb' \<Longrightarrow> registrationIdentityMatchesLocked vb s \<Longrightarrow> registrationIdentityMatchesLocked vb' s"
  by (auto simp: registrationIdentityMatchesLocked_def keeps_removals_def same_identity_def split: option.splits)

text \<open>C2: A snapshot of a registration whose removal has begun is powerless for ever: in every
  later state of the bus, whatever was added since, it does not authenticate, it publishes
  and removes nothing and gets no lease, and each of these calls leaves the bus as it is;
  the bus still recognizes it as one of its own.\<close>

theorem stale_snapshot_powerless:
  assumes "bus_step\<^sup>*\<^sup>* r r'" "registrationIdentityMatchesLocked (br_bus r) s"
    and "lc_removing (lifecycle (br_bus r) (the (dm_lifecycle s)))"
  shows "\<not> AuthenticatesRegistration s (br_bus r') \<and>
    registrationIdentityMatchesLocked (br_bus r') s \<and>
    fst (PublishRegistration s (br_bus r')) \<noteq> Inr True \<and>
    snd (PublishRegistration s (br_bus r')) = br_bus r' \<and>
    AcquireRegistrationOperation s (br_bus r') = (None, br_bus r') \<and>
    outcome_mark (fst (RemoveRegistrationIfPresent s (br_bus r'))) = {} \<and>
    snd (RemoveRegistrationIfPresent s (br_bus r')) = br_bus r'"
proof -
  note keep = keeps_steps [OF assms(1)]
  obtain i where i: "dm_lifecycle s = Some i" "i < length (vb_lifecycles (br_bus r))"
    using identity_bound [OF assms(2)] by blast
  have rem: "lc_removing (lifecycle (br_bus r') (the (dm_lifecycle s)))"
    using keep assms(3) i by (simp add: keeps_removals_def)
  have auth: "\<not> authenticatesRegistrationLocked (br_bus r') s"
    using rem by (simp add: authenticatesRegistrationLocked_def)
  have "fst (PublishRegistration s (br_bus r')) \<noteq> Inr True \<and> snd (PublishRegistration s (br_bus r')) = br_bus r'"
    using auth by (simp add: PublishRegistration_def)
  moreover have "outcome_mark (fst (RemoveRegistrationIfPresent s (br_bus r'))) = {} \<and>
      snd (RemoveRegistrationIfPresent s (br_bus r')) = br_bus r'"
    using rem by (simp add: RemoveRegistrationIfPresent_def Let_def)
  moreover have "\<not> AuthenticatesRegistration s (br_bus r')" using auth by (simp add: AuthenticatesRegistration_def)
  moreover have "AcquireRegistrationOperation s (br_bus r') = (None, br_bus r')"
    using auth by (simp add: AcquireRegistrationOperation_def acquire_check_def)
  ultimately show ?thesis using keeps_identity [OF keep assms(2)] by blast
qed

section \<open>Names, addresses and closing\<close>

lemma find_unique:
  assumes "\<And>x y. x \<in> set xs \<Longrightarrow> y \<in> set xs \<Longrightarrow> P x \<Longrightarrow> P y \<Longrightarrow> x = y"
  shows "find P xs = Some x \<longleftrightarrow> x \<in> set xs \<and> P x"
proof
  assume "x \<in> set xs \<and> P x"
  then obtain y where "find P xs = Some y" by (metis find_None_iff option.exhaust)
  then show "find P xs = Some x" using find_in_set assms \<open>x \<in> set xs \<and> P x\<close> by metis
qed (rule find_in_set)

lemma named_export:
  assumes "named b d" "(0 :: u8) \<notin> set name" "length name < 32"
  shows "em_USBBusID (bd_meta d) = copy_into (zeros 32) name \<longleftrightarrow> ExportBusID (bd_meta d) = Some name"
proof -
  obtain n where n: "export_name n" "bd_meta d = export_meta b (em_DevID (bd_meta d)) n"
    using assms(1) by (auto simp: named_def)
  define x where "x = em_DevID (bd_meta d)"
  have m: "bd_meta d = export_meta b x n" using n(2) by (simp add: x_def)
  note tw = takeWhile_padded(1) [OF assms(2,3)] takeWhile_padded(1) [OF exported_text(1,3) [OF n(1)], of b x]
  have "copy_into (zeros 32) (exported b x n) = copy_into (zeros 32) name \<longleftrightarrow> exported b x n = name"
    using tw by metis
  then show ?thesis unfolding m ExportBusID_export_meta [OF n(1)] by simp
qed

text \<open>C25: An import by bus name selects exactly: in every reachable state the lookup of a name
  returns the snapshot of the discoverable registration whose export identity is that name,
  and there is none other.\<close>

theorem import_selects_exactly:
  assumes "bus_reach addr busID table r" "(0 :: u8) \<notin> set name" "name \<noteq> []" "length name < 32"
  shows "GetDeviceImportSnapshotByBusID name (br_bus r) = Some s \<longleftrightarrow>
    (\<exists>d \<in> set (vb_devices (br_bus r)). deviceDiscoverableLocked (br_bus r) d \<and>
       ExportBusID (bd_meta d) = Some name \<and> s = deviceMetaLocked (br_bus r) d)"
proof -
  let ?vb = "br_bus r"
  let ?P = "\<lambda>d. deviceDiscoverableLocked ?vb d \<and> em_USBBusID (bd_meta d) = copy_into (zeros 32) name"
  have a: "address_inv ?vb" using bus_reach_inv [OF assms(1)] by (simp add: bus_inv_def)
  then have "inj_on (em_USBBusID \<circ> bd_meta) (set (vb_devices ?vb))"
    by (simp add: address_inv_def distinct_map)
  then have u: "find ?P (vb_devices ?vb) = Some d \<longleftrightarrow> d \<in> set (vb_devices ?vb) \<and> ?P d" for d
    by (intro find_unique) (simp add: inj_on_def)
  have e: "em_USBBusID (bd_meta d) = copy_into (zeros 32) name \<longleftrightarrow> ExportBusID (bd_meta d) = Some name"
    if "d \<in> set (vb_devices ?vb)" for d
    by (rule named_export [OF _ assms(2,4), of "vb_busID ?vb"]) (use a that in \<open>simp add: address_inv_def list_all_iff\<close>)
  have "GetDeviceImportSnapshotByBusID name ?vb = Some s \<longleftrightarrow>
      (\<exists>d. find ?P (vb_devices ?vb) = Some d \<and> s = deviceMetaLocked ?vb d)"
    using assms(3,4) unfolding GetDeviceImportSnapshotByBusID_def by auto
  then show ?thesis unfolding u using e by blast
qed

lemma duplicate_error_kind: "duplicate_error dev name ds = Some e \<Longrightarrow> e \<noteq> ErrNoAddress"
  by (induction ds) (auto split: if_splits)

text \<open>C27: A registration gets the smallest address that no registration of the bus has, within
  the ceiling asked for; the addition fails for want of an address only when every address
  up to the ceiling is taken.\<close>

theorem add_smallest_address:
  assumes "bus_reach addr busID table r"
    and "addRegistration dev published maxID name (br_bus r) = (res, vb')"
    and "used = set (map (em_DevID \<circ> bd_meta) (vb_devices (br_bus r)))"
  shows "(\<forall>s. res = Inr s \<longrightarrow> 1 \<le> em_DevID (dm_Meta s) \<and> em_DevID (dm_Meta s) \<le> maxID \<and>
      em_DevID (dm_Meta s) \<notin> used \<and> (\<forall>b. 1 \<le> b \<and> b < em_DevID (dm_Meta s) \<longrightarrow> b \<in> used)) \<and>
    (res = Inl ErrNoAddress \<longrightarrow> (\<forall>b. 1 \<le> b \<and> b \<le> maxID \<longrightarrow> b \<in> used))"
proof -
  let ?vb = "br_bus r"
  have used: "vb_allocatedDevIDs ?vb b = (b \<in> used)" for b
    using bus_reach_inv [OF assms(1)] unfolding assms(3) by (simp add: bus_inv_def address_inv_def)
  show ?thesis
    using assms(2)
  proof (cases rule: addRegistration_cases)
    case (error e)
    have "\<forall>b. 1 \<le> b \<and> b \<le> maxID \<longrightarrow> b \<in> used" if "res = Inl ErrNoAddress"
    proof -
      have n: "nextAvailableDeviceIDLocked ?vb maxID = None" "maxID \<noteq> 0"
        using assms(2) that by (auto simp: addRegistration_def validateDeviceIdentity_def Let_def
            split: option.splits if_splits usb_device.splits dest: duplicate_error_kind)
      then have "1 \<le> maxID" by (simp add: word_le_nat_alt Suc_leI unat_gt_0)
      then show ?thesis
        using nextAvailableDeviceID_spec [of 1 maxID "vb_allocatedDevIDs ?vb"] n(1)
        by (simp add: nextAvailableDeviceIDLocked_def used)
    qed
    then show ?thesis using error by simp
  next
    case (added devID t n)
    have s: "res = Inr s \<Longrightarrow> em_DevID (dm_Meta s) = devID" for s
      using added(7,8) by (auto simp: deviceMetaLocked_def)
    have "1 \<le> devID" using nextAvailable_fresh(1) [OF added(6,4)] by (simp add: word_le_nat_alt Suc_leI unat_gt_0)
    then show ?thesis
      using nextAvailable_fresh [OF added(6,4)] s added(8) by (auto simp: used)
  qed
qed

text \<open>C26: When a close has completed, the bus is drained: no registration, lease or pending
  removal is left, no address is reserved, and every further addition is refused without
  changing the bus.\<close>

theorem closed_bus_drained:
  assumes "bus_reach addr busID table r" "vb_closeDone (br_bus r)"
  shows "vb_devices (br_bus r) = [] \<and> br_leases r = [] \<and> br_marked r = {} \<and> br_closing r = None \<and>
    (\<forall>a. \<not> vb_allocatedDevIDs (br_bus r) a) \<and>
    (\<exists>e. addRegistration dev published maxID name (br_bus r) = (Inl e, br_bus r))"
proof -
  let ?vb = "br_bus r"
  have inv: "bus_inv r" by (rule bus_reach_inv [OF assms(1)])
  then have c: "close_inv r" "address_inv ?vb" "life_inv ?vb (br_marked r)" by (simp_all add: bus_inv_def)
  have cl: "vb_closed ?vb" "br_closing r = None"
    using c(1) assms(2) by (auto simp: close_inv_def)
  then have e: "vb_devices ?vb = []" using c(1) by (simp add: close_inv_def)
  then have l: "live ?vb = {}" by (simp add: live_def)
  then have "br_marked r = {}" using c(3) by (simp add: life_inv_def)
  moreover have "br_leases r = []" using leases_live [OF inv] l by (cases "br_leases r") auto
  moreover have "\<not> vb_allocatedDevIDs ?vb a" for a using c(2) e by (simp add: address_inv_def)
  moreover have "\<exists>e. addRegistration dev published maxID name ?vb = (Inl e, ?vb)"
    using cl(1) by (simp add: addRegistration_def split: option.split)
  ultimately show ?thesis using e cl(2) by blast
qed

lemma finish_all:
  assumes "bus_inv r" "br_closing r = Some ws" "br_pending r = []" "br_leases r = []"
  shows "\<exists>r'. bus_step\<^sup>*\<^sup>* r r' \<and> br_closing r' = Some ws \<and> vb_devices (br_bus r') = [] \<and>
    vb_busID (br_bus r') = vb_busID (br_bus r)"
  using assms
proof (induction "length (vb_devices (br_bus r))" arbitrary: r rule: less_induct)
  case less
  let ?vb = "br_bus r"
  show ?case
  proof (cases "vb_devices ?vb")
    case Nil
    then show ?thesis using less.prems(2) by blast
  next
    case (Cons d ds)
    let ?i = "bd_lifecycle d"
    have d: "d \<in> set (vb_devices ?vb)" using Cons by simp
    have inv: "devices_inv ?vb" "close_inv r" using less.prems(1) by (simp_all add: bus_inv_def)
    have l: "?i \<in> live ?vb" using d by (simp add: live_def)
    then have m: "?i \<in> br_marked r" using inv(2) less.prems(2) by (auto simp: close_inv_def)
    have mu: "lc_mu (lifecycle ?vb ?i) = 0"
      using mu_count [OF less.prems(1) live_less [OF inv(1) l]] less.prems(3,4) by (simp add: held_on_def)
    define r1 where "r1 = r\<lparr>br_bus := finishMarkedRegistrationRemoval ?i ?vb, br_marked := br_marked r - {?i}\<rparr>"
    have st: "bus_step r r1" unfolding r1_def by (rule bus_step.finish [OF m mu])
    have r1: "br_bus r1 = removed d ?vb" "br_closing r1 = Some ws" "br_pending r1 = []" "br_leases r1 = []"
      using finish_removed [OF inv(1) d] less.prems(2-4) by (simp_all add: r1_def)
    have "length (vb_devices (br_bus r1)) < length (vb_devices ?vb)" by (simp add: r1(1) Cons)
    from less.hyps [OF this bus_step_inv [OF st less.prems(1)] r1(2-4)]
    obtain r' where "bus_step\<^sup>*\<^sup>* r1 r'" "br_closing r' = Some ws" "vb_devices (br_bus r') = []"
      "vb_busID (br_bus r') = vb_busID ?vb" by (auto simp: r1(1))
    then show ?thesis using converse_rtranclp_into_rtranclp [of bus_step, OF st] by blast
  qed
qed

lemma close_run:
  assumes "bus_inv r" "br_closing r \<noteq> None" "br_pending r = []" "br_leases r = []"
  shows "\<exists>r'. bus_step\<^sup>*\<^sup>* r r' \<and> vb_closeDone (br_bus r') \<and> vb_devices (br_bus r') = [] \<and>
    \<not> br_table r' (vb_busID (br_bus r))"
proof -
  note inv = assms(1)
  obtain ws where ws: "br_closing r = Some ws" using assms(2) by blast
  obtain r1 where r1: "bus_step\<^sup>*\<^sup>* r r1" "br_closing r1 = Some ws" "vb_devices (br_bus r1) = []"
    "vb_busID (br_bus r1) = vb_busID (br_bus r)"
    using finish_all [OF inv ws assms(3,4)] by blast
  have inv1: "bus_inv r1" by (rule bus_steps_inv [OF r1(1) inv])
  have "lc_removalDone (lifecycle (br_bus r1) i)" if "i \<in> set ws" for i
  proof -
    have "i < length (vb_lifecycles (br_bus r1))"
      using inv1 r1(2) that by (auto simp: bus_inv_def close_inv_def)
    then show ?thesis using inv1 r1(3) by (simp add: bus_inv_def life_inv_def live_def)
  qed
  then have done_all: "\<forall>i \<in> set ws. lc_removalDone (lifecycle (br_bus r1) i)" by blast
  define r2 where "r2 = r1\<lparr>br_bus := close_clear (br_bus r1), br_closing := None, br_releasing := True\<rparr>"
  have c: "bus_step r1 r2" unfolding r2_def by (rule bus_step.clear [OF r1(2) done_all])
  define r3 where "r3 = r2\<lparr>br_bus := fst (release_bus (br_bus r2) (br_table r2)),
      br_table := snd (release_bus (br_bus r2) (br_table r2)), br_releasing := False\<rparr>"
  have "br_releasing r2" by (simp add: r2_def)
  then have f: "bus_step r2 r3" unfolding r3_def by (rule bus_step.free) (rule prod.collapse [symmetric])
  have "bus_step\<^sup>*\<^sup>* r r3"
    by (rule rtranclp.rtrancl_into_rtrancl [OF rtranclp.rtrancl_into_rtrancl [OF r1(1) c] f])
  moreover have "vb_closeDone (br_bus r3) \<and> vb_devices (br_bus r3) = [] \<and>
      \<not> br_table r3 (vb_busID (br_bus r))"
    by (simp add: r3_def r2_def release_bus_def close_clear_def r1(3,4))
  ultimately show ?thesis by blast
qed

text \<open>C24: A close that has begun can always complete: once no goroutine holds a lease or a
  fence, the pending removals can be finished one by one, the closer runs on to its end,
  and the bus number is free again.\<close>

theorem close_completes:
  assumes "bus_reach addr busID table r" "br_closing r \<noteq> None" "br_pending r = []" "br_leases r = []"
  shows "\<exists>r'. bus_step\<^sup>*\<^sup>* r r' \<and> vb_closeDone (br_bus r') \<and> vb_devices (br_bus r') = [] \<and>
    \<not> br_table r' (vb_busID (br_bus r))"
  by (rule close_run [OF bus_reach_inv [OF assms(1)] assms(2-4)])

text \<open>C39: \<open>New\<close> does not make its number unique: two buses made with the same number both exist,
  and closing the first frees the number, so that \<open>NewWithBusID\<close> hands it out a third time
  while the second bus is still open.\<close>

theorem New_shares_number:
  "let (vb1, t1) = virtualbus_New 0 busID table;
       (vb2, t2) = virtualbus_New 1 busID t1;
       (registrations, vb1', t3) = CloseAndTakeRegistrations vb1 t2
   in vb_busID vb1 = busID \<and> vb_busID vb2 = busID \<and> \<not> vb_closed vb2 \<and> vb_closed vb1' \<and>
      (\<exists>vb3. fst (NewWithBusID 2 busID t3) = Inr vb3 \<and> vb_busID vb3 = busID)"
  by (simp add: virtualbus_New_def fresh_bus_def CloseAndTakeRegistrations_def close_begin_def
      release_bus_def close_clear_def cancel_empty_def NewWithBusID_def)

section \<open>A concrete run\<close>

definition demo_start :: bus_run where
  "demo_start = bus_start 0 1 (\<lambda>_. False)"

definition demo_added :: bus_run where
  "demo_added = demo_start\<lparr>br_bus := snd (AddRegistration (Device 0 7) (br_bus demo_start))\<rparr>"

definition demo_snapshot :: DeviceMeta where
  "demo_snapshot = deviceMetaLocked (br_bus demo_added) (hd (vb_devices (br_bus demo_added)))"

definition demo_leased :: bus_run where
  "demo_leased = demo_added\<lparr>br_checked := [], br_bus := RLock 0 (br_bus demo_added),
     br_pending := [], br_leases := [demo_snapshot]\<rparr>"

definition demo_marked :: bus_run where
  "demo_marked = demo_added\<lparr>br_bus := snd (RemoveRegistrationIfPresent demo_snapshot (br_bus demo_added)),
     br_marked := {0}\<rparr>"

definition demo_removed :: bus_run where
  "demo_removed = demo_marked\<lparr>br_bus := finishMarkedRegistrationRemoval 0 (br_bus demo_marked), br_marked := {}\<rparr>"

definition demo_readded :: bus_run where
  "demo_readded = demo_removed\<lparr>br_bus := snd (AddRegistration (Device 0 7) (br_bus demo_removed))\<rparr>"

definition demo_closing :: bus_run where
  "demo_closing = demo_added\<lparr>br_bus := snd (close_begin (br_bus demo_added)), br_marked := {0},
     br_closing := Some [0]\<rparr>"

lemma demo_added_step: "bus_step demo_start demo_added"
  unfolding demo_added_def AddRegistration_def
  by (rule bus_step.add [of "[]" "Device 0 7" True "- 1"]) (simp add: export_name_def, rule prod.collapse [symmetric])

lemma demo_added_reach: "bus_reach 0 1 (\<lambda>_. False) demo_added"
  using bus_reach.step [OF bus_reach.start] demo_added_step unfolding demo_start_def by blast

lemma demo_checks:
  "acquire_check demo_snapshot (br_bus demo_added)"
  "dm_lifecycle demo_snapshot = Some 0"
  "fst (acquire_verify demo_snapshot (RLock 0 (br_bus demo_added))) = Some 0"
  "map (em_DevID \<circ> bd_meta) (vb_devices (br_bus demo_added)) = [1]"
  by code_simp+

lemma demo_empty: "br_checked demo_added = []" "br_pending demo_added = []" "br_leases demo_added = []"
  by (simp_all add: demo_added_def demo_start_def bus_start_def)

lemma demo_leased_reach: "bus_reach 0 1 (\<lambda>_. False) demo_leased"
proof -
  define a where "a = demo_added\<lparr>br_checked := [demo_snapshot]\<rparr>"
  define b where "b = demo_added\<lparr>br_bus := RLock 0 (br_bus demo_added), br_checked := [],
    br_pending := [demo_snapshot]\<rparr>"
  have "bus_step demo_added a"
    using bus_step.check [OF demo_checks(1)] unfolding a_def by (simp add: demo_empty)
  moreover have "bus_step a b"
    using bus_step.fence [of demo_snapshot a] unfolding a_def b_def
    by (simp add: demo_empty demo_checks(2))
  moreover have "acquire_verify demo_snapshot (br_bus b) = (Some 0, br_bus b)"
    using demo_checks(3) unfolding b_def by (auto simp: acquire_verify_def split: if_splits)
  then have "bus_step b demo_leased"
    using bus_step.verify [of demo_snapshot b "Some 0" "br_bus b"] unfolding b_def demo_leased_def
    by (simp add: demo_empty)
  ultimately show ?thesis using demo_added_reach bus_reach.step by blast
qed

lemma demo_marked_step: "bus_step demo_added demo_marked"
proof -
  have "outcome_mark (fst (RemoveRegistrationIfPresent demo_snapshot (br_bus demo_added))) = {0}" by code_simp
  moreover have "br_marked demo_added = {}" by (simp add: demo_added_def demo_start_def bus_start_def)
  ultimately show ?thesis
    using bus_step.remove_registration [of demo_snapshot demo_added, OF prod.collapse [symmetric]]
    unfolding demo_marked_def by simp
qed

lemma demo_readded_steps: "bus_step\<^sup>*\<^sup>* demo_marked demo_readded"
proof -
  have "lc_mu (lifecycle (br_bus demo_marked) 0) = 0" by code_simp
  then have "bus_step demo_marked demo_removed"
    using bus_step.finish [of 0 demo_marked] unfolding demo_removed_def by (simp add: demo_marked_def)
  moreover have "bus_step demo_removed demo_readded"
    unfolding demo_readded_def AddRegistration_def
    by (rule bus_step.add [of "[]" "Device 0 7" True "- 1"]) (simp add: export_name_def, rule prod.collapse [symmetric])
  ultimately show ?thesis by (meson converse_rtranclp_into_rtranclp r_into_rtranclp)
qed

lemma demo_closing_reach: "bus_reach 0 1 (\<lambda>_. False) demo_closing"
proof -
  have "fst (close_begin (br_bus demo_added)) = Some ([(demo_snapshot, 0)], [])" by code_simp
  then have "close_begin (br_bus demo_added) = (Some ([(demo_snapshot, 0)], []), snd (close_begin (br_bus demo_added)))"
    by (metis prod.collapse)
  moreover have "br_marked demo_added = {}" by (simp add: demo_added_def demo_start_def bus_start_def)
  ultimately have "bus_step demo_added demo_closing"
    using bus_step.close [of demo_added "[(demo_snapshot, 0)]" "[]"] unfolding demo_closing_def by simp
  then show ?thesis by (rule bus_reach.step [OF demo_added_reach])
qed

theorem bus_addresses_exact_witness:
  "map (em_DevID \<circ> bd_meta) (vb_devices (br_bus demo_added)) = [1] \<and>
   vb_allocatedDevIDs (br_bus demo_added) 1 \<and> \<not> vb_allocatedDevIDs (br_bus demo_added) 2"
  using bus_addresses_exact [OF demo_added_reach] demo_checks(4) by simp

theorem lease_fences_removal_witness:
  "\<exists>d \<in> set (vb_devices (br_bus demo_leased)). bd_dev d = dm_Dev demo_snapshot \<and>
     Some (bd_lifecycle d) = dm_lifecycle demo_snapshot \<and> bd_ctx d \<notin> set (vb_cancelled (br_bus demo_leased))"
proof -
  have "demo_snapshot \<in> set (br_leases demo_leased)" by (simp add: demo_leased_def)
  then show ?thesis using lease_fences_removal [OF demo_leased_reach] by blast
qed

theorem stale_snapshot_powerless_witness:
  "\<not> AuthenticatesRegistration demo_snapshot (br_bus demo_readded) \<and>
   fst (PublishRegistration demo_snapshot (br_bus demo_readded)) \<noteq> Inr True \<and>
   map bd_dev (vb_devices (br_bus demo_readded)) = [dm_Dev demo_snapshot]"
proof -
  have "registrationIdentityMatchesLocked (br_bus demo_marked) demo_snapshot" by code_simp
  moreover have "lc_removing (lifecycle (br_bus demo_marked) (the (dm_lifecycle demo_snapshot)))" by code_simp
  moreover have "map bd_dev (vb_devices (br_bus demo_readded)) = [dm_Dev demo_snapshot]" by code_simp
  ultimately show ?thesis using stale_snapshot_powerless [OF demo_readded_steps] by blast
qed

theorem import_selects_exactly_witness:
  "\<exists>d \<in> set (vb_devices (br_bus demo_added)). deviceDiscoverableLocked (br_bus demo_added) d \<and>
     ExportBusID (bd_meta d) = Some (go_string ''1-1'') \<and>
     demo_snapshot = deviceMetaLocked (br_bus demo_added) d"
proof -
  have "(0 :: u8) \<notin> set (go_string ''1-1'')" "go_string ''1-1'' \<noteq> []" "length (go_string ''1-1'') < 32"
    by code_simp+
  moreover have "GetDeviceImportSnapshotByBusID (go_string ''1-1'') (br_bus demo_added) = Some demo_snapshot"
    by code_simp
  ultimately show ?thesis using import_selects_exactly [OF demo_added_reach] by blast
qed

theorem add_smallest_address_witness:
  "\<exists>s. fst (AddRegistration (Device 0 8) (br_bus demo_added)) = Inr s \<and> em_DevID (dm_Meta s) \<notin> {0, 1}"
proof -
  have "\<not> isl (fst (AddRegistration (Device 0 8) (br_bus demo_added)))" by code_simp
  then obtain s where s: "fst (AddRegistration (Device 0 8) (br_bus demo_added)) = Inr s"
    by (metis sum.collapse(2))
  then have "addRegistration (Device 0 8) True (- 1) [] (br_bus demo_added) =
      (Inr s, snd (AddRegistration (Device 0 8) (br_bus demo_added)))"
    unfolding AddRegistration_def by (metis prod.collapse)
  then have "1 \<le> em_DevID (dm_Meta s) \<and> em_DevID (dm_Meta s) \<notin> {1}"
    using add_smallest_address [OF demo_added_reach _ refl] demo_checks(4) by fastforce
  then show ?thesis using s by auto
qed

theorem closed_bus_drained_witness:
  "\<exists>r e. bus_reach 0 1 (\<lambda>_. False) r \<and> vb_closeDone (br_bus r) \<and> vb_devices (br_bus r) = [] \<and>
     AddRegistration (Device 0 7) (br_bus r) = (Inl e, br_bus r)"
proof -
  have "br_closing demo_closing \<noteq> None" "br_pending demo_closing = []" "br_leases demo_closing = []"
    by (simp_all add: demo_closing_def demo_empty)
  then obtain r where r: "bus_step\<^sup>*\<^sup>* demo_closing r" "vb_closeDone (br_bus r)"
    using close_run [OF bus_reach_inv [OF demo_closing_reach]] by blast
  have "bus_reach 0 1 (\<lambda>_. False) r" by (rule bus_reach_steps [OF r(1) demo_closing_reach])
  then show ?thesis
    using closed_bus_drained [of 0 1 "\<lambda>_. False" r "Device 0 7" True "- 1" "[]"] r(2) unfolding AddRegistration_def by blast
qed

theorem close_completes_witness:
  "\<exists>r'. bus_step\<^sup>*\<^sup>* demo_closing r' \<and> vb_closeDone (br_bus r') \<and> vb_devices (br_bus r') = []"
proof -
  have "br_closing demo_closing \<noteq> None" "br_pending demo_closing = []" "br_leases demo_closing = []"
    by (simp_all add: demo_closing_def demo_empty)
  then show ?thesis using close_completes [OF demo_closing_reach] by blast
qed

end
