(* ===== verification/Gip_Header.thy ===== *)
theory Gip_Header
  imports Go_Prelude
begin

text \<open>
  The single-packet header of the Gaming Input Protocol (\<^verbatim>\<open>src/device/xboxone/header.go\<close>)
  and the two interfaces that the message codecs of the Xbox One controller share:

  \<^item> \<open>exact_codec\<close>: an \<^verbatim>\<open>EncodeXInto\<close> and \<^verbatim>\<open>DecodeX\<close> pair of which the encoder writes its
    destination only on success and the decoder accepts exactly the images of valid values;
  \<^item> \<open>framed_codec\<close>: a body codec behind a fixed header, which is an \<open>exact_codec\<close> again.

  An encoder returns the error and the destination afterwards; a decoder returns the error
  or the value. Errors are the sentinels of \<^verbatim>\<open>errors.go\<close> that \<^verbatim>\<open>errors.Is\<close> finds in the
  returned error.
\<close>

unbundle bit_operations_syntax

section \<open>Errors\<close>

datatype gip_error =
    ErrInvalidLength
  | ErrReservedDataClass | ErrInvalidMessageNumber
  | ErrFragmentedHeader | ErrInvalidInitFragment | ErrReservedHeaderFlag
  | ErrInvalidExpansionIndex | ErrReservedSequence
  | ErrExtendedPayloadLength | ErrPayloadTooLarge
  | ErrReservedButtonBits | ErrTriggerOutOfRange
  | ErrGuideRequiresStatusMessage | ErrShareRequiresExtension
  | ErrInvalidGuideButtonStatusMessage
  | ErrInvalidConsoleFunctionMap | ErrInvalidGamepadInputMessage
  | ErrInvalidDirectMotorCommand | ErrInvalidMotorMask | ErrMotorLevelOutOfRange
  | ErrInvalidDirectMotorMessage
  | ErrReservedGuideLEDPattern | ErrGuideLEDIntensityOutOfRange
  | ErrInvalidGuideLEDCommand | ErrInvalidGuideLEDMessage
  | ErrInvalidUSBIdentity | ErrInvalidDeviceID | ErrInvalidDeviceReleaseBCD
  | ErrInvalidFirmwareVersion | ErrInvalidUSBPower | ErrInvalidUSBInterval
  | ErrUninitializedControllerProfile
  | ErrInvalidHelloMessage
  | ErrReservedStatusValue | ErrReservedExtendedStatusFlag
  | ErrUnsupportedStatusEvents | ErrInvalidStatusMessage
  | ErrUnsupportedProtocolControlCode | ErrInvalidProtocolControlReferenceFlags
  | ErrInvalidProtocolControlMessage
  | ErrUnsupportedHostCommand | ErrUnsupportedSetDeviceStateVariant | ErrReservedDeviceState
  | ErrUnsupportedControllerPersonaHostMessage

section \<open>The four-byte header\<close>

abbreviation (input) DataClassCommand :: u8 where "DataClassCommand \<equiv> 0"
abbreviation (input) DataClassLowLatency :: u8 where "DataClassLowLatency \<equiv> 1"
abbreviation (input) DataClassAudio :: u8 where "DataClassAudio \<equiv> 3"

abbreviation (input) flagFragment :: u8 where "flagFragment \<equiv> 0x80"
abbreviation (input) flagInitFragment :: u8 where "flagInitFragment \<equiv> 0x40"
abbreviation (input) flagSystem :: u8 where "flagSystem \<equiv> 0x20"
abbreviation (input) flagAcknowledge :: u8 where "flagAcknowledge \<equiv> 0x10"
abbreviation (input) flagReserved :: u8 where "flagReserved \<equiv> 0x08"
abbreviation (input) flagExpansion :: u8 where "flagExpansion \<equiv> 0x07"
abbreviation (input) lengthExtended :: u8 where "lengthExtended \<equiv> 0x80"

record SinglePacketHeader =
  h_DataClass :: u8
  h_MessageNumber :: u8
  h_System :: bool
  h_AcknowledgementRequested :: bool
  h_ExpansionIndex :: u8
  h_Sequence :: u8
  h_PayloadLength :: u16

definition SinglePacketHeader_Validate :: "SinglePacketHeader \<Rightarrow> gip_error option" where
  "SinglePacketHeader_Validate h =
     (if h_DataClass h > DataClassAudio then Some ErrReservedDataClass
      else if h_MessageNumber h > 0x1f then Some ErrInvalidMessageNumber
      else if h_ExpansionIndex h > flagExpansion then Some ErrInvalidExpansionIndex
      else if h_Sequence h = 0 then Some ErrReservedSequence
      else let maxPayload = (if h_DataClass h \<noteq> DataClassAudio then 60 else 127) in
        if h_PayloadLength h > maxPayload then Some ErrPayloadTooLarge else None)"

definition messageType :: "SinglePacketHeader \<Rightarrow> u8" where
  "messageType h = push_bit 5 (h_DataClass h) OR h_MessageNumber h"

definition EncodeSinglePacketHeaderInto ::
    "bytes \<Rightarrow> SinglePacketHeader \<Rightarrow> gip_error option \<times> bytes" where
  "EncodeSinglePacketHeaderInto dst h =
     (if length dst \<noteq> 4 then (Some ErrInvalidLength, dst)
      else case SinglePacketHeader_Validate h of
        Some e \<Rightarrow> (Some e, dst)
      | None \<Rightarrow>
          let flags = h_ExpansionIndex h;
              flags = (if h_System h then flags OR flagSystem else flags);
              flags = (if h_AcknowledgementRequested h then flags OR flagAcknowledge else flags)
          in (None, dst[0 := messageType h, 1 := flags, 2 := h_Sequence h,
                        3 := ucast (h_PayloadLength h)]))"

definition DecodeSinglePacketHeader :: "bytes \<Rightarrow> gip_error + SinglePacketHeader" where
  "DecodeSinglePacketHeader src =
     (if length src \<noteq> 4 then Inl ErrInvalidLength
      else let dataClass = drop_bit 5 (src ! 0); flags = src ! 1 in
        if dataClass > DataClassAudio then Inl ErrReservedDataClass
        else if flags AND flagFragment \<noteq> 0 then Inl ErrFragmentedHeader
        else if flags AND flagInitFragment \<noteq> 0 then Inl ErrInvalidInitFragment
        else if flags AND flagReserved \<noteq> 0 then Inl ErrReservedHeaderFlag
        else if src ! 2 = 0 then Inl ErrReservedSequence
        else if src ! 3 AND lengthExtended \<noteq> 0 then Inl ErrExtendedPayloadLength
        else let header = \<lparr> h_DataClass = dataClass, h_MessageNumber = src ! 0 AND 0x1f,
                   h_System = (flags AND flagSystem \<noteq> 0),
                   h_AcknowledgementRequested = (flags AND flagAcknowledge \<noteq> 0),
                   h_ExpansionIndex = flags AND flagExpansion,
                   h_Sequence = src ! 2, h_PayloadLength = ucast (src ! 3) \<rparr> in
          case SinglePacketHeader_Validate header of
            Some e \<Rightarrow> Inl e
          | None \<Rightarrow> Inr header)"

text \<open>The image of a valid header.\<close>

definition header_wire :: "SinglePacketHeader \<Rightarrow> bytes" where
  "header_wire h =
     [push_bit 5 (h_DataClass h) OR h_MessageNumber h,
      h_ExpansionIndex h OR (if h_System h then flagSystem else 0)
        OR (if h_AcknowledgementRequested h then flagAcknowledge else 0),
      h_Sequence h, ucast (h_PayloadLength h)]"

lemma length_header_wire [simp]: "length (header_wire h) = 4"
  by (simp add: header_wire_def)

section \<open>Exact codecs\<close>

locale exact_codec =
  fixes enc :: "bytes \<Rightarrow> 'v \<Rightarrow> gip_error option \<times> bytes"
    and dec :: "bytes \<Rightarrow> gip_error + 'v"
    and width :: nat
    and val :: "'v \<Rightarrow> gip_error option"
    and wire :: "'v \<Rightarrow> bytes"
  assumes enc_eq: "enc dst v =
      (if length dst \<noteq> width then (Some ErrInvalidLength, dst)
       else case val v of Some e \<Rightarrow> (Some e, dst) | None \<Rightarrow> (None, wire v))"
    and dec_exact: "dec w = Inr v \<longleftrightarrow> val v = None \<and> w = wire v"
    and wire_width: "val v = None \<Longrightarrow> length (wire v) = width"
begin

lemma dec_wire: "val v = None \<Longrightarrow> dec (wire v) = Inr v"
  by (simp add: dec_exact)

lemma dec_length: "dec w = Inr v \<Longrightarrow> length w = width"
  using wire_width by (simp add: dec_exact)

lemma enc_atomic: "enc dst v = (Some e, dst') \<Longrightarrow> dst' = dst"
  by (auto simp: enc_eq split: if_splits option.splits)

lemma enc_dec: "enc dst v = (None, w) \<longleftrightarrow> length dst = width \<and> dec w = Inr v"
  by (auto simp: enc_eq dec_exact split: if_splits option.splits)

lemma dec_inj: "dec w = Inr v \<Longrightarrow> dec w' = Inr v \<Longrightarrow> w = w'"
  by (simp add: dec_exact)

end

subsection \<open>The header is an exact codec\<close>

named_theorems byte_bits \<open>bit-by-bit reading of byte expressions\<close>

lemma byte_eq_bits: "(a :: u8) = b \<longleftrightarrow>
    bit a 0 = bit b 0 \<and> bit a 1 = bit b 1 \<and> bit a 2 = bit b 2 \<and> bit a 3 = bit b 3 \<and>
    bit a 4 = bit b 4 \<and> bit a 5 = bit b 5 \<and> bit a 6 = bit b 6 \<and> bit a 7 = bit b 7"
proof -
  have "a = b \<longleftrightarrow> (\<forall>n \<in> {0,1,2,3,4,5,6,7}. bit a n = bit b n)"
  proof
    assume h: "\<forall>n \<in> {0,1,2,3,4,5,6,7}. bit a n = bit b n"
    show "a = b"
    proof (rule bit_word_eqI)
      fix n assume "n < LENGTH(8)"
      then have "n \<in> {0,1,2,3,4,5,6,7}" by auto
      then show "bit a n = bit b n" using h by blast
    qed
  qed simp
  then show ?thesis by simp
qed

lemma byte_less_bits: "n < 8 \<Longrightarrow> unat (a :: u8) < 2 ^ n \<longleftrightarrow> take_bit n a = a"
  by (metis take_bit_nat_eq_self_iff unsigned_take_bit_eq word_unat_eq_iff)

lemma byte_le_bits [byte_bits]: fixes a :: u8 shows
  "a \<le> 1 \<longleftrightarrow>
     \<not> bit a 1 \<and> \<not> bit a 2 \<and> \<not> bit a 3 \<and> \<not> bit a 4 \<and> \<not> bit a 5 \<and> \<not> bit a 6 \<and> \<not> bit a 7"
  "a \<le> 3 \<longleftrightarrow> \<not> bit a 2 \<and> \<not> bit a 3 \<and> \<not> bit a 4 \<and> \<not> bit a 5 \<and> \<not> bit a 6 \<and> \<not> bit a 7"
  "a \<le> 7 \<longleftrightarrow> \<not> bit a 3 \<and> \<not> bit a 4 \<and> \<not> bit a 5 \<and> \<not> bit a 6 \<and> \<not> bit a 7"
  "a \<le> 31 \<longleftrightarrow> \<not> bit a 5 \<and> \<not> bit a 6 \<and> \<not> bit a 7"
  "a \<le> 127 \<longleftrightarrow> \<not> bit a 7"
proof -
  have le: "a \<le> of_nat (2 ^ n - 1) \<longleftrightarrow> take_bit n a = a" if "n < 8" for n
  proof -
    have "(2::nat) ^ n < 256" using power_strict_increasing [OF that, of "2::nat"] by simp
    then have "unat (of_nat (2 ^ n - 1) :: u8) = 2 ^ n - 1"
      by (intro unat_of_nat_less) simp
    then have "a \<le> of_nat (2 ^ n - 1) \<longleftrightarrow> unat a < 2 ^ n"
      by (simp add: word_le_nat_alt less_eq_Suc_le le_diff_conv2)
    then show ?thesis using byte_less_bits [OF that] by simp
  qed
  show "a \<le> 1 \<longleftrightarrow>
     \<not> bit a 1 \<and> \<not> bit a 2 \<and> \<not> bit a 3 \<and> \<not> bit a 4 \<and> \<not> bit a 5 \<and> \<not> bit a 6 \<and> \<not> bit a 7"
    using le [of 1] by (simp add: byte_eq_bits bit_take_bit_iff bit_0)
  show "a \<le> 3 \<longleftrightarrow>
     \<not> bit a 2 \<and> \<not> bit a 3 \<and> \<not> bit a 4 \<and> \<not> bit a 5 \<and> \<not> bit a 6 \<and> \<not> bit a 7"
    using le [of 2] by (simp add: byte_eq_bits bit_take_bit_iff bit_0)
  show "a \<le> 7 \<longleftrightarrow> \<not> bit a 3 \<and> \<not> bit a 4 \<and> \<not> bit a 5 \<and> \<not> bit a 6 \<and> \<not> bit a 7"
    using le [of 3] by (simp add: byte_eq_bits bit_take_bit_iff bit_0)
  show "a \<le> 31 \<longleftrightarrow> \<not> bit a 5 \<and> \<not> bit a 6 \<and> \<not> bit a 7"
    using le [of 5] by (simp add: byte_eq_bits bit_take_bit_iff bit_0)
  show "a \<le> 127 \<longleftrightarrow> \<not> bit a 7"
    using le [of 7] by (simp add: byte_eq_bits bit_take_bit_iff bit_0)
qed

lemma and_flag_bits [byte_bits]: fixes a :: u8 shows
  "a AND 0x80 = 0 \<longleftrightarrow> \<not> bit a 7" "a AND 0x40 = 0 \<longleftrightarrow> \<not> bit a 6"
  "a AND 0x20 = 0 \<longleftrightarrow> \<not> bit a 5" "a AND 0x10 = 0 \<longleftrightarrow> \<not> bit a 4"
  "a AND 0x08 = 0 \<longleftrightarrow> \<not> bit a 3" "a AND 2 = 0 \<longleftrightarrow> \<not> bit a 1"
  using and_exp_eq_0_iff_not_bit [of a 7] and_exp_eq_0_iff_not_bit [of a 6]
    and_exp_eq_0_iff_not_bit [of a 5] and_exp_eq_0_iff_not_bit [of a 4]
    and_exp_eq_0_iff_not_bit [of a 3] and_exp_eq_0_iff_not_bit [of a 1]
  by simp_all

lemma byte_le_1_iff: "\<not> x > 1 \<longleftrightarrow> x = 0 \<or> x = 1" for x :: u8
proof -
  have "unat x \<le> 1 \<longleftrightarrow> unat x = 0 \<or> unat x = 1" by linarith
  then show ?thesis by (simp add: not_less word_le_nat_alt word_unat_eq_iff)
qed

lemma and_mask_bits: fixes a :: "'a::len word" shows
  "a AND 1 = take_bit 1 a" "a AND 3 = take_bit 2 a" "a AND 7 = take_bit 3 a"
  "a AND 31 = take_bit 5 a"
  by (simp_all add: take_bit_eq_mask mask_eq_exp_minus_1)

lemma byte_high_bits: "8 \<le> n \<Longrightarrow> \<not> bit (a :: u8) n"
  by (auto dest: bit_imp_le_length)

lemma class_number_byte:
  fixes b c n :: u8
  assumes "c \<le> 7" "n \<le> 31"
  shows "b = push_bit 5 c OR n \<longleftrightarrow> c = drop_bit 5 b \<and> n = b AND 31"
  using assms unfolding and_mask_bits byte_bits byte_eq_bits
  by (simp add: bit_simps byte_high_bits) blast

lemma flags_byte:
  fixes b x :: u8
  assumes "x \<le> 7"
  shows "b = x OR (if s then flagSystem else 0) OR (if a then flagAcknowledge else 0) \<longleftrightarrow>
    \<not> bit b 7 \<and> \<not> bit b 6 \<and> \<not> bit b 3 \<and> s = bit b 5 \<and> a = bit b 4 \<and> x = b AND 7"
proof -
  have sys: "bit flagSystem n \<longleftrightarrow> n = 5" and ack: "bit flagAcknowledge n \<longleftrightarrow> n = 4" for n
    using bit_exp_iff [where 'a = u8, of 5 n] bit_exp_iff [where 'a = u8, of 4 n] by auto
  show ?thesis using assms unfolding and_mask_bits byte_bits byte_eq_bits
    by (simp add: bit_simps sys ack) blast
qed

lemma payload_byte: "b = ucast p \<and> p \<le> 127 \<longleftrightarrow> b AND lengthExtended = 0 \<and> p = ucast b"
  for b :: u8 and p :: u16
proof
  assume h: "b = ucast p \<and> p \<le> 127"
  then have p: "unat p \<le> 127" by (simp add: word_le_nat_alt)
  then have "unat b = unat p" using h by (simp add: unsigned_ucast_eq take_bit_eq_mod)
  then have "b \<le> 127" "p = ucast b"
    using p by (simp_all add: word_le_nat_alt word_unat_eq_iff unsigned_ucast_eq take_bit_eq_mod)
  then show "b AND lengthExtended = 0 \<and> p = ucast b" by (simp add: byte_bits)
next
  assume h: "b AND lengthExtended = 0 \<and> p = ucast b"
  then have "b \<le> 127" by (simp add: byte_bits)
  moreover have "unat p = unat b" using h unsigned_less [where ?'a = nat, of b]
    by (simp add: unsigned_ucast_eq take_bit_eq_mod)
  ultimately show "b = ucast p \<and> p \<le> 127"
    by (simp add: word_le_nat_alt word_unat_eq_iff unsigned_ucast_eq take_bit_eq_mod)
qed

lemma header_valid_bounds:
  assumes "SinglePacketHeader_Validate h = None"
  shows "h_DataClass h \<le> 3" "h_MessageNumber h \<le> 31" "h_ExpansionIndex h \<le> 7"
    "h_Sequence h \<noteq> 0" "h_PayloadLength h \<le> 127"
proof -
  show "h_PayloadLength h \<le> 127"
    using assms
    by (auto simp: SinglePacketHeader_Validate_def word_le_nat_alt word_less_nat_alt
        split: if_splits)
qed (use assms in \<open>auto simp: SinglePacketHeader_Validate_def split: if_splits\<close>)

lemma header_exact:
  "DecodeSinglePacketHeader [b0, b1, b2, b3] = Inr h \<longleftrightarrow>
     SinglePacketHeader_Validate h = None \<and> [b0, b1, b2, b3] = header_wire h"
proof (cases "SinglePacketHeader_Validate h = None")
  case True
  note bounds = header_valid_bounds [OF True]
  have "h_DataClass h \<le> 7" using bounds(1) by (simp add: byte_bits)
  then have wire: "[b0, b1, b2, b3] = header_wire h \<longleftrightarrow>
      (h_DataClass h = drop_bit 5 b0 \<and> h_MessageNumber h = b0 AND 31) \<and>
      (\<not> bit b1 7 \<and> \<not> bit b1 6 \<and> \<not> bit b1 3 \<and> h_System h = bit b1 5 \<and>
       h_AcknowledgementRequested h = bit b1 4 \<and> h_ExpansionIndex h = b1 AND 7) \<and>
      b2 = h_Sequence h \<and> (b3 AND lengthExtended = 0 \<and> h_PayloadLength h = ucast b3)"
    using bounds class_number_byte [of "h_DataClass h" "h_MessageNumber h" b0]
      flags_byte [of "h_ExpansionIndex h" b1 "h_System h" "h_AcknowledgementRequested h"]
      payload_byte [of b3 "h_PayloadLength h"]
    by (simp add: header_wire_def)
  define mk where "mk = \<lparr> h_DataClass = drop_bit 5 b0, h_MessageNumber = b0 AND 0x1f,
      h_System = (b1 AND flagSystem \<noteq> 0),
      h_AcknowledgementRequested = (b1 AND flagAcknowledge \<noteq> 0),
      h_ExpansionIndex = b1 AND flagExpansion, h_Sequence = b2, h_PayloadLength = ucast b3 \<rparr>"
  have "DecodeSinglePacketHeader [b0, b1, b2, b3] = Inr h \<longleftrightarrow>
      SinglePacketHeader_Validate mk = None \<and> h = mk \<and> drop_bit 5 b0 \<le> DataClassAudio \<and>
      \<not> bit b1 7 \<and> \<not> bit b1 6 \<and> \<not> bit b1 3 \<and> b2 \<noteq> 0 \<and> b3 AND lengthExtended = 0"
    unfolding mk_def
    by (auto simp: DecodeSinglePacketHeader_def Let_def and_flag_bits not_less
        simp del: not_None_eq split: option.splits)
  also have "\<dots> \<longleftrightarrow> h = mk \<and> \<not> bit b1 7 \<and> \<not> bit b1 6 \<and> \<not> bit b1 3 \<and> b3 AND lengthExtended = 0"
    using True bounds by (auto simp: mk_def)
  also have "h = mk \<longleftrightarrow> h_DataClass h = drop_bit 5 b0 \<and> h_MessageNumber h = b0 AND 31 \<and>
      h_System h = bit b1 5 \<and> h_AcknowledgementRequested h = bit b1 4 \<and>
      h_ExpansionIndex h = b1 AND 7 \<and> b2 = h_Sequence h \<and> h_PayloadLength h = ucast b3"
    by (cases h) (auto simp: mk_def and_flag_bits)
  finally show ?thesis using True unfolding wire by blast
next
  case False
  then show ?thesis
    by (auto simp: DecodeSinglePacketHeader_def Let_def split: if_splits option.splits)
qed

lemma length_4_cases: "length w = 4 \<Longrightarrow> (\<And>a b c d. w = [a, b, c, d] \<Longrightarrow> P) \<Longrightarrow> P"
  by (auto simp: numeral_eq_Suc length_Suc_conv)

interpretation gip_header: exact_codec EncodeSinglePacketHeaderInto DecodeSinglePacketHeader
  4 SinglePacketHeader_Validate header_wire
proof
  show "EncodeSinglePacketHeaderInto dst v =
      (if length dst \<noteq> 4 then (Some ErrInvalidLength, dst)
       else case SinglePacketHeader_Validate v of
         Some e \<Rightarrow> (Some e, dst) | None \<Rightarrow> (None, header_wire v))" for dst v
    by (auto simp: EncodeSinglePacketHeaderInto_def header_wire_def messageType_def Let_def
        or.assoc split: option.splits elim!: length_4_cases)
  show "DecodeSinglePacketHeader w = Inr v \<longleftrightarrow>
      SinglePacketHeader_Validate v = None \<and> w = header_wire v" for w v
  proof (cases "length w = 4")
    case True
    then obtain a b c d where "w = [a, b, c, d]" by (rule length_4_cases)
    then show ?thesis using header_exact [of a b c d v] by simp
  next
    case False
    then show ?thesis by (auto simp: DecodeSinglePacketHeader_def header_wire_def)
  qed
qed (simp add: header_wire_def)

section \<open>Framed codecs\<close>

locale framed_codec = body: exact_codec benc bdec bsize bval bwire
  for benc :: "bytes \<Rightarrow> 'v \<Rightarrow> gip_error option \<times> bytes"
    and bdec bsize bval bwire +
  fixes hdr :: "u8 \<Rightarrow> SinglePacketHeader"
    and enc :: "bytes \<Rightarrow> u8 \<Rightarrow> 'v \<Rightarrow> gip_error option \<times> bytes"
    and dec :: "bytes \<Rightarrow> gip_error + u8 \<times> 'v"
    and reject :: gip_error
  assumes hdr_Sequence: "h_Sequence (hdr s) = s"
    and enc_frame: "enc dst s v =
      (if length dst \<noteq> 4 + bsize then (Some ErrInvalidLength, dst)
       else case bval v of
         Some e \<Rightarrow> (Some e, dst)
       | None \<Rightarrow> (case EncodeSinglePacketHeaderInto (zeros 4) (hdr s) of
           (Some e, _) \<Rightarrow> (Some e, dst)
         | (None, hw) \<Rightarrow> (case benc (zeros bsize) v of
             (Some e, _) \<Rightarrow> (Some e, dst)
           | (None, bw) \<Rightarrow> (None, copy_into dst (hw @ bw)))))"
    and dec_frame: "dec w =
      (if length w \<noteq> 4 + bsize then Inl ErrInvalidLength
       else case DecodeSinglePacketHeader (slice w 0 4) of
         Inl e \<Rightarrow> Inl e
       | Inr h \<Rightarrow>
           if h \<noteq> hdr (h_Sequence h) then Inl reject
           else (case bdec (drop 4 w) of
             Inl e \<Rightarrow> Inl e
           | Inr v \<Rightarrow> Inr (h_Sequence h, v)))"
begin

definition frame_val :: "u8 \<times> 'v \<Rightarrow> gip_error option" where
  "frame_val = (\<lambda>(s, v). case bval v of Some e \<Rightarrow> Some e
     | None \<Rightarrow> SinglePacketHeader_Validate (hdr s))"

definition frame_wire :: "u8 \<times> 'v \<Rightarrow> bytes" where
  "frame_wire = (\<lambda>(s, v). header_wire (hdr s) @ bwire v)"

lemma frame_enc:
  "enc dst s v =
     (if length dst \<noteq> 4 + bsize then (Some ErrInvalidLength, dst)
      else case frame_val (s, v) of Some e \<Rightarrow> (Some e, dst) | None \<Rightarrow> (None, frame_wire (s, v)))"
  using body.wire_width [of v] gip_header.wire_width [of "hdr s"]
  by (simp add: enc_frame frame_val_def frame_wire_def body.enc_eq gip_header.enc_eq
      copy_into_full split: option.splits)

lemma frame_dec: "dec w = Inr (s, v) \<longleftrightarrow> frame_val (s, v) = None \<and> w = frame_wire (s, v)"
proof (cases "length w = 4 + bsize")
  case True
  then have split: "w = x @ y \<and> length x = 4 \<longleftrightarrow> slice w 0 4 = x \<and> drop 4 w = y" for x y
    by (auto simp: slice_def)
  have "dec w = Inr (s, v) \<longleftrightarrow>
      DecodeSinglePacketHeader (slice w 0 4) = Inr (hdr s) \<and> bdec (drop 4 w) = Inr v"
    using True hdr_Sequence by (auto simp: dec_frame split: sum.splits if_splits)
  then show ?thesis
    using split [of "header_wire (hdr s)" "bwire v"] gip_header.wire_width [of "hdr s"]
    by (auto simp: gip_header.dec_exact body.dec_exact frame_val_def frame_wire_def
        split: option.splits)
next
  case False
  then show ?thesis
    using body.wire_width [of v] gip_header.wire_width [of "hdr s"]
    by (auto simp: dec_frame frame_val_def frame_wire_def split: option.splits)
qed

end

sublocale framed_codec \<subseteq>
  exact_codec "\<lambda>dst (s, v). enc dst s v" dec "4 + bsize" frame_val frame_wire
proof
  show "length (frame_wire v) = 4 + bsize" if "frame_val v = None" for v
    using that body.wire_width gip_header.wire_width
    by (auto simp: frame_val_def frame_wire_def split: prod.splits option.splits)
qed (auto simp: frame_enc frame_dec split: prod.splits)

end
