(* ===== verification/Gip_Input.thy ===== *)
theory Gip_Input
  imports Gip_Header
begin

text \<open>
  The gamepad input messages of the Xbox One controller, with and without the Console
  Function Map (\<^verbatim>\<open>model.go\<close>, \<^verbatim>\<open>input_body.go\<close> and the input header of \<^verbatim>\<open>header.go\<close> under
  \<^verbatim>\<open>src/device/xboxone/\<close>). Both forms are shown to be an \<open>exact_codec\<close>.
\<close>

unbundle bit_operations_syntax

section \<open>Gamepad input\<close>

record InputStateV1 =
  in_Menu :: bool
  in_View :: bool
  in_A :: bool
  in_B :: bool
  in_X :: bool
  in_Y :: bool
  in_DPadUp :: bool
  in_DPadDown :: bool
  in_DPadLeft :: bool
  in_DPadRight :: bool
  in_LeftBumper :: bool
  in_RightBumper :: bool
  in_LeftStickButton :: bool
  in_RightStickButton :: bool
  in_Guide :: bool
  in_Share :: bool
  in_LeftTrigger :: u16
  in_RightTrigger :: u16
  in_LeftStickX :: u16
  in_LeftStickY :: u16
  in_RightStickX :: u16
  in_RightStickY :: u16

text \<open>The four stick axes are \<^verbatim>\<open>int16\<close> in the source and are only converted to and from
  \<^verbatim>\<open>uint16\<close>, which keeps the bits; the model holds the bits.\<close>

definition InputStateV1_Validate :: "InputStateV1 \<Rightarrow> gip_error option" where
  "InputStateV1_Validate st =
     (if in_LeftTrigger st > 1023 then Some ErrTriggerOutOfRange
      else if in_RightTrigger st > 1023 then Some ErrTriggerOutOfRange
      else None)"

definition ValidateBaseInputBody :: "InputStateV1 \<Rightarrow> gip_error option" where
  "ValidateBaseInputBody st =
     (case InputStateV1_Validate st of
        Some e \<Rightarrow> Some e
      | None \<Rightarrow>
          if in_Guide st then Some ErrGuideRequiresStatusMessage
          else if in_Share st then Some ErrShareRequiresExtension
          else None)"

record GamepadInputReportV1 =
  rep_State :: InputStateV1
  rep_KeepAlive :: bool

definition GamepadInputReportV1_Validate :: "GamepadInputReportV1 \<Rightarrow> gip_error option" where
  "GamepadInputReportV1_Validate report = ValidateBaseInputBody (rep_State report)"

definition encodeBaseButtons :: "GamepadInputReportV1 \<Rightarrow> u16" where
  "encodeBaseButtons report =
     (let st = rep_State report;
          set_mask = (\<lambda>(v, m) buttons. if v then buttons OR m else buttons)
      in fold set_mask
        [(rep_KeepAlive report, 0x0002), (in_Menu st, 0x0004), (in_View st, 0x0008),
         (in_A st, 0x0010), (in_B st, 0x0020), (in_X st, 0x0040), (in_Y st, 0x0080),
         (in_DPadUp st, 0x0100), (in_DPadDown st, 0x0200), (in_DPadLeft st, 0x0400),
         (in_DPadRight st, 0x0800), (in_LeftBumper st, 0x1000), (in_RightBumper st, 0x2000),
         (in_LeftStickButton st, 0x4000), (in_RightStickButton st, 0x8000)] 0)"

definition decodeBaseButtons :: "u16 \<Rightarrow> InputStateV1" where
  "decodeBaseButtons buttons =
     \<lparr> in_Menu = (buttons AND 0x0004 \<noteq> 0), in_View = (buttons AND 0x0008 \<noteq> 0),
       in_A = (buttons AND 0x0010 \<noteq> 0), in_B = (buttons AND 0x0020 \<noteq> 0),
       in_X = (buttons AND 0x0040 \<noteq> 0), in_Y = (buttons AND 0x0080 \<noteq> 0),
       in_DPadUp = (buttons AND 0x0100 \<noteq> 0), in_DPadDown = (buttons AND 0x0200 \<noteq> 0),
       in_DPadLeft = (buttons AND 0x0400 \<noteq> 0), in_DPadRight = (buttons AND 0x0800 \<noteq> 0),
       in_LeftBumper = (buttons AND 0x1000 \<noteq> 0), in_RightBumper = (buttons AND 0x2000 \<noteq> 0),
       in_LeftStickButton = (buttons AND 0x4000 \<noteq> 0),
       in_RightStickButton = (buttons AND 0x8000 \<noteq> 0),
       in_Guide = False, in_Share = False, in_LeftTrigger = 0, in_RightTrigger = 0,
       in_LeftStickX = 0, in_LeftStickY = 0, in_RightStickX = 0, in_RightStickY = 0 \<rparr>"

definition EncodeBaseInputBodyInto ::
    "bytes \<Rightarrow> GamepadInputReportV1 \<Rightarrow> gip_error option \<times> bytes" where
  "EncodeBaseInputBodyInto dst report =
     (if length dst \<noteq> 14 then (Some ErrInvalidLength, dst)
      else case GamepadInputReportV1_Validate report of
        Some e \<Rightarrow> (Some e, dst)
      | None \<Rightarrow>
          let st = rep_State report in
          (None, le_bytes 2 (encodeBaseButtons report)
            @ le_bytes 2 (in_LeftTrigger st) @ le_bytes 2 (in_RightTrigger st)
            @ le_bytes 2 (in_LeftStickX st) @ le_bytes 2 (in_LeftStickY st)
            @ le_bytes 2 (in_RightStickX st) @ le_bytes 2 (in_RightStickY st)))"

definition DecodeBaseInputBody :: "bytes \<Rightarrow> gip_error + GamepadInputReportV1" where
  "DecodeBaseInputBody src =
     (if length src \<noteq> 14 then Inl ErrInvalidLength
      else let buttons = le_word (slice src 0 2) :: u16 in
        if buttons AND 0x0001 \<noteq> 0 then Inl ErrReservedButtonBits
        else let report = \<lparr> rep_State = (decodeBaseButtons buttons)
                     \<lparr> in_LeftTrigger := le_word (slice src 2 4),
                       in_RightTrigger := le_word (slice src 4 6),
                       in_LeftStickX := le_word (slice src 6 8),
                       in_LeftStickY := le_word (slice src 8 10),
                       in_RightStickX := le_word (slice src 10 12),
                       in_RightStickY := le_word (slice src 12 14) \<rparr>,
                   rep_KeepAlive = (buttons AND 0x0002 \<noteq> 0) \<rparr> in
          case GamepadInputReportV1_Validate report of
            Some e \<Rightarrow> Inl e
          | None \<Rightarrow> Inr report)"

definition GamepadInputHeader :: "u8 \<Rightarrow> SinglePacketHeader" where
  "GamepadInputHeader s =
     \<lparr> h_DataClass = DataClassLowLatency, h_MessageNumber = 0, h_System = False,
       h_AcknowledgementRequested = False, h_ExpansionIndex = 0,
       h_Sequence = s, h_PayloadLength = 14 \<rparr>"

definition EncodeGamepadInputMessageInto ::
    "bytes \<Rightarrow> u8 \<Rightarrow> GamepadInputReportV1 \<Rightarrow> gip_error option \<times> bytes" where
  "EncodeGamepadInputMessageInto dst s report =
     (if length dst \<noteq> 18 then (Some ErrInvalidLength, dst)
      else case GamepadInputReportV1_Validate report of
        Some e \<Rightarrow> (Some e, dst)
      | None \<Rightarrow> (case EncodeSinglePacketHeaderInto (zeros 4) (GamepadInputHeader s) of
          (Some e, _) \<Rightarrow> (Some e, dst)
        | (None, hw) \<Rightarrow> (case EncodeBaseInputBodyInto (zeros 14) report of
            (Some e, _) \<Rightarrow> (Some e, dst)
          | (None, bw) \<Rightarrow> (None, copy_into dst (hw @ bw)))))"

definition DecodeGamepadInputMessage :: "bytes \<Rightarrow> gip_error + u8 \<times> GamepadInputReportV1" where
  "DecodeGamepadInputMessage wire =
     (if length wire \<noteq> 18 then Inl ErrInvalidLength
      else case DecodeSinglePacketHeader (slice wire 0 4) of
        Inl e \<Rightarrow> Inl e
      | Inr h \<Rightarrow>
          if h_DataClass h \<noteq> DataClassLowLatency \<or> h_MessageNumber h \<noteq> 0 \<or> h_System h \<or>
             h_AcknowledgementRequested h \<or> h_ExpansionIndex h \<noteq> 0 \<or> h_PayloadLength h \<noteq> 14
          then Inl ErrInvalidGamepadInputMessage
          else (case DecodeBaseInputBody (drop 4 wire) of
            Inl e \<Rightarrow> Inl e
          | Inr report \<Rightarrow> Inr (h_Sequence h, report)))"

definition ConsoleFunctionMapHeader :: "u8 \<Rightarrow> SinglePacketHeader" where
  "ConsoleFunctionMapHeader s =
     \<lparr> h_DataClass = DataClassLowLatency, h_MessageNumber = 0, h_System = False,
       h_AcknowledgementRequested = False, h_ExpansionIndex = 0,
       h_Sequence = s, h_PayloadLength = 32 \<rparr>"

definition EncodeConsoleFunctionMapGamepadInputMessageInto ::
    "bytes \<Rightarrow> u8 \<Rightarrow> GamepadInputReportV1 \<Rightarrow> gip_error option \<times> bytes" where
  "EncodeConsoleFunctionMapGamepadInputMessageInto dst s report =
     (if length dst \<noteq> 36 then (Some ErrInvalidLength, dst)
      else case InputStateV1_Validate (rep_State report) of
        Some e \<Rightarrow> (Some e, dst)
      | None \<Rightarrow>
          if in_Guide (rep_State report) then (Some ErrGuideRequiresStatusMessage, dst)
          else let base = report\<lparr> rep_State := (rep_State report)\<lparr> in_Share := False \<rparr> \<rparr> in
            (case EncodeSinglePacketHeaderInto (zeros 4) (ConsoleFunctionMapHeader s) of
              (Some e, _) \<Rightarrow> (Some e, dst)
            | (None, hw) \<Rightarrow> (case EncodeBaseInputBodyInto (zeros 14) base of
                (Some e, _) \<Rightarrow> (Some e, dst)
              | (None, bw) \<Rightarrow>
                  let ext = (if in_Share (rep_State report) then (zeros 18)[0 := 1] else zeros 18)
                  in (None, copy_into dst (hw @ bw @ ext)))))"

definition allZero :: "bytes \<Rightarrow> bool" where
  "allZero src = list_all (\<lambda>v. v = 0) src"

definition DecodeConsoleFunctionMapGamepadInputMessage ::
    "bytes \<Rightarrow> gip_error + u8 \<times> GamepadInputReportV1" where
  "DecodeConsoleFunctionMapGamepadInputMessage wire =
     (if length wire \<noteq> 36 then Inl ErrInvalidLength
      else case DecodeSinglePacketHeader (slice wire 0 4) of
        Inl e \<Rightarrow> Inl e
      | Inr h \<Rightarrow>
          if h_DataClass h \<noteq> DataClassLowLatency \<or> h_MessageNumber h \<noteq> 0 \<or> h_System h \<or>
             h_AcknowledgementRequested h \<or> h_ExpansionIndex h \<noteq> 0 \<or> h_PayloadLength h \<noteq> 32
          then Inl ErrInvalidGamepadInputMessage
          else (case DecodeBaseInputBody (slice wire 4 18) of
            Inl e \<Rightarrow> Inl e
          | Inr report \<Rightarrow>
              let extension = drop 18 wire in
              if extension ! 0 > 1 \<or> \<not> allZero (drop 1 extension)
              then Inl ErrInvalidConsoleFunctionMap
              else Inr (h_Sequence h,
                report\<lparr> rep_State := (rep_State report)\<lparr> in_Share := (extension ! 0 = 1) \<rparr> \<rparr>)))"

subsection \<open>The base body is an exact codec\<close>

lemma u16_eq_bits: "(a :: u16) = b \<longleftrightarrow>
    bit a 0 = bit b 0 \<and> bit a 1 = bit b 1 \<and> bit a 2 = bit b 2 \<and> bit a 3 = bit b 3 \<and>
    bit a 4 = bit b 4 \<and> bit a 5 = bit b 5 \<and> bit a 6 = bit b 6 \<and> bit a 7 = bit b 7 \<and>
    bit a 8 = bit b 8 \<and> bit a 9 = bit b 9 \<and> bit a 10 = bit b 10 \<and> bit a 11 = bit b 11 \<and>
    bit a 12 = bit b 12 \<and> bit a 13 = bit b 13 \<and> bit a 14 = bit b 14 \<and> bit a 15 = bit b 15"
proof -
  have "a = b \<longleftrightarrow> (\<forall>n \<in> {0,1,2,3,4,5,6,7,8,9,10,11,12,13,14,15}. bit a n = bit b n)"
  proof
    assume h: "\<forall>n \<in> {0,1,2,3,4,5,6,7,8,9,10,11,12,13,14,15}. bit a n = bit b n"
    show "a = b"
    proof (rule bit_word_eqI)
      fix n assume "n < LENGTH(16)"
      then have "n \<in> {0,1,2,3,4,5,6,7,8,9,10,11,12,13,14,15}" by auto presburger
      then show "bit a n = bit b n" using h by blast
    qed
  qed simp
  then show ?thesis by simp
qed

lemma button_bits: fixes a :: u16 shows
  "a AND 1 = 0 \<longleftrightarrow> \<not> bit a 0" "a AND 0x0002 = 0 \<longleftrightarrow> \<not> bit a 1"
  "a AND 0x0004 = 0 \<longleftrightarrow> \<not> bit a 2" "a AND 0x0008 = 0 \<longleftrightarrow> \<not> bit a 3"
  "a AND 0x0010 = 0 \<longleftrightarrow> \<not> bit a 4" "a AND 0x0020 = 0 \<longleftrightarrow> \<not> bit a 5"
  "a AND 0x0040 = 0 \<longleftrightarrow> \<not> bit a 6" "a AND 0x0080 = 0 \<longleftrightarrow> \<not> bit a 7"
  "a AND 0x0100 = 0 \<longleftrightarrow> \<not> bit a 8" "a AND 0x0200 = 0 \<longleftrightarrow> \<not> bit a 9"
  "a AND 0x0400 = 0 \<longleftrightarrow> \<not> bit a 10" "a AND 0x0800 = 0 \<longleftrightarrow> \<not> bit a 11"
  "a AND 0x1000 = 0 \<longleftrightarrow> \<not> bit a 12" "a AND 0x2000 = 0 \<longleftrightarrow> \<not> bit a 13"
  "a AND 0x4000 = 0 \<longleftrightarrow> \<not> bit a 14" "a AND 0x8000 = 0 \<longleftrightarrow> \<not> bit a 15"
  using and_exp_eq_0_iff_not_bit [of a 0] and_exp_eq_0_iff_not_bit [of a 1]
    and_exp_eq_0_iff_not_bit [of a 2] and_exp_eq_0_iff_not_bit [of a 3]
    and_exp_eq_0_iff_not_bit [of a 4] and_exp_eq_0_iff_not_bit [of a 5]
    and_exp_eq_0_iff_not_bit [of a 6] and_exp_eq_0_iff_not_bit [of a 7]
    and_exp_eq_0_iff_not_bit [of a 8] and_exp_eq_0_iff_not_bit [of a 9]
    and_exp_eq_0_iff_not_bit [of a 10] and_exp_eq_0_iff_not_bit [of a 11]
    and_exp_eq_0_iff_not_bit [of a 12] and_exp_eq_0_iff_not_bit [of a 13]
    and_exp_eq_0_iff_not_bit [of a 14] and_exp_eq_0_iff_not_bit [of a 15]
  by simp_all

lemma u16_flag_bits: fixes n :: nat shows
  "bit (0x0002 :: u16) n \<longleftrightarrow> n = 1" "bit (0x0004 :: u16) n \<longleftrightarrow> n = 2"
  "bit (0x0008 :: u16) n \<longleftrightarrow> n = 3" "bit (0x0010 :: u16) n \<longleftrightarrow> n = 4"
  "bit (0x0020 :: u16) n \<longleftrightarrow> n = 5" "bit (0x0040 :: u16) n \<longleftrightarrow> n = 6"
  "bit (0x0080 :: u16) n \<longleftrightarrow> n = 7" "bit (0x0100 :: u16) n \<longleftrightarrow> n = 8"
  "bit (0x0200 :: u16) n \<longleftrightarrow> n = 9" "bit (0x0400 :: u16) n \<longleftrightarrow> n = 10"
  "bit (0x0800 :: u16) n \<longleftrightarrow> n = 11" "bit (0x1000 :: u16) n \<longleftrightarrow> n = 12"
  "bit (0x2000 :: u16) n \<longleftrightarrow> n = 13" "bit (0x4000 :: u16) n \<longleftrightarrow> n = 14"
  "bit (0x8000 :: u16) n \<longleftrightarrow> n = 15"
proof -
  have e: "bit ((2 :: u16) ^ k) n \<longleftrightarrow> n = k" if "k < 16" for k
    using that by (auto simp: bit_exp_iff)
  show "bit (0x0002 :: u16) n \<longleftrightarrow> n = 1" using e [of 1] by simp
  show "bit (0x0004 :: u16) n \<longleftrightarrow> n = 2" using e [of 2] by simp
  show "bit (0x0008 :: u16) n \<longleftrightarrow> n = 3" using e [of 3] by simp
  show "bit (0x0010 :: u16) n \<longleftrightarrow> n = 4" using e [of 4] by simp
  show "bit (0x0020 :: u16) n \<longleftrightarrow> n = 5" using e [of 5] by simp
  show "bit (0x0040 :: u16) n \<longleftrightarrow> n = 6" using e [of 6] by simp
  show "bit (0x0080 :: u16) n \<longleftrightarrow> n = 7" using e [of 7] by simp
  show "bit (0x0100 :: u16) n \<longleftrightarrow> n = 8" using e [of 8] by simp
  show "bit (0x0200 :: u16) n \<longleftrightarrow> n = 9" using e [of 9] by simp
  show "bit (0x0400 :: u16) n \<longleftrightarrow> n = 10" using e [of 10] by simp
  show "bit (0x0800 :: u16) n \<longleftrightarrow> n = 11" using e [of 11] by simp
  show "bit (0x1000 :: u16) n \<longleftrightarrow> n = 12" using e [of 12] by simp
  show "bit (0x2000 :: u16) n \<longleftrightarrow> n = 13" using e [of 13] by simp
  show "bit (0x4000 :: u16) n \<longleftrightarrow> n = 14" using e [of 14] by simp
  show "bit (0x8000 :: u16) n \<longleftrightarrow> n = 15" using e [of 15] by simp
qed

lemma bit_set_mask: "bit (if v then x OR m else x) n \<longleftrightarrow> bit x n \<or> v \<and> bit m n" for x :: u16
  by (simp add: bit_or_iff)

lemma bit_encodeBaseButtons:
  "bit (encodeBaseButtons r) n \<longleftrightarrow>
     rep_KeepAlive r \<and> n = 1 \<or>
     in_Menu (rep_State r) \<and> n = 2 \<or>
     in_View (rep_State r) \<and> n = 3 \<or>
     in_A (rep_State r) \<and> n = 4 \<or>
     in_B (rep_State r) \<and> n = 5 \<or>
     in_X (rep_State r) \<and> n = 6 \<or>
     in_Y (rep_State r) \<and> n = 7 \<or>
     in_DPadUp (rep_State r) \<and> n = 8 \<or>
     in_DPadDown (rep_State r) \<and> n = 9 \<or>
     in_DPadLeft (rep_State r) \<and> n = 10 \<or>
     in_DPadRight (rep_State r) \<and> n = 11 \<or>
     in_LeftBumper (rep_State r) \<and> n = 12 \<or>
     in_RightBumper (rep_State r) \<and> n = 13 \<or>
     in_LeftStickButton (rep_State r) \<and> n = 14 \<or>
     in_RightStickButton (rep_State r) \<and> n = 15"
  unfolding encodeBaseButtons_def Let_def fold_simps prod.case bit_set_mask u16_flag_bits
  by (simp only: bit_0_eq bot_apply bot_bool_def disj_assoc simp_thms comp_def)

lemma buttons_exact:
  "b = encodeBaseButtons r \<longleftrightarrow>
     bit b 0 = False \<and>
     bit b 1 = rep_KeepAlive r \<and>
     bit b 2 = in_Menu (rep_State r) \<and>
     bit b 3 = in_View (rep_State r) \<and>
     bit b 4 = in_A (rep_State r) \<and>
     bit b 5 = in_B (rep_State r) \<and>
     bit b 6 = in_X (rep_State r) \<and>
     bit b 7 = in_Y (rep_State r) \<and>
     bit b 8 = in_DPadUp (rep_State r) \<and>
     bit b 9 = in_DPadDown (rep_State r) \<and>
     bit b 10 = in_DPadLeft (rep_State r) \<and>
     bit b 11 = in_DPadRight (rep_State r) \<and>
     bit b 12 = in_LeftBumper (rep_State r) \<and>
     bit b 13 = in_RightBumper (rep_State r) \<and>
     bit b 14 = in_LeftStickButton (rep_State r) \<and>
     bit b 15 = in_RightStickButton (rep_State r)"
  unfolding u16_eq_bits bit_encodeBaseButtons by simp

definition base_input_wire :: "GamepadInputReportV1 \<Rightarrow> bytes" where
  "base_input_wire r = le_bytes 2 (encodeBaseButtons r)
     @ le_bytes 2 (in_LeftTrigger (rep_State r)) @ le_bytes 2 (in_RightTrigger (rep_State r))
     @ le_bytes 2 (in_LeftStickX (rep_State r)) @ le_bytes 2 (in_LeftStickY (rep_State r))
     @ le_bytes 2 (in_RightStickX (rep_State r)) @ le_bytes 2 (in_RightStickY (rep_State r))"

lemma length_base_input_wire [simp]: "length (base_input_wire r) = 14"
  by (simp add: base_input_wire_def)

lemma base_input_wire_iff:
  assumes "length w = 14"
  shows "w = base_input_wire r \<longleftrightarrow> encodeBaseButtons r = le_word (slice w 0 2) \<and>
    in_LeftTrigger (rep_State r) = le_word (slice w 2 4) \<and>
    in_RightTrigger (rep_State r) = le_word (slice w 4 6) \<and>
    in_LeftStickX (rep_State r) = le_word (slice w 6 8) \<and>
    in_LeftStickY (rep_State r) = le_word (slice w 8 10) \<and>
    in_RightStickX (rep_State r) = le_word (slice w 10 12) \<and>
    in_RightStickY (rep_State r) = le_word (slice w 12 14)"
  unfolding base_input_wire_def using assms
  by (simp add: le_field_iff le_field_end_iff slice_drop)

text \<open>The body decoder reads back exactly the reports it can represent.\<close>

lemma base_input_exact:
  "DecodeBaseInputBody w = Inr r \<longleftrightarrow>
     GamepadInputReportV1_Validate r = None \<and> w = base_input_wire r"
proof (cases "length w = 14")
  case True
  define b :: u16 where "b = le_word (slice w 0 2)"
  define mk where "mk = \<lparr> rep_State = (decodeBaseButtons b)
                     \<lparr> in_LeftTrigger := le_word (slice w 2 4),
                       in_RightTrigger := le_word (slice w 4 6),
                       in_LeftStickX := le_word (slice w 6 8),
                       in_LeftStickY := le_word (slice w 8 10),
                       in_RightStickX := le_word (slice w 10 12),
                       in_RightStickY := le_word (slice w 12 14) \<rparr>,
                   rep_KeepAlive = (b AND 0x0002 \<noteq> 0) \<rparr>"
  have "DecodeBaseInputBody w = Inr r \<longleftrightarrow>
      \<not> bit b 0 \<and> GamepadInputReportV1_Validate mk = None \<and> r = mk"
    unfolding DecodeBaseInputBody_def Let_def b_def [symmetric] mk_def [symmetric]
    using True by (auto simp: button_bits simp del: bit_0 split: option.splits)
  also have "\<dots> \<longleftrightarrow> GamepadInputReportV1_Validate r = None \<and> \<not> bit b 0 \<and> r = mk" by auto
  also have "\<dots> \<longleftrightarrow> GamepadInputReportV1_Validate r = None \<and> w = base_input_wire r"
  proof (rule conj_cong [OF refl])
    assume "GamepadInputReportV1_Validate r = None"
    then have plain: "\<not> in_Guide (rep_State r)" "\<not> in_Share (rep_State r)"
      by (auto simp: GamepadInputReportV1_Validate_def ValidateBaseInputBody_def
          split: option.splits if_splits)
    obtain st ka where r: "r = \<lparr> rep_State = st, rep_KeepAlive = ka \<rparr>" by (cases r)
    have "w = base_input_wire r \<longleftrightarrow> b = encodeBaseButtons r \<and>
        in_LeftTrigger st = le_word (slice w 2 4) \<and>
        in_RightTrigger st = le_word (slice w 4 6) \<and>
        in_LeftStickX st = le_word (slice w 6 8) \<and>
        in_LeftStickY st = le_word (slice w 8 10) \<and>
        in_RightStickX st = le_word (slice w 10 12) \<and>
        in_RightStickY st = le_word (slice w 12 14)"
      unfolding base_input_wire_iff [OF True] b_def r by auto
    also have "\<dots> \<longleftrightarrow> \<not> bit b 0 \<and> r = mk"
      unfolding buttons_exact mk_def decodeBaseButtons_def r button_bits
      using plain by (cases st) (simp add: r del: bit_0, blast)
    finally show "(\<not> bit b 0 \<and> r = mk) \<longleftrightarrow> w = base_input_wire r" by blast
  qed
  finally show ?thesis .
next
  case False
  then show ?thesis by (auto simp: DecodeBaseInputBody_def base_input_wire_def)
qed

interpretation base_input: exact_codec EncodeBaseInputBodyInto DecodeBaseInputBody
  14 GamepadInputReportV1_Validate base_input_wire
  by unfold_locales
    (auto simp: EncodeBaseInputBodyInto_def base_input_exact base_input_wire_def Let_def
      split: option.splits)

lemma GamepadInputHeader_iff:
  "(h_DataClass h \<noteq> DataClassLowLatency \<or> h_MessageNumber h \<noteq> 0 \<or> h_System h \<or>
    h_AcknowledgementRequested h \<or> h_ExpansionIndex h \<noteq> 0 \<or> h_PayloadLength h \<noteq> 14) \<longleftrightarrow>
   h \<noteq> GamepadInputHeader (h_Sequence h)"
  by (cases h) (auto simp: GamepadInputHeader_def)

interpretation gamepad_input: framed_codec EncodeBaseInputBodyInto DecodeBaseInputBody
  14 GamepadInputReportV1_Validate base_input_wire GamepadInputHeader
  EncodeGamepadInputMessageInto DecodeGamepadInputMessage ErrInvalidGamepadInputMessage
  by unfold_locales (simp add: GamepadInputHeader_def,
    simp add: EncodeGamepadInputMessageInto_def,
    unfold DecodeGamepadInputMessage_def GamepadInputHeader_iff, simp)

subsection \<open>The Console Function Map form\<close>

definition without_share :: "GamepadInputReportV1 \<Rightarrow> GamepadInputReportV1" where
  "without_share r = r\<lparr> rep_State := (rep_State r)\<lparr> in_Share := False \<rparr> \<rparr>"

definition function_map_val :: "u8 \<times> GamepadInputReportV1 \<Rightarrow> gip_error option" where
  "function_map_val = (\<lambda>(s, r). case InputStateV1_Validate (rep_State r) of
     Some e \<Rightarrow> Some e
   | None \<Rightarrow> if in_Guide (rep_State r) then Some ErrGuideRequiresStatusMessage
       else SinglePacketHeader_Validate (ConsoleFunctionMapHeader s))"

definition function_map_wire :: "u8 \<times> GamepadInputReportV1 \<Rightarrow> bytes" where
  "function_map_wire = (\<lambda>(s, r). header_wire (ConsoleFunctionMapHeader s)
     @ base_input_wire (without_share r) @ bool_byte (in_Share (rep_State r)) # zeros 17)"

lemma without_share_valid:
  "GamepadInputReportV1_Validate (without_share r) = None \<longleftrightarrow>
     InputStateV1_Validate (rep_State r) = None \<and> \<not> in_Guide (rep_State r)"
  by (auto simp: GamepadInputReportV1_Validate_def ValidateBaseInputBody_def without_share_def
      InputStateV1_Validate_def)

lemma ConsoleFunctionMapHeader_iff:
  "(h_DataClass h \<noteq> DataClassLowLatency \<or> h_MessageNumber h \<noteq> 0 \<or> h_System h \<or>
    h_AcknowledgementRequested h \<or> h_ExpansionIndex h \<noteq> 0 \<or> h_PayloadLength h \<noteq> 32) \<longleftrightarrow>
   h \<noteq> ConsoleFunctionMapHeader (h_Sequence h)"
  by (cases h) (auto simp: ConsoleFunctionMapHeader_def)

lemma allZero_iff: "allZero bs \<longleftrightarrow> bs = zeros (length bs)"
  by (induction bs) (auto simp: allZero_def)

lemma share_extension:
  assumes "length e = 18"
  shows "\<not> (e ! 0 > 1 \<or> \<not> allZero (drop 1 e)) \<and> sh = (e ! 0 = 1) \<longleftrightarrow> e = bool_byte sh # zeros 17"
proof -
  obtain x xs where e: "e = x # xs" "length xs = 17" using assms by (cases e) auto
  have "\<not> x > 1 \<longleftrightarrow> x = 0 \<or> x = 1" by (rule byte_le_1_iff)
  moreover have "allZero (drop 1 e) \<longleftrightarrow> xs = zeros 17" using allZero_iff [of xs] e by simp
  moreover have "e ! 0 = x" using e by simp
  ultimately show ?thesis using e(1) by (cases sh) auto
qed

lemma without_share_eq:
  "GamepadInputReportV1_Validate base = None \<Longrightarrow>
   base\<lparr> rep_State := (rep_State base)\<lparr> in_Share := sh \<rparr> \<rparr> = r \<longleftrightarrow>
     base = without_share r \<and> sh = in_Share (rep_State r)"
  by (cases base; cases r)
    (auto simp: GamepadInputReportV1_Validate_def ValidateBaseInputBody_def without_share_def
      split: option.splits if_splits)

lemma length_function_map_wire: "length (function_map_wire v) = 36"
  by (cases v) (simp add: function_map_wire_def header_wire_def base_input_wire_def)

lemma function_map_exact:
  "DecodeConsoleFunctionMapGamepadInputMessage w = Inr (s, r) \<longleftrightarrow>
     function_map_val (s, r) = None \<and> w = function_map_wire (s, r)"
proof (cases "length w = 36")
  case True
  define e where "e = drop 18 w"
  have hdr: "h = ConsoleFunctionMapHeader (h_Sequence h) \<and> h_Sequence h = s \<longleftrightarrow>
      h = ConsoleFunctionMapHeader s" for h
    by (auto simp: ConsoleFunctionMapHeader_def)
  have len: "length e = 18" using True by (simp add: e_def)
  have parts: "w = slice w 0 4 @ slice w 4 18 @ e"
  proof -
    have "(slice w 0 4 @ slice w 4 18) @ e = take 18 w @ drop 18 w"
      unfolding slice_split [of 0 4 18 w, simplified] e_def by (simp only: slice_def) simp
    then show ?thesis by simp
  qed
  define upd where "upd base =
      base\<lparr> rep_State := (rep_State base)\<lparr> in_Share := (e ! 0 = 1) \<rparr> \<rparr>"
    for base :: GamepadInputReportV1
  have "DecodeConsoleFunctionMapGamepadInputMessage w = Inr (s, r) \<longleftrightarrow>
      DecodeSinglePacketHeader (slice w 0 4) = Inr (ConsoleFunctionMapHeader s) \<and>
      (\<exists>base. DecodeBaseInputBody (slice w 4 18) = Inr base \<and>
        \<not> (e ! 0 > 1 \<or> \<not> allZero (drop 1 e)) \<and> upd base = r)"
  proof (cases "DecodeSinglePacketHeader (slice w 0 4)")
    case (Inr h)
    show ?thesis
      unfolding DecodeConsoleFunctionMapGamepadInputMessage_def ConsoleFunctionMapHeader_iff
        e_def [symmetric] upd_def [symmetric] Let_def Inr sum.case
      using True hdr [of h] by (cases "DecodeBaseInputBody (slice w 4 18)") auto
  qed (use True in \<open>simp add: DecodeConsoleFunctionMapGamepadInputMessage_def\<close>)
  also have "\<dots> \<longleftrightarrow>
      DecodeSinglePacketHeader (slice w 0 4) = Inr (ConsoleFunctionMapHeader s) \<and>
      DecodeBaseInputBody (slice w 4 18) = Inr (without_share r) \<and>
      e = bool_byte (in_Share (rep_State r)) # zeros 17"
  proof (rule conj_cong [OF refl])
    have upd: "upd base = r \<longleftrightarrow> base = without_share r \<and> (e ! 0 = 1) = in_Share (rep_State r)"
      if "DecodeBaseInputBody (slice w 4 18) = Inr base" for base
      unfolding upd_def using that
      by (intro without_share_eq) (simp add: base_input_exact)
    show "(\<exists>base. DecodeBaseInputBody (slice w 4 18) = Inr base \<and>
        \<not> (e ! 0 > 1 \<or> \<not> allZero (drop 1 e)) \<and> upd base = r) \<longleftrightarrow>
      DecodeBaseInputBody (slice w 4 18) = Inr (without_share r) \<and>
      e = bool_byte (in_Share (rep_State r)) # zeros 17"
      unfolding share_extension [OF len, symmetric]
      by (cases "DecodeBaseInputBody (slice w 4 18)") (use upd in auto)
  qed
  also have "\<dots> \<longleftrightarrow> function_map_val (s, r) = None \<and> w = function_map_wire (s, r)"
  proof -
    have "w = function_map_wire (s, r) \<longleftrightarrow> slice w 0 4 @ slice w 4 18 @ e = function_map_wire (s, r)"
      by (simp only: parts [symmetric])
    also have "\<dots> \<longleftrightarrow>
        slice w 0 4 = header_wire (ConsoleFunctionMapHeader s) \<and>
        slice w 4 18 = base_input_wire (without_share r) \<and>
        e = bool_byte (in_Share (rep_State r)) # zeros 17"
      unfolding function_map_wire_def prod.case
      using True by simp
    finally show ?thesis
      by (auto simp: gip_header.dec_exact base_input_exact without_share_valid
          function_map_val_def split: option.splits)
  qed
  finally show ?thesis .
next
  case False
  then show ?thesis
    using length_function_map_wire [of "(s, r)"]
    by (auto simp: DecodeConsoleFunctionMapGamepadInputMessage_def)
qed

interpretation function_map: exact_codec
  "\<lambda>dst (s, r). EncodeConsoleFunctionMapGamepadInputMessageInto dst s r"
  DecodeConsoleFunctionMapGamepadInputMessage 36 function_map_val function_map_wire
proof
  show "(case v of (s, r) \<Rightarrow> EncodeConsoleFunctionMapGamepadInputMessageInto dst s r) =
      (if length dst \<noteq> 36 then (Some ErrInvalidLength, dst)
       else case function_map_val v of
         Some e \<Rightarrow> (Some e, dst) | None \<Rightarrow> (None, function_map_wire v))" for dst v
  proof -
    obtain s r where v: "v = (s, r)" by (cases v)
    have "length (base_input_wire (without_share r)) = 14" by (simp add: base_input_wire_def)
    then show ?thesis
      using without_share_valid [of r]
      by (auto simp: v EncodeConsoleFunctionMapGamepadInputMessageInto_def function_map_val_def
          function_map_wire_def Let_def gip_header.enc_eq base_input.enc_eq copy_into_full
          header_wire_def numeral_eq_Suc simp flip: without_share_def split: option.splits)
  qed
qed (auto simp: function_map_exact length_function_map_wire split: prod.splits)

end
