(* ===== verification/Gip_Status.thy ===== *)
theory Gip_Status
  imports Gip_Header
begin

text \<open>
  The other messages the Xbox One controller sends: Extended Status without events
  (\<^verbatim>\<open>status_body.go\<close>), the Guide button (\<^verbatim>\<open>guide_status.go\<close>) and Hello (\<^verbatim>\<open>hello.go\<close>, with
  the identity and configuration checks of \<^verbatim>\<open>usb_descriptors.go\<close>), all under
  \<^verbatim>\<open>src/device/xboxone/\<close>. The status and Guide codecs are \<open>exact_codec\<close>s; Hello has a profile
  in the place of the encoded value and is exact through \<open>hello_of\<close>.
\<close>

unbundle bit_operations_syntax

section \<open>Extended status without events\<close>

record ExtendedStatusNoEventsBodyV1 =
  st_PowerLevel :: u8
  st_ChargeState :: u8
  st_BatteryType :: u8
  st_BatteryLevel :: u8
  st_DeviceActive :: bool

abbreviation (input) StatusPoweringOff :: u8 where "StatusPoweringOff \<equiv> 0"
abbreviation (input) StatusFullPower :: u8 where "StatusFullPower \<equiv> 2"
abbreviation (input) StatusChargeError :: u8 where "StatusChargeError \<equiv> 2"
abbreviation (input) StatusBatteryRechargeable :: u8 where "StatusBatteryRechargeable \<equiv> 2"
abbreviation (input) StatusBatteryFull :: u8 where "StatusBatteryFull \<equiv> 3"

definition ExtendedStatus_Validate :: "ExtendedStatusNoEventsBodyV1 \<Rightarrow> gip_error option" where
  "ExtendedStatus_Validate body =
     (if st_PowerLevel body \<noteq> StatusPoweringOff \<and> st_PowerLevel body \<noteq> StatusFullPower
      then Some ErrReservedStatusValue
      else if st_ChargeState body > StatusChargeError then Some ErrReservedStatusValue
      else if st_BatteryType body > StatusBatteryRechargeable then Some ErrReservedStatusValue
      else if st_BatteryLevel body > StatusBatteryFull then Some ErrReservedStatusValue
      else None)"

definition NewWiredNoBatteryStatus :: "bool \<Rightarrow> ExtendedStatusNoEventsBodyV1" where
  "NewWiredNoBatteryStatus poweringOff =
     \<lparr> st_PowerLevel = (if poweringOff then StatusPoweringOff else StatusFullPower),
       st_ChargeState = 0, st_BatteryType = 0, st_BatteryLevel = 0, st_DeviceActive = False \<rparr>"

definition statusByte :: "ExtendedStatusNoEventsBodyV1 \<Rightarrow> u8" where
  "statusByte body = push_bit 6 (st_PowerLevel body) OR push_bit 4 (st_ChargeState body)
     OR push_bit 2 (st_BatteryType body) OR st_BatteryLevel body"

definition EncodeExtendedStatusNoEventsBodyInto ::
    "bytes \<Rightarrow> ExtendedStatusNoEventsBodyV1 \<Rightarrow> gip_error option \<times> bytes" where
  "EncodeExtendedStatusNoEventsBodyInto dst body =
     (if length dst \<noteq> 4 then (Some ErrInvalidLength, dst)
      else case ExtendedStatus_Validate body of
        Some e \<Rightarrow> (Some e, dst)
      | None \<Rightarrow>
          let extended = (if st_DeviceActive body then 1 else 0) in
          (None, dst[0 := statusByte body, 1 := extended, 2 := 0, 3 := 0]))"

definition DecodeExtendedStatusNoEventsBody ::
    "bytes \<Rightarrow> gip_error + ExtendedStatusNoEventsBodyV1" where
  "DecodeExtendedStatusNoEventsBody src =
     (if length src \<noteq> 4 then Inl ErrInvalidLength
      else if src ! 1 AND 0xfc \<noteq> 0 \<or> src ! 2 \<noteq> 0 \<or> src ! 3 \<noteq> 0
      then Inl ErrReservedExtendedStatusFlag
      else if src ! 1 AND 0x02 \<noteq> 0 then Inl ErrUnsupportedStatusEvents
      else let status = src ! 0;
               body = \<lparr> st_PowerLevel = drop_bit 6 status,
                 st_ChargeState = drop_bit 4 status AND 0x03,
                 st_BatteryType = drop_bit 2 status AND 0x03,
                 st_BatteryLevel = status AND 0x03,
                 st_DeviceActive = (src ! 1 AND 0x01 \<noteq> 0) \<rparr> in
        case ExtendedStatus_Validate body of
          Some e \<Rightarrow> Inl e
        | None \<Rightarrow> Inr body)"

definition ExtendedStatusNoEventsHeader :: "u8 \<Rightarrow> SinglePacketHeader" where
  "ExtendedStatusNoEventsHeader s =
     \<lparr> h_DataClass = DataClassCommand, h_MessageNumber = 3, h_System = True,
       h_AcknowledgementRequested = False, h_ExpansionIndex = 0,
       h_Sequence = s, h_PayloadLength = 4 \<rparr>"

definition EncodeExtendedStatusNoEventsMessageInto ::
    "bytes \<Rightarrow> u8 \<Rightarrow> ExtendedStatusNoEventsBodyV1 \<Rightarrow> gip_error option \<times> bytes" where
  "EncodeExtendedStatusNoEventsMessageInto dst s body =
     (if length dst \<noteq> 8 then (Some ErrInvalidLength, dst)
      else case ExtendedStatus_Validate body of
        Some e \<Rightarrow> (Some e, dst)
      | None \<Rightarrow> (case EncodeSinglePacketHeaderInto (zeros 4) (ExtendedStatusNoEventsHeader s) of
          (Some e, _) \<Rightarrow> (Some e, dst)
        | (None, hw) \<Rightarrow> (case EncodeExtendedStatusNoEventsBodyInto (zeros 4) body of
            (Some e, _) \<Rightarrow> (Some e, dst)
          | (None, bw) \<Rightarrow> (None, copy_into dst (hw @ bw)))))"

definition DecodeExtendedStatusNoEventsMessage ::
    "bytes \<Rightarrow> gip_error + u8 \<times> ExtendedStatusNoEventsBodyV1" where
  "DecodeExtendedStatusNoEventsMessage wire =
     (if length wire \<noteq> 8 then Inl ErrInvalidLength
      else case DecodeSinglePacketHeader (slice wire 0 4) of
        Inl e \<Rightarrow> Inl e
      | Inr h \<Rightarrow>
          if h_DataClass h \<noteq> DataClassCommand \<or> h_MessageNumber h \<noteq> 3 \<or> \<not> h_System h \<or>
             h_AcknowledgementRequested h \<or> h_ExpansionIndex h \<noteq> 0 \<or> h_PayloadLength h \<noteq> 4
          then Inl ErrInvalidStatusMessage
          else (case DecodeExtendedStatusNoEventsBody (drop 4 wire) of
            Inl e \<Rightarrow> Inl e
          | Inr body \<Rightarrow> Inr (h_Sequence h, body)))"

definition status_wire :: "ExtendedStatusNoEventsBodyV1 \<Rightarrow> bytes" where
  "status_wire body = [statusByte body, bool_byte (st_DeviceActive body), 0, 0]"

lemma status_byte_fields:
  fixes b p c t l :: u8
  assumes "p \<le> 3" "c \<le> 3" "t \<le> 3" "l \<le> 3"
  shows "b = push_bit 6 p OR push_bit 4 c OR push_bit 2 t OR l \<longleftrightarrow>
    p = drop_bit 6 b \<and> c = drop_bit 4 b AND 3 \<and> t = drop_bit 2 b AND 3 \<and> l = b AND 3"
  using assms unfolding and_mask_bits byte_bits byte_eq_bits
  by (simp add: bit_simps byte_high_bits) blast

lemma active_byte:
  "b = bool_byte a \<longleftrightarrow> b AND 0xfc = 0 \<and> b AND 0x02 = 0 \<and> a = (b AND 0x01 \<noteq> 0)" for b :: u8
proof -
  have fc: "(0xfc :: u8) = NOT (mask 2)" by (simp add: mask_eq_exp_minus_1)
  have "bit (0xfc :: u8) n \<longleftrightarrow> n < 8 \<and> 2 \<le> n" for n
    unfolding fc by (auto simp: bit_not_iff bit_mask_iff)
  then have "b AND 0xfc = 0 \<longleftrightarrow>
      \<not> bit b 2 \<and> \<not> bit b 3 \<and> \<not> bit b 4 \<and> \<not> bit b 5 \<and> \<not> bit b 6 \<and> \<not> bit b 7"
    unfolding byte_eq_bits by (simp add: bit_and_iff)
  then show ?thesis
    unfolding and_flag_bits by (cases a) (auto simp: byte_eq_bits and_mask_bits bit_simps bit_1_iff bit_0)
qed

lemma status_valid_bounds:
  assumes "ExtendedStatus_Validate body = None"
  shows "st_PowerLevel body \<le> 3" "st_ChargeState body \<le> 3" "st_BatteryType body \<le> 3"
    "st_BatteryLevel body \<le> 3"
  using assms by (auto simp: ExtendedStatus_Validate_def word_le_nat_alt word_less_nat_alt
      split: if_splits)

lemma status_exact_4:
  "DecodeExtendedStatusNoEventsBody [b0, b1, b2, b3] = Inr body \<longleftrightarrow>
     ExtendedStatus_Validate body = None \<and> [b0, b1, b2, b3] = status_wire body"
proof -
  define mk where "mk = \<lparr> st_PowerLevel = drop_bit 6 b0,
      st_ChargeState = drop_bit 4 b0 AND 0x03, st_BatteryType = drop_bit 2 b0 AND 0x03,
      st_BatteryLevel = b0 AND 0x03, st_DeviceActive = (b1 AND 0x01 \<noteq> 0) \<rparr>"
  have "DecodeExtendedStatusNoEventsBody [b0, b1, b2, b3] = Inr body \<longleftrightarrow>
      ExtendedStatus_Validate body = None \<and> body = mk \<and> b1 AND 0xfc = 0 \<and> b1 AND 0x02 = 0 \<and>
      b2 = 0 \<and> b3 = 0"
    unfolding DecodeExtendedStatusNoEventsBody_def Let_def
    by (auto simp: mk_def simp del: not_None_eq split: option.splits)
  also have "\<dots> \<longleftrightarrow> ExtendedStatus_Validate body = None \<and> [b0, b1, b2, b3] = status_wire body"
  proof (rule conj_cong [OF refl])
    assume v: "ExtendedStatus_Validate body = None"
    have "body = mk \<longleftrightarrow> b0 = statusByte body \<and> st_DeviceActive body = (b1 AND 1 \<noteq> 0)"
      unfolding statusByte_def status_byte_fields [OF status_valid_bounds [OF v]]
      by (cases body) (auto simp: mk_def)
    then show "body = mk \<and> b1 AND 0xfc = 0 \<and> b1 AND 0x02 = 0 \<and> b2 = 0 \<and> b3 = 0 \<longleftrightarrow>
        [b0, b1, b2, b3] = status_wire body"
      unfolding status_wire_def list.inject active_byte by blast
  qed
  finally show ?thesis .
qed

interpretation status_body: exact_codec EncodeExtendedStatusNoEventsBodyInto
  DecodeExtendedStatusNoEventsBody 4 ExtendedStatus_Validate status_wire
proof
  show "EncodeExtendedStatusNoEventsBodyInto dst v =
      (if length dst \<noteq> 4 then (Some ErrInvalidLength, dst)
       else case ExtendedStatus_Validate v of
         Some e \<Rightarrow> (Some e, dst) | None \<Rightarrow> (None, status_wire v))" for dst v
    by (auto simp: EncodeExtendedStatusNoEventsBodyInto_def status_wire_def Let_def
        split: option.splits elim!: length_4_cases)
  show "DecodeExtendedStatusNoEventsBody w = Inr v \<longleftrightarrow>
      ExtendedStatus_Validate v = None \<and> w = status_wire v" for w v
  proof (cases "length w = 4")
    case True
    then obtain a b c d where "w = [a, b, c, d]" by (rule length_4_cases)
    then show ?thesis using status_exact_4 by simp
  next
    case False
    then show ?thesis by (auto simp: DecodeExtendedStatusNoEventsBody_def status_wire_def)
  qed
qed (simp add: status_wire_def)

lemma ExtendedStatusNoEventsHeader_iff:
  "(h_DataClass h \<noteq> DataClassCommand \<or> h_MessageNumber h \<noteq> 3 \<or> \<not> h_System h \<or>
    h_AcknowledgementRequested h \<or> h_ExpansionIndex h \<noteq> 0 \<or> h_PayloadLength h \<noteq> 4) \<longleftrightarrow>
   h \<noteq> ExtendedStatusNoEventsHeader (h_Sequence h)"
  by (cases h) (auto simp: ExtendedStatusNoEventsHeader_def)

interpretation status_message: framed_codec EncodeExtendedStatusNoEventsBodyInto
  DecodeExtendedStatusNoEventsBody 4 ExtendedStatus_Validate status_wire
  ExtendedStatusNoEventsHeader EncodeExtendedStatusNoEventsMessageInto
  DecodeExtendedStatusNoEventsMessage ErrInvalidStatusMessage
  by unfold_locales (simp add: ExtendedStatusNoEventsHeader_def,
    simp add: EncodeExtendedStatusNoEventsMessageInto_def,
    unfold DecodeExtendedStatusNoEventsMessage_def ExtendedStatusNoEventsHeader_iff, simp)

section \<open>Guide button status\<close>

record GuideButtonStatusV1 =
  guide_Down :: bool

abbreviation (input) GuideButtonVirtualKey :: u8 where "GuideButtonVirtualKey \<equiv> 0x5b"

definition GuideButtonStatusHeader :: "u8 \<Rightarrow> SinglePacketHeader" where
  "GuideButtonStatusHeader s =
     \<lparr> h_DataClass = DataClassCommand, h_MessageNumber = 7, h_System = True,
       h_AcknowledgementRequested = False, h_ExpansionIndex = 0,
       h_Sequence = s, h_PayloadLength = 2 \<rparr>"

definition EncodeGuideButtonStatusMessageInto ::
    "bytes \<Rightarrow> u8 \<Rightarrow> GuideButtonStatusV1 \<Rightarrow> gip_error option \<times> bytes" where
  "EncodeGuideButtonStatusMessageInto dst s status =
     (if length dst \<noteq> 6 then (Some ErrInvalidLength, dst)
      else case EncodeSinglePacketHeaderInto (zeros 4) (GuideButtonStatusHeader s) of
        (Some e, _) \<Rightarrow> (Some e, dst)
      | (None, hw) \<Rightarrow>
          let wire = hw @ zeros 2;
              wire = (if guide_Down status then wire[4 := 1] else wire);
              wire = wire[5 := GuideButtonVirtualKey]
          in (None, copy_into dst wire))"

definition DecodeGuideButtonStatusMessage :: "bytes \<Rightarrow> gip_error + u8 \<times> GuideButtonStatusV1" where
  "DecodeGuideButtonStatusMessage wire =
     (if length wire \<noteq> 6 then Inl ErrInvalidLength
      else case DecodeSinglePacketHeader (slice wire 0 4) of
        Inl e \<Rightarrow> Inl e
      | Inr h \<Rightarrow>
          if h_DataClass h \<noteq> DataClassCommand \<or> h_MessageNumber h \<noteq> 7 \<or> \<not> h_System h \<or>
             h_AcknowledgementRequested h \<or> h_ExpansionIndex h \<noteq> 0 \<or> h_PayloadLength h \<noteq> 2 \<or>
             wire ! 4 > 1 \<or> wire ! 5 \<noteq> GuideButtonVirtualKey
          then Inl ErrInvalidGuideButtonStatusMessage
          else Inr (h_Sequence h, \<lparr> guide_Down = (wire ! 4 = 1) \<rparr>))"

definition guide_val :: "u8 \<times> GuideButtonStatusV1 \<Rightarrow> gip_error option" where
  "guide_val = (\<lambda>(s, g). SinglePacketHeader_Validate (GuideButtonStatusHeader s))"

definition guide_wire :: "u8 \<times> GuideButtonStatusV1 \<Rightarrow> bytes" where
  "guide_wire = (\<lambda>(s, g). header_wire (GuideButtonStatusHeader s)
     @ [bool_byte (guide_Down g), GuideButtonVirtualKey])"

lemma GuideButtonStatusHeader_iff:
  "(h_DataClass h \<noteq> DataClassCommand \<or> h_MessageNumber h \<noteq> 7 \<or> \<not> h_System h \<or>
    h_AcknowledgementRequested h \<or> h_ExpansionIndex h \<noteq> 0 \<or> h_PayloadLength h \<noteq> 2 \<or> P) \<longleftrightarrow>
   h \<noteq> GuideButtonStatusHeader (h_Sequence h) \<or> P"
  by (cases h) (auto simp: GuideButtonStatusHeader_def)

lemma guide_exact:
  "DecodeGuideButtonStatusMessage w = Inr (s, g) \<longleftrightarrow>
     guide_val (s, g) = None \<and> w = guide_wire (s, g)"
proof (cases "length w = 6")
  case True
  then obtain x y where w: "w = slice w 0 4 @ [x, y]" "w ! 4 = x" "w ! 5 = y"
  proof -
    have "(slice w 0 4 @ [w ! 4]) @ [w ! 5] = w"
      using True slice_split [of 0 4 5 w] slice_split [of 0 5 6 w] slice_single [of 4 w]
        slice_single [of 5 w]
      by simp
    then show ?thesis using that [of "w ! 4" "w ! 5"] by simp
  qed
  have hdr: "h = GuideButtonStatusHeader (h_Sequence h) \<and> h_Sequence h = s \<longleftrightarrow>
      h = GuideButtonStatusHeader s" for h
    by (auto simp: GuideButtonStatusHeader_def)
  have xg: "\<not> x > 1 \<and> (x = 1) = guide_Down g \<longleftrightarrow> x = bool_byte (guide_Down g)"
    unfolding byte_le_1_iff by auto
  have "DecodeGuideButtonStatusMessage w = Inr (s, g) \<longleftrightarrow>
      DecodeSinglePacketHeader (slice w 0 4) = Inr (GuideButtonStatusHeader s) \<and>
      (\<not> x > 1 \<and> (x = 1) = guide_Down g) \<and> y = GuideButtonVirtualKey"
    unfolding DecodeGuideButtonStatusMessage_def GuideButtonStatusHeader_iff w(2,3)
    using True hdr by (cases "DecodeSinglePacketHeader (slice w 0 4)"; cases g) auto
  also have "\<dots> \<longleftrightarrow> guide_val (s, g) = None \<and> slice w 0 4 @ [x, y] = guide_wire (s, g)"
    unfolding xg gip_header.dec_exact guide_val_def guide_wire_def prod.case
    using True by simp
  finally show ?thesis by (simp only: w(1) [symmetric])
next
  case False
  then show ?thesis
    by (auto simp: DecodeGuideButtonStatusMessage_def guide_wire_def)
qed

interpretation guide_message: exact_codec
  "\<lambda>dst (s, g). EncodeGuideButtonStatusMessageInto dst s g"
  DecodeGuideButtonStatusMessage 6 guide_val guide_wire
proof
  show "(case v of (s, g) \<Rightarrow> EncodeGuideButtonStatusMessageInto dst s g) =
      (if length dst \<noteq> 6 then (Some ErrInvalidLength, dst)
       else case guide_val v of Some e \<Rightarrow> (Some e, dst) | None \<Rightarrow> (None, guide_wire v))" for dst v
    by (auto simp: EncodeGuideButtonStatusMessageInto_def guide_val_def guide_wire_def Let_def
        gip_header.enc_eq copy_into_full list_update_append numeral_2_eq_2 split: prod.splits option.splits)
qed (auto simp: guide_exact guide_wire_def split: prod.splits)

section \<open>Hello\<close>

record FirmwareVersion =
  fw_Major :: u16
  fw_Minor :: u16
  fw_Build :: u16
  fw_Revision :: u16

definition FirmwareVersion_validate :: "FirmwareVersion \<Rightarrow> gip_error option" where
  "FirmwareVersion_validate v =
     (if fw_Major v = 0 \<and> fw_Minor v = 0 \<and> fw_Build v = 0 \<and> fw_Revision v = 0
      then Some ErrInvalidFirmwareVersion else None)"

record ControllerIdentity =
  ci_VendorID :: u16
  ci_ProductID :: u16
  ci_DeviceReleaseBCD :: u16
  ci_DeviceID :: u64
  ci_Firmware :: FirmwareVersion
  ci_HardwareMajor :: u8
  ci_HardwareMinor :: u8

abbreviation (input) primaryDeviceIDPrefix :: u64 where
  "primaryDeviceIDPrefix \<equiv> 0x0000fffb00000000"
abbreviation (input) primaryDeviceIDPrefixMask :: u64 where
  "primaryDeviceIDPrefixMask \<equiv> 0xffffffff00000000"

definition validBCD16 :: "u16 \<Rightarrow> bool" where
  "validBCD16 v = list_all (\<lambda>shift. drop_bit shift v AND 0x0f \<le> 9) [0, 4, 8, 12]"

definition ControllerIdentity_Validate :: "ControllerIdentity \<Rightarrow> gip_error option" where
  "ControllerIdentity_Validate identity =
     (if ci_VendorID identity = 0 \<or> ci_ProductID identity = 0 then Some ErrInvalidUSBIdentity
      else if ci_DeviceID identity AND primaryDeviceIDPrefixMask \<noteq> primaryDeviceIDPrefix
      then Some ErrInvalidDeviceID
      else if \<not> validBCD16 (ci_DeviceReleaseBCD identity) then Some ErrInvalidDeviceReleaseBCD
      else FirmwareVersion_validate (ci_Firmware identity))"

record ControllerUSBConfig =
  usb_MaxPower2mA :: u16
  usb_OUTIntervalMS :: u16
  usb_INIntervalMS :: u16

definition ControllerUSBConfig_Validate :: "ControllerUSBConfig \<Rightarrow> gip_error option" where
  "ControllerUSBConfig_Validate config =
     (if usb_MaxPower2mA config = 0 \<or> usb_MaxPower2mA config > 250 then Some ErrInvalidUSBPower
      else if usb_OUTIntervalMS config < 4 \<or> usb_OUTIntervalMS config > 0xff
      then Some ErrInvalidUSBInterval
      else if usb_INIntervalMS config < 4 \<or> usb_INIntervalMS config > 0xff
      then Some ErrInvalidUSBInterval
      else None)"

text \<open>The issuance pointer of a profile is nil or an address with the marker byte there;
  a new profile takes the address of its fresh issuance.\<close>

record UnregisteredControllerProfile =
  prof_identity :: ControllerIdentity
  prof_usb :: ControllerUSBConfig
  prof_issuance :: "(nat \<times> u8) option"
  prof_valid :: bool

definition NewUnregisteredControllerProfile ::
    "nat \<Rightarrow> ControllerIdentity \<Rightarrow> ControllerUSBConfig \<Rightarrow>
       gip_error + UnregisteredControllerProfile" where
  "NewUnregisteredControllerProfile address identity usb =
     (case ControllerIdentity_Validate identity of
        Some e \<Rightarrow> Inl e
      | None \<Rightarrow> (case ControllerUSBConfig_Validate usb of
          Some e \<Rightarrow> Inl e
        | None \<Rightarrow> Inr \<lparr> prof_identity = identity, prof_usb = usb,
            prof_issuance = Some (address, 1), prof_valid = True \<rparr>))"

definition profile_validate :: "UnregisteredControllerProfile \<Rightarrow> gip_error option" where
  "profile_validate profile =
     (if \<not> prof_valid profile \<or> prof_issuance profile = None \<or>
        map_option snd (prof_issuance profile) \<noteq> Some 1
      then Some ErrUninitializedControllerProfile
      else case ControllerIdentity_Validate (prof_identity profile) of
        Some e \<Rightarrow> Some e
      | None \<Rightarrow> ControllerUSBConfig_Validate (prof_usb profile))"

definition profile_Identity ::
    "UnregisteredControllerProfile \<Rightarrow> gip_error + ControllerIdentity" where
  "profile_Identity profile =
     (case profile_validate profile of
        Some e \<Rightarrow> Inl e | None \<Rightarrow> Inr (prof_identity profile))"

record HelloMessageV1 =
  hello_Sequence :: u8
  hello_DeviceID :: u64
  hello_VendorID :: u16
  hello_ProductID :: u16
  hello_Firmware :: FirmwareVersion
  hello_HardwareMajor :: u8
  hello_HardwareMinor :: u8

definition Hello_validate :: "HelloMessageV1 \<Rightarrow> gip_error option" where
  "Hello_validate hello =
     (if hello_Sequence hello = 0 then Some ErrReservedSequence
      else if hello_DeviceID hello AND primaryDeviceIDPrefixMask \<noteq> primaryDeviceIDPrefix
      then Some ErrInvalidDeviceID
      else if hello_VendorID hello = 0 \<or> hello_ProductID hello = 0
      then Some ErrInvalidUSBIdentity
      else FirmwareVersion_validate (hello_Firmware hello))"

definition HelloHeader :: "u8 \<Rightarrow> SinglePacketHeader" where
  "HelloHeader s =
     \<lparr> h_DataClass = DataClassCommand, h_MessageNumber = 2, h_System = True,
       h_AcknowledgementRequested = False, h_ExpansionIndex = 0,
       h_Sequence = s, h_PayloadLength = 28 \<rparr>"

definition hello_of :: "UnregisteredControllerProfile \<Rightarrow> u8 \<Rightarrow> HelloMessageV1" where
  "hello_of profile s =
     (let identity = prof_identity profile in
      \<lparr> hello_Sequence = s, hello_DeviceID = ci_DeviceID identity,
        hello_VendorID = ci_VendorID identity, hello_ProductID = ci_ProductID identity,
        hello_Firmware = ci_Firmware identity,
        hello_HardwareMajor = ci_HardwareMajor identity,
        hello_HardwareMinor = ci_HardwareMinor identity \<rparr>)"

definition EncodeHelloMessageInto ::
    "UnregisteredControllerProfile \<Rightarrow> bytes \<Rightarrow> u8 \<Rightarrow> gip_error option \<times> bytes" where
  "EncodeHelloMessageInto profile dst s =
     (if length dst \<noteq> 32 then (Some ErrInvalidLength, dst)
      else case profile_validate profile of
        Some e \<Rightarrow> (Some e, dst)
      | None \<Rightarrow>
          let hello = hello_of profile s in
          (case Hello_validate hello of
            Some e \<Rightarrow> (Some e, dst)
          | None \<Rightarrow> (case EncodeSinglePacketHeaderInto (zeros 4) (HelloHeader s) of
              (Some e, _) \<Rightarrow> (Some e, dst)
            | (None, hw) \<Rightarrow>
                let fw = hello_Firmware hello in
                (None, copy_into dst (hw @ le_bytes 8 (hello_DeviceID hello)
                  @ le_bytes 2 (hello_VendorID hello) @ le_bytes 2 (hello_ProductID hello)
                  @ le_bytes 2 (fw_Major fw) @ le_bytes 2 (fw_Minor fw)
                  @ le_bytes 2 (fw_Build fw) @ le_bytes 2 (fw_Revision fw)
                  @ [hello_HardwareMajor hello, hello_HardwareMinor hello]
                  @ [0x01, 0x00, 0x01, 0x00, 0x01, 0x00])))))"

definition DecodeHelloMessage :: "bytes \<Rightarrow> gip_error + HelloMessageV1" where
  "DecodeHelloMessage src =
     (if length src \<noteq> 32 then Inl ErrInvalidLength
      else case DecodeSinglePacketHeader (slice src 0 4) of
        Inl e \<Rightarrow> Inl ErrInvalidHelloMessage
      | Inr h \<Rightarrow>
          if h_DataClass h \<noteq> DataClassCommand \<or> h_MessageNumber h \<noteq> 2 \<or> \<not> h_System h \<or>
             h_AcknowledgementRequested h \<or> h_ExpansionIndex h \<noteq> 0 \<or> h_PayloadLength h \<noteq> 28
          then Inl ErrInvalidHelloMessage
          else if src ! 26 \<noteq> 0x01 \<or> src ! 27 \<noteq> 0x00 \<or> src ! 28 \<noteq> 0x01 \<or> src ! 29 \<noteq> 0x00 \<or>
             src ! 30 \<noteq> 0x01 \<or> src ! 31 \<noteq> 0x00
          then Inl ErrInvalidHelloMessage
          else let hello = \<lparr> hello_Sequence = h_Sequence h,
                     hello_DeviceID = le_word (slice src 4 12),
                     hello_VendorID = le_word (slice src 12 14),
                     hello_ProductID = le_word (slice src 14 16),
                     hello_Firmware = \<lparr> fw_Major = le_word (slice src 16 18),
                       fw_Minor = le_word (slice src 18 20),
                       fw_Build = le_word (slice src 20 22),
                       fw_Revision = le_word (slice src 22 24) \<rparr>,
                     hello_HardwareMajor = src ! 24, hello_HardwareMinor = src ! 25 \<rparr> in
            case Hello_validate hello of
              Some e \<Rightarrow> Inl ErrInvalidHelloMessage
            | None \<Rightarrow> Inr hello)"

definition hello_wire :: "HelloMessageV1 \<Rightarrow> bytes" where
  "hello_wire hello = header_wire (HelloHeader (hello_Sequence hello))
     @ le_bytes 8 (hello_DeviceID hello)
     @ le_bytes 2 (hello_VendorID hello) @ le_bytes 2 (hello_ProductID hello)
     @ le_bytes 2 (fw_Major (hello_Firmware hello)) @ le_bytes 2 (fw_Minor (hello_Firmware hello))
     @ le_bytes 2 (fw_Build (hello_Firmware hello))
     @ le_bytes 2 (fw_Revision (hello_Firmware hello))
     @ [hello_HardwareMajor hello, hello_HardwareMinor hello, 1, 0, 1, 0, 1, 0]"

lemma HelloHeader_iff:
  "(h_DataClass h \<noteq> DataClassCommand \<or> h_MessageNumber h \<noteq> 2 \<or> \<not> h_System h \<or>
    h_AcknowledgementRequested h \<or> h_ExpansionIndex h \<noteq> 0 \<or> h_PayloadLength h \<noteq> 28) \<longleftrightarrow>
   h \<noteq> HelloHeader (h_Sequence h)"
  by (cases h) (auto simp: HelloHeader_def)

lemma HelloHeader_Sequence: "h_Sequence (HelloHeader s) = s"
  by (simp add: HelloHeader_def)

lemma HelloHeader_valid: "SinglePacketHeader_Validate (HelloHeader s) = None \<longleftrightarrow> s \<noteq> 0"
  by (simp add: SinglePacketHeader_Validate_def HelloHeader_def)

lemma hello_exact:
  "DecodeHelloMessage w = Inr hello \<longleftrightarrow> Hello_validate hello = None \<and> w = hello_wire hello"
proof (cases "length w = 32")
  case True
  then have len: "length (drop 24 w) = 8" by simp
  then obtain x0 x1 x2 x3 x4 x5 x6 x7 where tail: "drop 24 w = [x0, x1, x2, x3, x4, x5, x6, x7]"
    by (auto simp: numeral_eq_Suc length_Suc_conv simp del: length_drop)
  have "w ! (24 + k) = drop 24 w ! k" for k using True by simp
  from this [of 0] this [of 1] this [of 2] this [of 3] this [of 4] this [of 5] this [of 6]
    this [of 7]
  have nths: "w ! 24 = x0" "w ! 25 = x1" "w ! 26 = x2" "w ! 27 = x3" "w ! 28 = x4"
    "w ! 29 = x5" "w ! 30 = x6" "w ! 31 = x7"
    unfolding tail by simp_all
  define mk where "mk = (\<lambda>s. \<lparr> hello_Sequence = s,
                     hello_DeviceID = le_word (slice w 4 12),
                     hello_VendorID = le_word (slice w 12 14),
                     hello_ProductID = le_word (slice w 14 16),
                     hello_Firmware = \<lparr> fw_Major = le_word (slice w 16 18),
                       fw_Minor = le_word (slice w 18 20),
                       fw_Build = le_word (slice w 20 22),
                       fw_Revision = le_word (slice w 22 24) \<rparr>,
                     hello_HardwareMajor = x0, hello_HardwareMinor = x1 \<rparr>)"
  have mk_Sequence: "hello_Sequence (mk s) = s" for s by (simp add: mk_def)
  have "DecodeHelloMessage w = Inr hello \<longleftrightarrow> (\<exists>h. DecodeSinglePacketHeader (slice w 0 4) = Inr h \<and>
      h = HelloHeader (h_Sequence h) \<and> hello = mk (h_Sequence h)) \<and>
      Hello_validate hello = None \<and> [x2, x3, x4, x5, x6, x7] = [1, 0, 1, 0, 1, 0]"
    unfolding DecodeHelloMessage_def HelloHeader_iff nths Let_def mk_def
    using True by (cases "DecodeSinglePacketHeader (slice w 0 4)") (auto split: option.splits)
  also have "\<dots> \<longleftrightarrow> Hello_validate hello = None \<and>
      slice w 0 4 = header_wire (HelloHeader (hello_Sequence hello)) \<and>
      hello = mk (hello_Sequence hello) \<and> [x2, x3, x4, x5, x6, x7] = [1, 0, 1, 0, 1, 0]"
  proof -
    have "Hello_validate hello = None \<Longrightarrow> hello_Sequence hello \<noteq> 0"
      by (auto simp: Hello_validate_def)
    moreover have "(\<exists>h. DecodeSinglePacketHeader (slice w 0 4) = Inr h \<and>
        h = HelloHeader (h_Sequence h) \<and> hello = mk (h_Sequence h)) \<longleftrightarrow>
        DecodeSinglePacketHeader (slice w 0 4) = Inr (HelloHeader (hello_Sequence hello)) \<and>
        hello = mk (hello_Sequence hello)"
      using mk_Sequence HelloHeader_Sequence by metis
    ultimately show ?thesis
      unfolding gip_header.dec_exact HelloHeader_valid by blast
  qed
  also have "\<dots> \<longleftrightarrow> Hello_validate hello = None \<and> w = hello_wire hello"
  proof -
    have "w = hello_wire hello \<longleftrightarrow> slice w 0 4 = header_wire (HelloHeader (hello_Sequence hello)) \<and>
      hello_DeviceID hello = le_word (slice w 4 12) \<and>
      hello_VendorID hello = le_word (slice w 12 14) \<and>
      hello_ProductID hello = le_word (slice w 14 16) \<and>
      fw_Major (hello_Firmware hello) = le_word (slice w 16 18) \<and>
      fw_Minor (hello_Firmware hello) = le_word (slice w 18 20) \<and>
      fw_Build (hello_Firmware hello) = le_word (slice w 20 22) \<and>
      fw_Revision (hello_Firmware hello) = le_word (slice w 22 24) \<and>
      drop 24 w = [hello_HardwareMajor hello, hello_HardwareMinor hello, 1, 0, 1, 0, 1, 0]"
      unfolding hello_wire_def using True
      by (simp add: split_at [of 4] le_field_iff slice_drop)
    also have "\<dots> \<longleftrightarrow> slice w 0 4 = header_wire (HelloHeader (hello_Sequence hello)) \<and>
      hello = mk (hello_Sequence hello) \<and> [x2, x3, x4, x5, x6, x7] = [1, 0, 1, 0, 1, 0]"
      unfolding tail mk_def by (cases hello; cases "hello_Firmware hello") auto
    finally show ?thesis by blast
  qed
  finally show ?thesis .
next
  case False
  moreover have "length (hello_wire hello) = 32" by (simp add: hello_wire_def)
  ultimately show ?thesis by (auto simp: DecodeHelloMessage_def)
qed

text \<open>What a validated profile sends as Hello.\<close>

lemma hello_encode:
  "EncodeHelloMessageInto profile dst s =
     (if length dst \<noteq> 32 then (Some ErrInvalidLength, dst)
      else case profile_validate profile of
        Some e \<Rightarrow> (Some e, dst)
      | None \<Rightarrow> if s = 0 then (Some ErrReservedSequence, dst)
          else (None, hello_wire (hello_of profile s)))"
proof -
  have "profile_validate profile = None \<Longrightarrow>
      Hello_validate (hello_of profile s) = (if s = 0 then Some ErrReservedSequence else None)"
    by (auto simp: profile_validate_def ControllerIdentity_Validate_def Hello_validate_def
        hello_of_def Let_def split: if_splits option.splits)
  moreover have "hello_Sequence (hello_of profile s) = s" by (simp add: hello_of_def Let_def)
  ultimately show ?thesis
    using HelloHeader_valid [of s]
    by (auto simp: EncodeHelloMessageInto_def gip_header.enc_eq hello_wire_def Let_def
        copy_into_full split: option.splits)
qed

end
