(* ===== verification/Gip_Commands.thy ===== *)
theory Gip_Commands
  imports Gip_Header
begin

text \<open>
  The messages the host sends to the Xbox One controller (\<^verbatim>\<open>src/device/xboxone/\<close>): Direct
  Motor (\<^verbatim>\<open>rumble_body.go\<close>), Guide LED (\<^verbatim>\<open>guide_led.go\<close>) and Protocol Control ACK
  (\<^verbatim>\<open>protocol_control.go\<close>), each an \<open>exact_codec\<close>.
\<close>

unbundle bit_operations_syntax

section \<open>Direct Motor\<close>

record RumbleBodyV1 =
  rb_Enabled :: u8
  rb_LeftImpulse :: u8
  rb_RightImpulse :: u8
  rb_LeftVibration :: u8
  rb_RightVibration :: u8
  rb_Duration :: u8
  rb_Delay :: u8
  rb_Repeat :: u8

abbreviation (input) MotorAll :: u8 where "MotorAll \<equiv> 0x0f"
abbreviation (input) DirectMotorMaximumLevel :: u8 where "DirectMotorMaximumLevel \<equiv> 100"
abbreviation (input) DirectMotorCommandValue :: u8 where "DirectMotorCommandValue \<equiv> 0"

definition RumbleBody_Validate :: "RumbleBodyV1 \<Rightarrow> gip_error option" where
  "RumbleBody_Validate body =
     (if rb_Enabled body AND NOT MotorAll \<noteq> 0 then Some ErrInvalidMotorMask
      else if list_ex (\<lambda>level. level > DirectMotorMaximumLevel)
        [rb_LeftImpulse body, rb_RightImpulse body, rb_LeftVibration body, rb_RightVibration body]
      then Some ErrMotorLevelOutOfRange
      else None)"

definition IsCancellation :: "RumbleBodyV1 \<Rightarrow> bool" where
  "IsCancellation body \<longleftrightarrow> RumbleBody_Validate body = None \<and> rb_Duration body = 0"

definition IsCanonicalImmediateStop :: "RumbleBodyV1 \<Rightarrow> bool" where
  "IsCanonicalImmediateStop body \<longleftrightarrow>
     IsCancellation body \<and> rb_Delay body = 0 \<and> rb_Repeat body = 0"

definition NewStopRumbleBody :: RumbleBodyV1 where
  "NewStopRumbleBody = \<lparr> rb_Enabled = 0, rb_LeftImpulse = 0, rb_RightImpulse = 0,
     rb_LeftVibration = 0, rb_RightVibration = 0, rb_Duration = 0, rb_Delay = 0, rb_Repeat = 0 \<rparr>"

definition EncodeRumbleBodyInto :: "bytes \<Rightarrow> RumbleBodyV1 \<Rightarrow> gip_error option \<times> bytes" where
  "EncodeRumbleBodyInto dst body =
     (if length dst \<noteq> 9 then (Some ErrInvalidLength, dst)
      else case RumbleBody_Validate body of
        Some e \<Rightarrow> (Some e, dst)
      | None \<Rightarrow> (None, dst[0 := DirectMotorCommandValue, 1 := rb_Enabled body,
          2 := rb_LeftImpulse body, 3 := rb_RightImpulse body, 4 := rb_LeftVibration body,
          5 := rb_RightVibration body, 6 := rb_Duration body, 7 := rb_Delay body,
          8 := rb_Repeat body]))"

definition DecodeRumbleBody :: "bytes \<Rightarrow> gip_error + RumbleBodyV1" where
  "DecodeRumbleBody src =
     (if length src \<noteq> 9 then Inl ErrInvalidLength
      else if src ! 0 \<noteq> DirectMotorCommandValue then Inl ErrInvalidDirectMotorCommand
      else let body = \<lparr> rb_Enabled = src ! 1, rb_LeftImpulse = src ! 2, rb_RightImpulse = src ! 3,
                 rb_LeftVibration = src ! 4, rb_RightVibration = src ! 5, rb_Duration = src ! 6,
                 rb_Delay = src ! 7, rb_Repeat = src ! 8 \<rparr> in
        case RumbleBody_Validate body of
          Some e \<Rightarrow> Inl e
        | None \<Rightarrow> Inr body)"

definition DirectMotorHeader :: "u8 \<Rightarrow> SinglePacketHeader" where
  "DirectMotorHeader s =
     \<lparr> h_DataClass = DataClassCommand, h_MessageNumber = 9, h_System = False,
       h_AcknowledgementRequested = False, h_ExpansionIndex = 0,
       h_Sequence = s, h_PayloadLength = 9 \<rparr>"

definition EncodeDirectMotorMessageInto ::
    "bytes \<Rightarrow> u8 \<Rightarrow> RumbleBodyV1 \<Rightarrow> gip_error option \<times> bytes" where
  "EncodeDirectMotorMessageInto dst s body =
     (if length dst \<noteq> 13 then (Some ErrInvalidLength, dst)
      else case RumbleBody_Validate body of
        Some e \<Rightarrow> (Some e, dst)
      | None \<Rightarrow> (case EncodeSinglePacketHeaderInto (zeros 4) (DirectMotorHeader s) of
          (Some e, _) \<Rightarrow> (Some e, dst)
        | (None, hw) \<Rightarrow> (case EncodeRumbleBodyInto (zeros 9) body of
            (Some e, _) \<Rightarrow> (Some e, dst)
          | (None, bw) \<Rightarrow> (None, copy_into dst (hw @ bw)))))"

definition DecodeDirectMotorMessage :: "bytes \<Rightarrow> gip_error + u8 \<times> RumbleBodyV1" where
  "DecodeDirectMotorMessage wire =
     (if length wire \<noteq> 13 then Inl ErrInvalidLength
      else case DecodeSinglePacketHeader (slice wire 0 4) of
        Inl e \<Rightarrow> Inl e
      | Inr h \<Rightarrow>
          if h_DataClass h \<noteq> DataClassCommand \<or> h_MessageNumber h \<noteq> 9 \<or> h_System h \<or>
             h_AcknowledgementRequested h \<or> h_ExpansionIndex h \<noteq> 0 \<or> h_PayloadLength h \<noteq> 9
          then Inl ErrInvalidDirectMotorMessage
          else (case DecodeRumbleBody (drop 4 wire) of
            Inl e \<Rightarrow> Inl e
          | Inr body \<Rightarrow> Inr (h_Sequence h, body)))"

section \<open>Guide LED\<close>

record GuideLEDCommandV1 =
  led_Pattern :: u8
  led_Intensity :: u8

definition GuideLEDPattern_valid :: "u8 \<Rightarrow> bool" where
  "GuideLEDPattern_valid p \<longleftrightarrow> p \<in> {0x00, 0x01, 0x02, 0x03, 0x04, 0x0d}"

definition GuideLEDCommand_Validate :: "GuideLEDCommandV1 \<Rightarrow> gip_error option" where
  "GuideLEDCommand_Validate command =
     (if \<not> GuideLEDPattern_valid (led_Pattern command) then Some ErrReservedGuideLEDPattern
      else if led_Intensity command > 47 then Some ErrGuideLEDIntensityOutOfRange
      else None)"

definition EncodeGuideLEDCommandBodyInto ::
    "bytes \<Rightarrow> GuideLEDCommandV1 \<Rightarrow> gip_error option \<times> bytes" where
  "EncodeGuideLEDCommandBodyInto dst command =
     (if length dst \<noteq> 3 then (Some ErrInvalidLength, dst)
      else case GuideLEDCommand_Validate command of
        Some e \<Rightarrow> (Some e, dst)
      | None \<Rightarrow> (None, dst[0 := 0, 1 := led_Pattern command, 2 := led_Intensity command]))"

definition DecodeGuideLEDCommandBody :: "bytes \<Rightarrow> gip_error + GuideLEDCommandV1" where
  "DecodeGuideLEDCommandBody src =
     (if length src \<noteq> 3 then Inl ErrInvalidLength
      else if src ! 0 \<noteq> 0 then Inl ErrInvalidGuideLEDCommand
      else let command = \<lparr> led_Pattern = src ! 1, led_Intensity = src ! 2 \<rparr> in
        case GuideLEDCommand_Validate command of
          Some e \<Rightarrow> Inl e
        | None \<Rightarrow> Inr command)"

definition GuideLEDCommandHeader :: "u8 \<Rightarrow> SinglePacketHeader" where
  "GuideLEDCommandHeader s =
     \<lparr> h_DataClass = DataClassCommand, h_MessageNumber = 10, h_System = True,
       h_AcknowledgementRequested = False, h_ExpansionIndex = 0,
       h_Sequence = s, h_PayloadLength = 3 \<rparr>"

definition EncodeGuideLEDCommandMessageInto ::
    "bytes \<Rightarrow> u8 \<Rightarrow> GuideLEDCommandV1 \<Rightarrow> gip_error option \<times> bytes" where
  "EncodeGuideLEDCommandMessageInto dst s command =
     (if length dst \<noteq> 7 then (Some ErrInvalidLength, dst)
      else case GuideLEDCommand_Validate command of
        Some e \<Rightarrow> (Some e, dst)
      | None \<Rightarrow> (case EncodeSinglePacketHeaderInto (zeros 4) (GuideLEDCommandHeader s) of
          (Some e, _) \<Rightarrow> (Some e, dst)
        | (None, hw) \<Rightarrow> (case EncodeGuideLEDCommandBodyInto (zeros 3) command of
            (Some e, _) \<Rightarrow> (Some e, dst)
          | (None, bw) \<Rightarrow> (None, copy_into dst (hw @ bw)))))"

definition DecodeGuideLEDCommandMessage :: "bytes \<Rightarrow> gip_error + u8 \<times> GuideLEDCommandV1" where
  "DecodeGuideLEDCommandMessage wire =
     (if length wire \<noteq> 7 then Inl ErrInvalidLength
      else case DecodeSinglePacketHeader (slice wire 0 4) of
        Inl e \<Rightarrow> Inl e
      | Inr h \<Rightarrow>
          if h_DataClass h \<noteq> DataClassCommand \<or> h_MessageNumber h \<noteq> 10 \<or> \<not> h_System h \<or>
             h_AcknowledgementRequested h \<or> h_ExpansionIndex h \<noteq> 0 \<or> h_PayloadLength h \<noteq> 3
          then Inl ErrInvalidGuideLEDMessage
          else (case DecodeGuideLEDCommandBody (drop 4 wire) of
            Inl e \<Rightarrow> Inl e
          | Inr command \<Rightarrow> Inr (h_Sequence h, command)))"

section \<open>Protocol Control ACK\<close>

record ProtocolControlACKBodyV1 =
  ack_DataClass :: u8
  ack_MessageNumber :: u8
  ack_System :: bool
  ack_ExpansionIndex :: u8
  ack_FragmentOffset :: u32
  ack_RemainingBuffer :: u16

definition ACKBody_Validate :: "ProtocolControlACKBodyV1 \<Rightarrow> gip_error option" where
  "ACKBody_Validate body =
     (if ack_DataClass body > DataClassAudio then Some ErrReservedDataClass
      else if ack_MessageNumber body > 0x1f then Some ErrInvalidMessageNumber
      else if ack_ExpansionIndex body > flagExpansion then Some ErrInvalidExpansionIndex
      else None)"

definition referencedMessageType :: "ProtocolControlACKBodyV1 \<Rightarrow> u8" where
  "referencedMessageType body = push_bit 5 (ack_DataClass body) OR ack_MessageNumber body"

definition referencedFlags :: "ProtocolControlACKBodyV1 \<Rightarrow> u8" where
  "referencedFlags body =
     (if ack_System body then ack_ExpansionIndex body OR flagSystem
      else ack_ExpansionIndex body)"

definition EncodeProtocolControlACKBodyInto ::
    "bytes \<Rightarrow> ProtocolControlACKBodyV1 \<Rightarrow> gip_error option \<times> bytes" where
  "EncodeProtocolControlACKBodyInto dst body =
     (if length dst \<noteq> 9 then (Some ErrInvalidLength, dst)
      else case ACKBody_Validate body of
        Some e \<Rightarrow> (Some e, dst)
      | None \<Rightarrow> (None, [0, referencedMessageType body, referencedFlags body]
          @ le_bytes 4 (ack_FragmentOffset body) @ le_bytes 2 (ack_RemainingBuffer body)))"

definition DecodeProtocolControlACKBody :: "bytes \<Rightarrow> gip_error + ProtocolControlACKBodyV1" where
  "DecodeProtocolControlACKBody src =
     (if length src \<noteq> 9 then Inl ErrInvalidLength
      else if src ! 0 \<noteq> 0 then Inl ErrUnsupportedProtocolControlCode
      else if src ! 2 AND NOT (flagSystem OR flagExpansion) \<noteq> 0
      then Inl ErrInvalidProtocolControlReferenceFlags
      else let body = \<lparr> ack_DataClass = drop_bit 5 (src ! 1),
                 ack_MessageNumber = src ! 1 AND 0x1f,
                 ack_System = (src ! 2 AND flagSystem \<noteq> 0),
                 ack_ExpansionIndex = src ! 2 AND flagExpansion,
                 ack_FragmentOffset = le_word (slice src 3 7),
                 ack_RemainingBuffer = le_word (slice src 7 9) \<rparr> in
        case ACKBody_Validate body of
          Some e \<Rightarrow> Inl e
        | None \<Rightarrow> Inr body)"

definition ProtocolControlACKHeader :: "u8 \<Rightarrow> SinglePacketHeader" where
  "ProtocolControlACKHeader s =
     \<lparr> h_DataClass = DataClassCommand, h_MessageNumber = 1, h_System = True,
       h_AcknowledgementRequested = False, h_ExpansionIndex = 0,
       h_Sequence = s, h_PayloadLength = 9 \<rparr>"

definition EncodeProtocolControlACKMessageInto ::
    "bytes \<Rightarrow> u8 \<Rightarrow> ProtocolControlACKBodyV1 \<Rightarrow> gip_error option \<times> bytes" where
  "EncodeProtocolControlACKMessageInto dst s body =
     (if length dst \<noteq> 13 then (Some ErrInvalidLength, dst)
      else case ACKBody_Validate body of
        Some e \<Rightarrow> (Some e, dst)
      | None \<Rightarrow> (case EncodeSinglePacketHeaderInto (zeros 4) (ProtocolControlACKHeader s) of
          (Some e, _) \<Rightarrow> (Some e, dst)
        | (None, hw) \<Rightarrow> (case EncodeProtocolControlACKBodyInto (zeros 9) body of
            (Some e, _) \<Rightarrow> (Some e, dst)
          | (None, bw) \<Rightarrow> (None, copy_into dst (hw @ bw)))))"

definition DecodeProtocolControlACKMessage ::
    "bytes \<Rightarrow> gip_error + u8 \<times> ProtocolControlACKBodyV1" where
  "DecodeProtocolControlACKMessage wire =
     (if length wire \<noteq> 13 then Inl ErrInvalidLength
      else case DecodeSinglePacketHeader (slice wire 0 4) of
        Inl e \<Rightarrow> Inl e
      | Inr h \<Rightarrow>
          if h_DataClass h \<noteq> DataClassCommand \<or> h_MessageNumber h \<noteq> 1 \<or> \<not> h_System h \<or>
             h_AcknowledgementRequested h \<or> h_ExpansionIndex h \<noteq> 0 \<or> h_PayloadLength h \<noteq> 9
          then Inl ErrInvalidProtocolControlMessage
          else (case DecodeProtocolControlACKBody (drop 4 wire) of
            Inl e \<Rightarrow> Inl e
          | Inr body \<Rightarrow> Inr (h_Sequence h, body)))"

section \<open>The codecs are exact\<close>

definition rumble_wire :: "RumbleBodyV1 \<Rightarrow> bytes" where
  "rumble_wire b = [0, rb_Enabled b, rb_LeftImpulse b, rb_RightImpulse b, rb_LeftVibration b,
     rb_RightVibration b, rb_Duration b, rb_Delay b, rb_Repeat b]"

definition led_wire :: "GuideLEDCommandV1 \<Rightarrow> bytes" where
  "led_wire c = [0, led_Pattern c, led_Intensity c]"

definition ack_wire :: "ProtocolControlACKBodyV1 \<Rightarrow> bytes" where
  "ack_wire b = [0, referencedMessageType b, referencedFlags b]
     @ le_bytes 4 (ack_FragmentOffset b) @ le_bytes 2 (ack_RemainingBuffer b)"

lemma length_9_cases:
  "length w = 9 \<Longrightarrow>
   (\<And>a b c d e f g h i. w = [a, b, c, d, e, f, g, h, i] \<Longrightarrow> P) \<Longrightarrow> P"
  by (auto simp: numeral_eq_Suc length_Suc_conv)

lemma length_3_cases: "length w = 3 \<Longrightarrow> (\<And>a b c. w = [a, b, c] \<Longrightarrow> P) \<Longrightarrow> P"
  by (auto simp: numeral_eq_Suc length_Suc_conv)

interpretation rumble_body: exact_codec EncodeRumbleBodyInto DecodeRumbleBody 9
  RumbleBody_Validate rumble_wire
proof
  show "EncodeRumbleBodyInto dst v =
      (if length dst \<noteq> 9 then (Some ErrInvalidLength, dst)
       else case RumbleBody_Validate v of
         Some e \<Rightarrow> (Some e, dst) | None \<Rightarrow> (None, rumble_wire v))" for dst v
    by (auto simp: EncodeRumbleBodyInto_def rumble_wire_def
        split: option.splits elim!: length_9_cases)
  show "DecodeRumbleBody w = Inr v \<longleftrightarrow> RumbleBody_Validate v = None \<and> w = rumble_wire v" for w v
  proof (cases "length w = 9")
    case True
    then obtain a b c d e f g h i where "w = [a, b, c, d, e, f, g, h, i]" by (rule length_9_cases)
    then show ?thesis
      by (cases v) (auto simp: DecodeRumbleBody_def rumble_wire_def Let_def split: option.splits)
  next
    case False
    then show ?thesis by (auto simp: DecodeRumbleBody_def rumble_wire_def)
  qed
qed (simp add: rumble_wire_def)

interpretation led_body: exact_codec EncodeGuideLEDCommandBodyInto DecodeGuideLEDCommandBody 3
  GuideLEDCommand_Validate led_wire
proof
  show "EncodeGuideLEDCommandBodyInto dst v =
      (if length dst \<noteq> 3 then (Some ErrInvalidLength, dst)
       else case GuideLEDCommand_Validate v of
         Some e \<Rightarrow> (Some e, dst) | None \<Rightarrow> (None, led_wire v))" for dst v
    by (auto simp: EncodeGuideLEDCommandBodyInto_def led_wire_def
        split: option.splits elim!: length_3_cases)
  show "DecodeGuideLEDCommandBody w = Inr v \<longleftrightarrow>
      GuideLEDCommand_Validate v = None \<and> w = led_wire v" for w v
  proof (cases "length w = 3")
    case True
    then obtain a b c where "w = [a, b, c]" by (rule length_3_cases)
    then show ?thesis
      by (cases v) (auto simp: DecodeGuideLEDCommandBody_def led_wire_def Let_def
          split: option.splits)
  next
    case False
    then show ?thesis by (auto simp: DecodeGuideLEDCommandBody_def led_wire_def)
  qed
qed (simp add: led_wire_def)

lemma reference_flags_byte:
  fixes b x :: u8
  assumes "x \<le> 7"
  shows "b = (if s then x OR flagSystem else x) \<longleftrightarrow>
    b AND NOT (flagSystem OR flagExpansion) = 0 \<and> s = (b AND flagSystem \<noteq> 0) \<and>
    x = b AND flagExpansion"
proof -
  have "bit (flagSystem OR flagExpansion) n \<longleftrightarrow> n < 3 \<or> n = 5" for n
  proof -
    have flags: "flagSystem = 2 ^ 5" "flagExpansion = mask 3"
      by (simp_all add: mask_eq_exp_minus_1)
    show ?thesis unfolding flags bit_or_iff bit_exp_iff bit_mask_iff by auto
  qed
  then have "b AND NOT (flagSystem OR flagExpansion) = 0 \<longleftrightarrow>
      \<not> bit b 3 \<and> \<not> bit b 4 \<and> \<not> bit b 6 \<and> \<not> bit b 7"
    unfolding byte_eq_bits by (simp only: bit_and_iff bit_not_iff) simp
  then show ?thesis
    using flags_byte [OF assms, of b s False] unfolding and_flag_bits by (cases s) auto
qed

lemma ack_valid_bounds:
  "ACKBody_Validate b = None \<longleftrightarrow>
     ack_DataClass b \<le> 3 \<and> ack_MessageNumber b \<le> 31 \<and> ack_ExpansionIndex b \<le> 7"
  by (auto simp: ACKBody_Validate_def)

lemma ack_exact:
  "DecodeProtocolControlACKBody w = Inr body \<longleftrightarrow>
     ACKBody_Validate body = None \<and> w = ack_wire body"
proof (cases "length w = 9")
  case True
  then have "length (drop 3 w) = 6" "length (take 3 w) = 3" by simp_all
  moreover from this obtain c t f where "take 3 w = [c, t, f]" using length_3_cases by blast
  ultimately obtain r where w: "w = c # t # f # r" "length r = 6"
    by (metis append_Cons append_Nil append_take_drop_id)
  define mk where "mk = \<lparr> ack_DataClass = drop_bit 5 t, ack_MessageNumber = t AND 0x1f,
      ack_System = (f AND flagSystem \<noteq> 0), ack_ExpansionIndex = f AND flagExpansion,
      ack_FragmentOffset = le_word (slice r 0 4), ack_RemainingBuffer = le_word (slice r 4 6) \<rparr>"
  have "DecodeProtocolControlACKBody w = Inr body \<longleftrightarrow> ACKBody_Validate body = None \<and>
      c = 0 \<and> f AND NOT (flagSystem OR flagExpansion) = 0 \<and> body = mk"
    unfolding DecodeProtocolControlACKBody_def Let_def mk_def w(1)
    using w(2) by (auto split: option.splits simp del: not_None_eq)
  also have "\<dots> \<longleftrightarrow> ACKBody_Validate body = None \<and> w = ack_wire body"
  proof (rule conj_cong [OF refl])
    assume "ACKBody_Validate body = None"
    then have bounds: "ack_DataClass body \<le> 7" "ack_MessageNumber body \<le> 31"
      "ack_ExpansionIndex body \<le> 7"
      by (auto simp: ack_valid_bounds byte_bits)
    have "w = ack_wire body \<longleftrightarrow> c = 0 \<and> t = push_bit 5 (ack_DataClass body) OR ack_MessageNumber body \<and>
        f = (if ack_System body then ack_ExpansionIndex body OR flagSystem
             else ack_ExpansionIndex body) \<and>
        ack_FragmentOffset body = le_word (slice r 0 4) \<and>
        ack_RemainingBuffer body = le_word (slice r 4 6)"
      unfolding ack_wire_def referencedMessageType_def referencedFlags_def w(1)
      using w(2) by (simp add: le_field_iff le_field_end_iff slice_drop)
    also have "\<dots> \<longleftrightarrow> c = 0 \<and> f AND NOT (flagSystem OR flagExpansion) = 0 \<and> body = mk"
      unfolding class_number_byte [OF bounds(1,2)] reference_flags_byte [OF bounds(3)] mk_def
      by (cases body) auto
    finally show "c = 0 \<and> f AND NOT (flagSystem OR flagExpansion) = 0 \<and> body = mk \<longleftrightarrow>
        w = ack_wire body" by blast
  qed
  finally show ?thesis .
next
  case False
  then show ?thesis by (auto simp: DecodeProtocolControlACKBody_def ack_wire_def)
qed

interpretation ack_body: exact_codec EncodeProtocolControlACKBodyInto
  DecodeProtocolControlACKBody 9 ACKBody_Validate ack_wire
  by unfold_locales
    (auto simp: EncodeProtocolControlACKBodyInto_def ack_exact ack_wire_def split: option.splits)

lemma DirectMotorHeader_iff:
  "(h_DataClass h \<noteq> DataClassCommand \<or> h_MessageNumber h \<noteq> 9 \<or> h_System h \<or>
    h_AcknowledgementRequested h \<or> h_ExpansionIndex h \<noteq> 0 \<or> h_PayloadLength h \<noteq> 9) \<longleftrightarrow>
   h \<noteq> DirectMotorHeader (h_Sequence h)"
  by (cases h) (auto simp: DirectMotorHeader_def)

interpretation motor_message: framed_codec EncodeRumbleBodyInto DecodeRumbleBody
  9 RumbleBody_Validate rumble_wire DirectMotorHeader
  EncodeDirectMotorMessageInto DecodeDirectMotorMessage ErrInvalidDirectMotorMessage
  by unfold_locales (simp add: DirectMotorHeader_def,
    simp add: EncodeDirectMotorMessageInto_def,
    unfold DecodeDirectMotorMessage_def DirectMotorHeader_iff, simp)

lemma GuideLEDCommandHeader_iff:
  "(h_DataClass h \<noteq> DataClassCommand \<or> h_MessageNumber h \<noteq> 10 \<or> \<not> h_System h \<or>
    h_AcknowledgementRequested h \<or> h_ExpansionIndex h \<noteq> 0 \<or> h_PayloadLength h \<noteq> 3) \<longleftrightarrow>
   h \<noteq> GuideLEDCommandHeader (h_Sequence h)"
  by (cases h) (auto simp: GuideLEDCommandHeader_def)

interpretation led_message: framed_codec EncodeGuideLEDCommandBodyInto DecodeGuideLEDCommandBody
  3 GuideLEDCommand_Validate led_wire GuideLEDCommandHeader
  EncodeGuideLEDCommandMessageInto DecodeGuideLEDCommandMessage ErrInvalidGuideLEDMessage
  by unfold_locales (simp add: GuideLEDCommandHeader_def,
    simp add: EncodeGuideLEDCommandMessageInto_def,
    unfold DecodeGuideLEDCommandMessage_def GuideLEDCommandHeader_iff, simp)

lemma ProtocolControlACKHeader_iff:
  "(h_DataClass h \<noteq> DataClassCommand \<or> h_MessageNumber h \<noteq> 1 \<or> \<not> h_System h \<or>
    h_AcknowledgementRequested h \<or> h_ExpansionIndex h \<noteq> 0 \<or> h_PayloadLength h \<noteq> 9) \<longleftrightarrow>
   h \<noteq> ProtocolControlACKHeader (h_Sequence h)"
  by (cases h) (auto simp: ProtocolControlACKHeader_def)

interpretation ack_message: framed_codec EncodeProtocolControlACKBodyInto DecodeProtocolControlACKBody
  9 ACKBody_Validate ack_wire ProtocolControlACKHeader
  EncodeProtocolControlACKMessageInto DecodeProtocolControlACKMessage ErrInvalidProtocolControlMessage
  by unfold_locales (simp add: ProtocolControlACKHeader_def,
    simp add: EncodeProtocolControlACKMessageInto_def,
    unfold DecodeProtocolControlACKMessage_def ProtocolControlACKHeader_iff, simp)

end
