(* ===== verification/Gip_Wire.thy ===== *)
theory Gip_Wire
  imports Gip_Input Gip_Status Gip_Commands
begin

text \<open>
  The wire contract of all message codecs of the Xbox One controller together: encoders and
  decoders are inverse to each other on exactly the valid values, a rejected value leaves the
  destination alone, and the Hello message carries the identity of its profile.
\<close>

lemmas codec_inverse =
  gip_header.enc_dec gamepad_input.enc_dec [of _ "(s, v)" for s v, simplified]
  function_map.enc_dec [of _ "(s, v)" for s v, simplified]
  status_message.enc_dec [of _ "(s, v)" for s v, simplified]
  guide_message.enc_dec [of _ "(s, v)" for s v, simplified]
  motor_message.enc_dec [of _ "(s, v)" for s v, simplified]
  led_message.enc_dec [of _ "(s, v)" for s v, simplified]
  ack_message.enc_dec [of _ "(s, v)" for s v, simplified]

text \<open>C23: for the packet header and the seven message families, encoding a value into a
  destination succeeds with some bytes exactly when the destination has the message's length and
  decoding these bytes yields that value. So the decoders read back everything the encoders write,
  accept nothing else, and no two values share an encoding.\<close>

theorem gip_codecs_exact:
  "(EncodeSinglePacketHeaderInto dst h = (None, w) \<longleftrightarrow>
      length dst = 4 \<and> DecodeSinglePacketHeader w = Inr h) \<and>
   (EncodeGamepadInputMessageInto dst s report = (None, w) \<longleftrightarrow>
      length dst = 18 \<and> DecodeGamepadInputMessage w = Inr (s, report)) \<and>
   (EncodeConsoleFunctionMapGamepadInputMessageInto dst s report = (None, w) \<longleftrightarrow>
      length dst = 36 \<and> DecodeConsoleFunctionMapGamepadInputMessage w = Inr (s, report)) \<and>
   (EncodeExtendedStatusNoEventsMessageInto dst s status = (None, w) \<longleftrightarrow>
      length dst = 8 \<and> DecodeExtendedStatusNoEventsMessage w = Inr (s, status)) \<and>
   (EncodeGuideButtonStatusMessageInto dst s guide = (None, w) \<longleftrightarrow>
      length dst = 6 \<and> DecodeGuideButtonStatusMessage w = Inr (s, guide)) \<and>
   (EncodeDirectMotorMessageInto dst s motor = (None, w) \<longleftrightarrow>
      length dst = 13 \<and> DecodeDirectMotorMessage w = Inr (s, motor)) \<and>
   (EncodeGuideLEDCommandMessageInto dst s led = (None, w) \<longleftrightarrow>
      length dst = 7 \<and> DecodeGuideLEDCommandMessage w = Inr (s, led)) \<and>
   (EncodeProtocolControlACKMessageInto dst s ack = (None, w) \<longleftrightarrow>
      length dst = 13 \<and> DecodeProtocolControlACKMessage w = Inr (s, ack))"
  by (intro conjI codec_inverse)

text \<open>C38: an encoder that reports an error has not written its destination.\<close>

theorem gip_encoders_atomic:
  "(fst (EncodeSinglePacketHeaderInto dst h) = None \<or>
      snd (EncodeSinglePacketHeaderInto dst h) = dst) \<and>
   (fst (EncodeGamepadInputMessageInto dst s report) = None \<or>
      snd (EncodeGamepadInputMessageInto dst s report) = dst) \<and>
   (fst (EncodeConsoleFunctionMapGamepadInputMessageInto dst s report) = None \<or>
      snd (EncodeConsoleFunctionMapGamepadInputMessageInto dst s report) = dst) \<and>
   (fst (EncodeExtendedStatusNoEventsMessageInto dst s status) = None \<or>
      snd (EncodeExtendedStatusNoEventsMessageInto dst s status) = dst) \<and>
   (fst (EncodeGuideButtonStatusMessageInto dst s guide) = None \<or>
      snd (EncodeGuideButtonStatusMessageInto dst s guide) = dst) \<and>
   (fst (EncodeDirectMotorMessageInto dst s motor) = None \<or>
      snd (EncodeDirectMotorMessageInto dst s motor) = dst) \<and>
   (fst (EncodeGuideLEDCommandMessageInto dst s led) = None \<or>
      snd (EncodeGuideLEDCommandMessageInto dst s led) = dst) \<and>
   (fst (EncodeProtocolControlACKMessageInto dst s ack) = None \<or>
      snd (EncodeProtocolControlACKMessageInto dst s ack) = dst) \<and>
   (fst (EncodeHelloMessageInto profile dst s) = None \<or>
      snd (EncodeHelloMessageInto profile dst s) = dst)"
proof -
  have hello: "fst (EncodeHelloMessageInto profile dst s) = None \<or>
      snd (EncodeHelloMessageInto profile dst s) = dst"
    by (simp add: hello_encode split: option.splits)
  show ?thesis
    using gip_header.enc_atomic [of dst h] gamepad_input.enc_atomic [of dst "(s, report)"]
      function_map.enc_atomic [of dst "(s, report)"] status_message.enc_atomic [of dst "(s, status)"]
      guide_message.enc_atomic [of dst "(s, guide)"] motor_message.enc_atomic [of dst "(s, motor)"]
      led_message.enc_atomic [of dst "(s, led)"] ack_message.enc_atomic [of dst "(s, ack)"] hello
    by (simp add: prod_eq_iff) (metis not_None_eq)
qed

text \<open>A profile that passed construction sends, under every non-zero sequence number, a Hello
  that decodes to its own identity.\<close>

lemma hello_roundtrip:
  assumes "NewUnregisteredControllerProfile address identity usb = Inr profile" "s \<noteq> 0" "length dst = 32"
  shows "\<exists>w. EncodeHelloMessageInto profile dst s = (None, w) \<and>
    DecodeHelloMessage w = Inr (hello_of profile s) \<and>
    hello_DeviceID (hello_of profile s) = ci_DeviceID identity \<and>
    hello_VendorID (hello_of profile s) = ci_VendorID identity \<and>
    hello_ProductID (hello_of profile s) = ci_ProductID identity"
proof -
  have p: "prof_identity profile = identity" "profile_validate profile = None"
    using assms(1) by (auto simp: NewUnregisteredControllerProfile_def profile_validate_def
        split: option.splits)
  then have "Hello_validate (hello_of profile s) = None"
    using assms(2)
    by (auto simp: profile_validate_def ControllerIdentity_Validate_def Hello_validate_def
        hello_of_def Let_def split: if_splits option.splits)
  then show ?thesis
    using p assms(2,3) by (simp add: hello_encode hello_exact) (simp add: hello_of_def Let_def)
qed

end
