(* ===== verification/Gip_Downstream.thy ===== *)
theory Gip_Downstream
  imports Gip_Commands
begin

text \<open>
  What a controller data packet from the host means (\<^verbatim>\<open>src/device/xboxone/\<close>): the host
  commands (\<^verbatim>\<open>lifecycle.go\<close>), the classification of one message and the cutting of a
  packet into messages (\<^verbatim>\<open>downstream.go\<close>). The main result is that the packet decoder
  accepts exactly the nonempty concatenations of supported messages that fit a packet.
\<close>

section \<open>Host commands\<close>

abbreviation (input) messageNumberMetadataRequest :: u8 where "messageNumberMetadataRequest \<equiv> 4"
abbreviation (input) messageNumberSetDeviceState :: u8 where "messageNumberSetDeviceState \<equiv> 5"
abbreviation (input) messageNumberSecurityData :: u8 where "messageNumberSecurityData \<equiv> 6"

abbreviation (input) HostCommandMetadataRequest :: u8 where "HostCommandMetadataRequest \<equiv> 1"
abbreviation (input) HostCommandSetDeviceState :: u8 where "HostCommandSetDeviceState \<equiv> 2"
abbreviation (input) HostCommandExtendedInitialization :: u8 where
  "HostCommandExtendedInitialization \<equiv> 3"
abbreviation (input) HostCommandSecurityDataComplete :: u8 where
  "HostCommandSecurityDataComplete \<equiv> 4"

abbreviation (input) SetDeviceStateStart :: u8 where "SetDeviceStateStart \<equiv> 0"
abbreviation (input) SetDeviceStateStop :: u8 where "SetDeviceStateStop \<equiv> 1"
abbreviation (input) SetDeviceStateFullPower :: u8 where "SetDeviceStateFullPower \<equiv> 3"
abbreviation (input) SetDeviceStateOff :: u8 where "SetDeviceStateOff \<equiv> 4"
abbreviation (input) SetDeviceStateQuiesce :: u8 where "SetDeviceStateQuiesce \<equiv> 5"
abbreviation (input) SetDeviceStateReset :: u8 where "SetDeviceStateReset \<equiv> 7"

definition SetDeviceStateValue_validate :: "u8 \<Rightarrow> gip_error option" where
  "SetDeviceStateValue_validate state =
     (if state \<in> {SetDeviceStateStart, SetDeviceStateStop, SetDeviceStateFullPower,
        SetDeviceStateOff, SetDeviceStateQuiesce, SetDeviceStateReset}
      then None else Some ErrReservedDeviceState)"

record ControllerHostCommand =
  hc_Kind :: u8
  hc_Sequence :: u8
  hc_State :: u8

definition ControllerHostCommand_validate :: "ControllerHostCommand \<Rightarrow> gip_error option" where
  "ControllerHostCommand_validate command =
     (if hc_Sequence command = 0 then Some ErrReservedSequence
      else if hc_Kind command = HostCommandMetadataRequest then
        (if hc_Sequence command \<noteq> 1 then Some ErrUnsupportedHostCommand else None)
      else if hc_Kind command = HostCommandSetDeviceState then
        SetDeviceStateValue_validate (hc_State command)
      else if hc_Kind command = HostCommandExtendedInitialization then
        (if hc_State command \<noteq> 0 then Some ErrUnsupportedSetDeviceStateVariant else None)
      else if hc_Kind command = HostCommandSecurityDataComplete then
        (if hc_State command \<noteq> 0 then Some ErrUnsupportedHostCommand else None)
      else Some ErrUnsupportedHostCommand)"

definition isExtendedSetDeviceStateInitialization :: "bytes \<Rightarrow> bool" where
  "isExtendedSetDeviceStateInitialization payload \<longleftrightarrow>
     length payload = 15 \<and>
     (let expected = [0x06, 0x00, 0x00, 0x00, 0x00, 0x00, 0x00, 0x55,
        0x53, 0x00, 0x00, 0x00, 0x00, 0x00, 0x00] in
      list_all (\<lambda>index. payload ! index = expected ! index) [0..<15])"

definition isSecurityDataComplete :: "bytes \<Rightarrow> bool" where
  "isSecurityDataComplete payload \<longleftrightarrow>
     length payload = 2 \<and> payload ! 0 = 0x01 \<and> payload ! 1 = 0x00"

definition DecodeControllerHostCommand :: "bytes \<Rightarrow> gip_error + ControllerHostCommand" where
  "DecodeControllerHostCommand wire =
     (if length wire < 4 then Inl ErrInvalidLength
      else case DecodeSinglePacketHeader (slice wire 0 4) of
        Inl e \<Rightarrow> Inl e
      | Inr h \<Rightarrow>
          if length wire \<noteq> 4 + unat (h_PayloadLength h) then Inl ErrInvalidLength
          else if h_DataClass h \<noteq> DataClassCommand \<or> \<not> h_System h \<or>
            h_AcknowledgementRequested h \<or> h_ExpansionIndex h \<noteq> 0
          then Inl ErrUnsupportedHostCommand
          else
            let selected =
              (if h_MessageNumber h = messageNumberMetadataRequest then
                 if h_PayloadLength h \<noteq> 0 \<or> h_Sequence h \<noteq> 1 then Inl ErrUnsupportedHostCommand
                 else Inr \<lparr> hc_Kind = HostCommandMetadataRequest, hc_Sequence = h_Sequence h,
                        hc_State = 0 \<rparr>
               else if h_MessageNumber h = messageNumberSetDeviceState then
                 if h_PayloadLength h = 15 then
                   if \<not> isExtendedSetDeviceStateInitialization (drop 4 wire)
                   then Inl ErrUnsupportedSetDeviceStateVariant
                   else Inr \<lparr> hc_Kind = HostCommandExtendedInitialization,
                          hc_Sequence = h_Sequence h, hc_State = 0 \<rparr>
                 else if h_PayloadLength h \<noteq> 1 then Inl ErrUnsupportedHostCommand
                 else Inr \<lparr> hc_Kind = HostCommandSetDeviceState, hc_Sequence = h_Sequence h,
                        hc_State = wire ! 4 \<rparr>
               else if h_MessageNumber h = messageNumberSecurityData then
                 if h_PayloadLength h \<noteq> 2 \<or> \<not> isSecurityDataComplete (drop 4 wire)
                 then Inl ErrUnsupportedHostCommand
                 else Inr \<lparr> hc_Kind = HostCommandSecurityDataComplete,
                        hc_Sequence = h_Sequence h, hc_State = 0 \<rparr>
               else Inl ErrUnsupportedHostCommand)
            in case selected of
                 Inl e \<Rightarrow> Inl e
               | Inr command \<Rightarrow>
                   (case ControllerHostCommand_validate command of
                      Some e \<Rightarrow> Inl e
                    | None \<Rightarrow> Inr command))"

section \<open>Downstream messages and packets\<close>

text \<open>The source's struct has one field per kind of which only the one selected by
  \<^verbatim>\<open>Kind\<close> is meaningful; the model is the tagged union.\<close>

datatype ControllerDownstreamMessage =
    DownstreamLifecycle u8 ControllerHostCommand
  | DownstreamProtocolControlACK u8 ProtocolControlACKBodyV1
  | DownstreamDirectMotor u8 RumbleBodyV1
  | DownstreamGuideLED u8 GuideLEDCommandV1

definition DecodeControllerDownstreamMessage ::
    "bytes \<Rightarrow> gip_error + ControllerDownstreamMessage" where
  "DecodeControllerDownstreamMessage wire =
     (if length wire < 4 then Inl ErrInvalidLength
      else case DecodeSinglePacketHeader (slice wire 0 4) of
        Inl e \<Rightarrow> Inl e
      | Inr h \<Rightarrow>
          if length wire \<noteq> 4 + unat (h_PayloadLength h) then Inl ErrInvalidLength
          else if h_DataClass h = DataClassCommand \<and> h_System h \<and>
            (h_MessageNumber h = messageNumberMetadataRequest \<or>
             h_MessageNumber h = messageNumberSetDeviceState) then
            (case DecodeControllerHostCommand wire of
               Inl e \<Rightarrow> Inl e
             | Inr command \<Rightarrow> Inr (DownstreamLifecycle (hc_Sequence command) command))
          else if h_DataClass h = DataClassCommand \<and> h_System h \<and>
            h_MessageNumber h = messageNumberSecurityData then
            (case DecodeControllerHostCommand wire of
               Inl e \<Rightarrow> Inl ErrUnsupportedControllerPersonaHostMessage
             | Inr command \<Rightarrow> Inr (DownstreamLifecycle (hc_Sequence command) command))
          else if h_DataClass h = DataClassCommand \<and> h_System h \<and> h_MessageNumber h = 1 then
            (case DecodeProtocolControlACKMessage wire of
               Inl e \<Rightarrow> Inl e
             | Inr (s, body) \<Rightarrow> Inr (DownstreamProtocolControlACK s body))
          else if h_DataClass h = DataClassCommand \<and> \<not> h_System h \<and> h_MessageNumber h = 9 then
            (case DecodeDirectMotorMessage wire of
               Inl e \<Rightarrow> Inl e
             | Inr (s, body) \<Rightarrow> Inr (DownstreamDirectMotor s body))
          else if h_DataClass h = DataClassCommand \<and> h_System h \<and> h_MessageNumber h = 10 then
            (case DecodeGuideLEDCommandMessage wire of
               Inl e \<Rightarrow> Inl e
             | Inr (s, command) \<Rightarrow> Inr (DownstreamGuideLED s command))
          else Inl ErrUnsupportedControllerPersonaHostMessage)"

text \<open>The fixed array of sixteen slots and its length are the list of the filled slots.\<close>

function packet_loop ::
    "ControllerDownstreamMessage list \<Rightarrow> bytes \<Rightarrow> gip_error + ControllerDownstreamMessage list" where
  "packet_loop packet remaining =
     (if remaining = [] then Inr packet
      else if length remaining < 4 then Inl ErrInvalidLength
      else case DecodeSinglePacketHeader (slice remaining 0 4) of
        Inl e \<Rightarrow> Inl e
      | Inr h \<Rightarrow>
          let messageSize = 4 + unat (h_PayloadLength h) in
          if length remaining < messageSize then Inl ErrInvalidLength
          else case DecodeControllerDownstreamMessage (slice remaining 0 messageSize) of
            Inl e \<Rightarrow> Inl e
          | Inr message \<Rightarrow>
              if length packet \<ge> 16 then Inl ErrInvalidLength
              else packet_loop (packet @ [message]) (drop messageSize remaining))"
  by pat_completeness auto
termination packet_loop
  by (relation "measure (\<lambda>(packet, remaining). length remaining)") auto

declare packet_loop.simps [simp del]

definition DecodeControllerDownstreamPacket ::
    "bytes \<Rightarrow> gip_error + ControllerDownstreamMessage list" where
  "DecodeControllerDownstreamPacket wire =
     (if length wire = 0 \<or> length wire > 64 then Inl ErrInvalidLength
      else packet_loop [] wire)"

definition packet_Len :: "ControllerDownstreamMessage list option \<Rightarrow> nat" where
  "packet_Len packet = (case packet of None \<Rightarrow> 0 | Some ms \<Rightarrow> length ms)"

definition packet_Message ::
    "ControllerDownstreamMessage list option \<Rightarrow> int \<Rightarrow> ControllerDownstreamMessage option" where
  "packet_Message packet index =
     (case packet of
        None \<Rightarrow> None
      | Some ms \<Rightarrow> if index < 0 \<or> index \<ge> int (length ms) then None else Some (ms ! nat index))"

section \<open>The decoders are exact\<close>

text \<open>The wire image of a host command.\<close>

definition host_header :: "ControllerHostCommand \<Rightarrow> SinglePacketHeader" where
  "host_header c =
     \<lparr> h_DataClass = DataClassCommand,
       h_MessageNumber =
         (if hc_Kind c = HostCommandMetadataRequest then messageNumberMetadataRequest
          else if hc_Kind c = HostCommandSecurityDataComplete then messageNumberSecurityData
          else messageNumberSetDeviceState),
       h_System = True, h_AcknowledgementRequested = False, h_ExpansionIndex = 0,
       h_Sequence = hc_Sequence c,
       h_PayloadLength =
         (if hc_Kind c = HostCommandMetadataRequest then 0
          else if hc_Kind c = HostCommandSetDeviceState then 1
          else if hc_Kind c = HostCommandSecurityDataComplete then 2 else 15) \<rparr>"

definition host_payload :: "ControllerHostCommand \<Rightarrow> bytes" where
  "host_payload c =
     (if hc_Kind c = HostCommandMetadataRequest then []
      else if hc_Kind c = HostCommandSetDeviceState then [hc_State c]
      else if hc_Kind c = HostCommandSecurityDataComplete then [1, 0]
      else [6, 0, 0, 0, 0, 0, 0, 0x55, 0x53, 0, 0, 0, 0, 0, 0])"

definition host_command_ok :: "ControllerHostCommand \<Rightarrow> bool" where
  "host_command_ok c \<longleftrightarrow> ControllerHostCommand_validate c = None \<and>
     (hc_Kind c = HostCommandMetadataRequest \<longrightarrow> hc_State c = 0)"

definition host_command_wire :: "ControllerHostCommand \<Rightarrow> bytes" where
  "host_command_wire c = header_wire (host_header c) @ host_payload c"

lemma extended_init_iff:
  "isExtendedSetDeviceStateInitialization p \<longleftrightarrow>
     p = [6, 0, 0, 0, 0, 0, 0, 0x55, 0x53, 0, 0, 0, 0, 0, 0]"
proof
  assume h: "isExtendedSetDeviceStateInitialization p"
  show "p = [6, 0, 0, 0, 0, 0, 0, 0x55, 0x53, 0, 0, 0, 0, 0, 0]"
  proof (rule nth_equalityI)
    show "length p = length [6, 0, 0, 0, 0, 0, 0, 0x55, 0x53, 0, 0, 0, 0, 0, 0::u8]"
      using h by (simp add: isExtendedSetDeviceStateInitialization_def)
  next
    fix i assume "i < length p"
    then have "i \<in> set [0..<15]"
      using h by (simp add: isExtendedSetDeviceStateInitialization_def)
    then show "p ! i = [6, 0, 0, 0, 0, 0, 0, 0x55, 0x53, 0, 0, 0, 0, 0, 0] ! i"
      using h unfolding isExtendedSetDeviceStateInitialization_def Let_def list_all_iff by blast
  qed
qed (simp add: isExtendedSetDeviceStateInitialization_def upt_rec)

lemma security_complete_iff: "isSecurityDataComplete p \<longleftrightarrow> p = [1, 0]"
  by (auto simp: isSecurityDataComplete_def numeral_2_eq_2 length_Suc_conv)

lemma host_header_valid:
  "ControllerHostCommand_validate c = None \<Longrightarrow> SinglePacketHeader_Validate (host_header c) = None"
  by (auto simp: ControllerHostCommand_validate_def host_header_def SinglePacketHeader_Validate_def
      split: if_splits)

lemma host_payload_length: "unat (h_PayloadLength (host_header c)) = length (host_payload c)"
  by (simp add: host_header_def host_payload_def)

lemma host_command_accepts:
  assumes "host_command_ok c"
  shows "DecodeControllerHostCommand (host_command_wire c) = Inr c"
proof -
  have valid: "ControllerHostCommand_validate c = None" using assms by (simp add: host_command_ok_def)
  have dec: "DecodeSinglePacketHeader (slice (host_command_wire c) 0 4) = Inr (host_header c)"
    using gip_header.dec_wire [OF host_header_valid [OF valid]] by (simp add: host_command_wire_def)
  have body: "drop 4 (host_command_wire c) = host_payload c"
    and len: "length (host_command_wire c) = 4 + length (host_payload c)"
    by (simp_all add: host_command_wire_def)
  have state: "hc_Kind c = HostCommandSetDeviceState \<Longrightarrow> host_command_wire c ! 4 = hc_State c"
    by (simp add: host_command_wire_def nth_append host_payload_def)
  have kinds: "hc_Kind c \<in> {1, 2, 3, 4}"
    using valid by (auto simp: ControllerHostCommand_validate_def split: if_splits)
  show ?thesis
    unfolding DecodeControllerHostCommand_def dec sum.case body len
    using kinds assms valid state
    by (cases c) (auto simp: host_command_ok_def ControllerHostCommand_validate_def
        host_header_def host_payload_def extended_init_iff security_complete_iff
        split: if_splits)
qed

lemma host_command_cases:
  assumes "DecodeControllerHostCommand w = Inr c"
  obtains h where "DecodeSinglePacketHeader (slice w 0 4) = Inr h" "4 \<le> length w"
    "host_command_ok c" "h = host_header c" "drop 4 w = host_payload c"
proof -
  obtain h where h: "DecodeSinglePacketHeader (slice w 0 4) = Inr h" and ge: "4 \<le> length w"
    using assms by (auto simp: DecodeControllerHostCommand_def split: if_splits sum.splits)
  have len: "length (drop 4 w) = unat (h_PayloadLength h)"
    and cls: "h_DataClass h = 0" "h_System h" "\<not> h_AcknowledgementRequested h"
      "h_ExpansionIndex h = 0"
    using assms ge unfolding DecodeControllerHostCommand_def h sum.case
    by (auto split: if_splits)
  have valid: "ControllerHostCommand_validate c = None"
    using assms ge unfolding DecodeControllerHostCommand_def h sum.case
    by (auto simp: Let_def split: if_splits sum.splits option.splits)
  have single: "drop 4 w = [w ! 4]" if "h_PayloadLength h = 1"
  proof -
    have "length (drop 4 w) = 1" using len that by simp
    then obtain x where x: "drop 4 w = [x]" by (metis One_nat_def length_0_conv length_Suc_conv)
    then have "w ! 4 = x" using ge nth_drop [of 4 w 0] by simp
    then show ?thesis using x by simp
  qed
  have fields: "hc_Sequence c = h_Sequence h \<and>
      (hc_Kind c = 1 \<and> h_MessageNumber h = 4 \<and> h_PayloadLength h = 0 \<and> hc_State c = 0 \<or>
       hc_Kind c = 3 \<and> h_MessageNumber h = 5 \<and> h_PayloadLength h = 15 \<and> hc_State c = 0 \<and>
         drop 4 w = [6, 0, 0, 0, 0, 0, 0, 0x55, 0x53, 0, 0, 0, 0, 0, 0] \<or>
       hc_Kind c = 2 \<and> h_MessageNumber h = 5 \<and> h_PayloadLength h = 1 \<and> hc_State c = w ! 4 \<or>
       hc_Kind c = 4 \<and> h_MessageNumber h = 6 \<and> h_PayloadLength h = 2 \<and> hc_State c = 0 \<and>
         drop 4 w = [1, 0])"
    using assms ge unfolding DecodeControllerHostCommand_def h sum.case
    by (auto simp: Let_def extended_init_iff security_complete_iff split: if_splits option.splits)
  have "h = host_header c" using fields cls by (cases h) (auto simp: host_header_def)
  moreover have "drop 4 w = host_payload c"
    using fields len single by (auto simp: host_payload_def)
  moreover have "host_command_ok c" using valid fields by (auto simp: host_command_ok_def)
  ultimately show ?thesis using that h ge by blast
qed

lemma host_command_exact:
  "DecodeControllerHostCommand w = Inr c \<longleftrightarrow> host_command_ok c \<and> w = host_command_wire c"
proof
  assume "DecodeControllerHostCommand w = Inr c"
  then obtain h where "DecodeSinglePacketHeader (slice w 0 4) = Inr h" "4 \<le> length w"
    "host_command_ok c" "h = host_header c" "drop 4 w = host_payload c"
    by (rule host_command_cases)
  then show "host_command_ok c \<and> w = host_command_wire c"
    by (simp add: gip_header.dec_exact host_command_wire_def split_at)
qed (use host_command_accepts in blast)

text \<open>The wire image of a downstream message and when the message is well formed.\<close>

fun downstream_ok :: "ControllerDownstreamMessage \<Rightarrow> bool" where
  "downstream_ok (DownstreamLifecycle s c) \<longleftrightarrow> host_command_ok c \<and> s = hc_Sequence c"
| "downstream_ok (DownstreamProtocolControlACK s b) \<longleftrightarrow> s \<noteq> 0 \<and> ACKBody_Validate b = None"
| "downstream_ok (DownstreamDirectMotor s b) \<longleftrightarrow> s \<noteq> 0 \<and> RumbleBody_Validate b = None"
| "downstream_ok (DownstreamGuideLED s c) \<longleftrightarrow> s \<noteq> 0 \<and> GuideLEDCommand_Validate c = None"

fun downstream_header :: "ControllerDownstreamMessage \<Rightarrow> SinglePacketHeader" where
  "downstream_header (DownstreamLifecycle s c) = host_header c"
| "downstream_header (DownstreamProtocolControlACK s b) = ProtocolControlACKHeader s"
| "downstream_header (DownstreamDirectMotor s b) = DirectMotorHeader s"
| "downstream_header (DownstreamGuideLED s c) = GuideLEDCommandHeader s"

fun downstream_payload :: "ControllerDownstreamMessage \<Rightarrow> bytes" where
  "downstream_payload (DownstreamLifecycle s c) = host_payload c"
| "downstream_payload (DownstreamProtocolControlACK s b) = ack_wire b"
| "downstream_payload (DownstreamDirectMotor s b) = rumble_wire b"
| "downstream_payload (DownstreamGuideLED s c) = led_wire c"

definition downstream_wire :: "ControllerDownstreamMessage \<Rightarrow> bytes" where
  "downstream_wire m = header_wire (downstream_header m) @ downstream_payload m"

lemma message_headers_valid:
  "SinglePacketHeader_Validate (ProtocolControlACKHeader s) = None \<longleftrightarrow> s \<noteq> 0"
  "SinglePacketHeader_Validate (DirectMotorHeader s) = None \<longleftrightarrow> s \<noteq> 0"
  "SinglePacketHeader_Validate (GuideLEDCommandHeader s) = None \<longleftrightarrow> s \<noteq> 0"
  by (auto simp: SinglePacketHeader_Validate_def ProtocolControlACKHeader_def DirectMotorHeader_def
      GuideLEDCommandHeader_def)

lemma message_decoders_exact:
  "DecodeProtocolControlACKMessage w = Inr (s, b) \<longleftrightarrow>
     downstream_ok (DownstreamProtocolControlACK s b) \<and>
     w = downstream_wire (DownstreamProtocolControlACK s b)"
  "DecodeDirectMotorMessage w = Inr (s, r) \<longleftrightarrow>
     downstream_ok (DownstreamDirectMotor s r) \<and> w = downstream_wire (DownstreamDirectMotor s r)"
  "DecodeGuideLEDCommandMessage w = Inr (s, l) \<longleftrightarrow>
     downstream_ok (DownstreamGuideLED s l) \<and> w = downstream_wire (DownstreamGuideLED s l)"
  unfolding ack_message.frame_dec motor_message.frame_dec led_message.frame_dec
  by (auto simp: ack_message.frame_val_def motor_message.frame_val_def led_message.frame_val_def
      ack_message.frame_wire_def motor_message.frame_wire_def led_message.frame_wire_def
      downstream_wire_def message_headers_valid split: option.splits)

lemma downstream_header_valid:
  "downstream_ok m \<Longrightarrow> SinglePacketHeader_Validate (downstream_header m) = None"
  by (cases m) (auto simp: message_headers_valid host_command_ok_def intro: host_header_valid)

lemma downstream_payload_length:
  "length (downstream_payload m) = unat (h_PayloadLength (downstream_header m))"
  by (cases m) (simp_all add: host_payload_length ack_wire_def rumble_wire_def led_wire_def
      ProtocolControlACKHeader_def DirectMotorHeader_def GuideLEDCommandHeader_def)

lemma downstream_decodes_header:
  "downstream_ok m \<Longrightarrow> DecodeSinglePacketHeader (slice (downstream_wire m @ rest) 0 4)
     = Inr (downstream_header m)"
  using gip_header.dec_wire [OF downstream_header_valid] by (simp add: downstream_wire_def)

lemma downstream_accepts:
  assumes "downstream_ok m"
  shows "DecodeControllerDownstreamMessage (downstream_wire m) = Inr m"
proof -
  have h: "DecodeSinglePacketHeader (slice (downstream_wire m) 0 4) = Inr (downstream_header m)"
    using downstream_decodes_header [OF assms, of "[]"] by simp
  have len: "length (downstream_wire m) = 4 + unat (h_PayloadLength (downstream_header m))"
    by (simp add: downstream_wire_def downstream_payload_length)
  show ?thesis
  proof (cases m)
    case (DownstreamLifecycle s c)
    have "hc_Kind c \<in> {1, 2, 3, 4}"
      using assms DownstreamLifecycle
      by (auto simp: host_command_ok_def ControllerHostCommand_validate_def split: if_splits)
    moreover have "DecodeControllerHostCommand (downstream_wire m) = Inr c"
      using assms DownstreamLifecycle host_command_accepts [of c]
      by (simp add: downstream_wire_def host_command_wire_def)
    ultimately show ?thesis
      unfolding DecodeControllerDownstreamMessage_def h sum.case
      using assms len DownstreamLifecycle by (auto simp: host_header_def)
  next
    case (DownstreamProtocolControlACK s b)
    then have "DecodeProtocolControlACKMessage (downstream_wire m) = Inr (s, b)"
      using assms by (simp add: message_decoders_exact)
    then show ?thesis
      unfolding DecodeControllerDownstreamMessage_def h sum.case
      using len DownstreamProtocolControlACK by (simp add: ProtocolControlACKHeader_def)
  next
    case (DownstreamDirectMotor s b)
    then have "DecodeDirectMotorMessage (downstream_wire m) = Inr (s, b)"
      using assms by (simp add: message_decoders_exact)
    then show ?thesis
      unfolding DecodeControllerDownstreamMessage_def h sum.case
      using len DownstreamDirectMotor by (simp add: DirectMotorHeader_def)
  next
    case (DownstreamGuideLED s c)
    then have "DecodeGuideLEDCommandMessage (downstream_wire m) = Inr (s, c)"
      using assms by (simp add: message_decoders_exact)
    then show ?thesis
      unfolding DecodeControllerDownstreamMessage_def h sum.case
      using len DownstreamGuideLED by (simp add: GuideLEDCommandHeader_def)
  qed
qed

lemma downstream_sound:
  assumes "DecodeControllerDownstreamMessage w = Inr m"
  shows "downstream_ok m \<and> w = downstream_wire m"
proof -
  obtain h where h: "DecodeSinglePacketHeader (slice w 0 4) = Inr h"
    using assms by (auto simp: DecodeControllerDownstreamMessage_def split: if_splits sum.splits)
  from assms consider
      c where "DecodeControllerHostCommand w = Inr c" "m = DownstreamLifecycle (hc_Sequence c) c"
    | s b where "DecodeProtocolControlACKMessage w = Inr (s, b)"
        "m = DownstreamProtocolControlACK s b"
    | s b where "DecodeDirectMotorMessage w = Inr (s, b)" "m = DownstreamDirectMotor s b"
    | s c where "DecodeGuideLEDCommandMessage w = Inr (s, c)" "m = DownstreamGuideLED s c"
    unfolding DecodeControllerDownstreamMessage_def h sum.case
    by (auto split: if_splits sum.splits prod.splits)
  then show ?thesis
  proof cases
    case 1
    then show ?thesis
      by (auto simp: host_command_exact downstream_wire_def host_command_wire_def)
  qed (simp_all only: message_decoders_exact simp_thms)
qed

lemma downstream_exact:
  "DecodeControllerDownstreamMessage w = Inr m \<longleftrightarrow> downstream_ok m \<and> w = downstream_wire m"
  using downstream_sound downstream_accepts by blast

section \<open>Cutting a packet into messages\<close>

lemma packet_loop_sound:
  "packet_loop ps w = Inr ms \<Longrightarrow>
     \<exists>ns. ms = ps @ ns \<and> list_all downstream_ok ns \<and> w = concat (map downstream_wire ns)"
proof (induction ps w rule: packet_loop.induct)
  case (1 ps w)
  show ?case
  proof (cases "w = []")
    case True
    then show ?thesis using 1(2) by (intro exI [of _ "[]"]) (simp add: packet_loop.simps)
  next
    case False
    obtain h where h: "\<not> length w < 4" "DecodeSinglePacketHeader (slice w 0 4) = Inr h"
      using 1(2) False by (auto simp: packet_loop.simps [of ps w] split: if_splits sum.splits)
    define n where "n = 4 + unat (h_PayloadLength h)"
    obtain m where m: "\<not> length w < n" "DecodeControllerDownstreamMessage (slice w 0 n) = Inr m"
        "\<not> 16 \<le> length ps" and rest: "packet_loop (ps @ [m]) (drop n w) = Inr ms"
      using 1(2) False h
      by (auto simp: packet_loop.simps [of ps w] Let_def n_def split: if_splits sum.splits)
    obtain ns where ns: "ms = (ps @ [m]) @ ns" "list_all downstream_ok ns"
        "drop n w = concat (map downstream_wire ns)"
      using 1(1) [OF False h n_def m rest] by blast
    have "w = downstream_wire m @ drop n w" "downstream_ok m"
      using downstream_sound [OF m(2)] append_take_drop_id [of n w] by (simp_all add: slice_def)
    then show ?thesis using ns by (intro exI [of _ "m # ns"]) simp
  qed
qed

lemma packet_loop_complete:
  assumes "list_all downstream_ok ns" "length ps + length ns \<le> 16"
  shows "packet_loop ps (concat (map downstream_wire ns)) = Inr (ps @ ns)"
  using assms
proof (induction ns arbitrary: ps)
  case Nil
  then show ?case by (simp add: packet_loop.simps)
next
  case (Cons m ns)
  let ?rest = "concat (map downstream_wire ns)"
  have ok: "downstream_ok m" using Cons.prems by simp
  have len: "length (downstream_wire m) = 4 + unat (h_PayloadLength (downstream_header m))"
    by (simp add: downstream_wire_def downstream_payload_length)
  then have "downstream_wire m \<noteq> []" by auto
  then show ?case
    using Cons.prems Cons.IH [of "ps @ [m]"] downstream_decodes_header [OF ok, of ?rest]
      downstream_accepts [OF ok] len
    by (simp add: packet_loop.simps [of ps "downstream_wire m @ _"] Let_def)
qed

lemma downstream_wire_min: "4 * length ns \<le> length (concat (map downstream_wire ns))"
  by (induction ns) (simp_all add: downstream_wire_def)

text \<open>C22: decoding a controller data packet succeeds with a list of messages exactly when the
  packet is the concatenation, in this order, of the wire images of these messages, there is at
  least one, each is a well-formed supported message, and the packet has at most 64 bytes. In
  particular a packet with one malformed, unsupported or truncated message yields no message at
  all, and the bound of sixteen slots is never the reason for a rejection.\<close>

theorem downstream_packet_exact:
  "DecodeControllerDownstreamPacket w = Inr ms \<longleftrightarrow>
     ms \<noteq> [] \<and> list_all downstream_ok ms \<and> w = concat (map downstream_wire ms) \<and> length w \<le> 64"
proof
  assume h: "DecodeControllerDownstreamPacket w = Inr ms"
  then have "packet_loop [] w = Inr ms" "w \<noteq> []" "length w \<le> 64"
    by (auto simp: DecodeControllerDownstreamPacket_def split: if_splits)
  then show "ms \<noteq> [] \<and> list_all downstream_ok ms \<and> w = concat (map downstream_wire ms) \<and>
      length w \<le> 64"
    using packet_loop_sound [of "[]" w ms] by auto
next
  assume h: "ms \<noteq> [] \<and> list_all downstream_ok ms \<and> w = concat (map downstream_wire ms) \<and>
      length w \<le> 64"
  then have "4 * length ms \<le> 64" using downstream_wire_min [of ms] le_trans by blast
  then have "length ms \<le> 16" by simp
  then have "packet_loop [] w = Inr ms" using h packet_loop_complete [of ms "[]"] by simp
  moreover have "\<not> (length w = 0 \<or> 64 < length w)"
  proof -
    have "0 < 4 * length ms" using h by simp
    also have "\<dots> \<le> length w" using h downstream_wire_min [of ms] by blast
    finally show ?thesis using h by linarith
  qed
  ultimately show "DecodeControllerDownstreamPacket w = Inr ms"
    unfolding DecodeControllerDownstreamPacket_def by (simp only: if_False)
qed

end
