(* ===== verification/Gip_Sequence.thy ===== *)
theory Gip_Sequence
  imports Go_Prelude
begin

text \<open>
  The sequence pools and the authentication boundary of the Xbox One controller
  (\<^verbatim>\<open>src/device/xboxone/session.go\<close>). A claim binds its counter by address: \<open>sc_self\<close> is the
  address of the counter, which its operations never change. The results are about runs of
  any operations with any claims, forged and stale ones included.
\<close>

unbundle bit_operations_syntax

section \<open>The counter\<close>

datatype session_error =
    ErrInvalidTransferGeneration
  | ErrSequenceClaimOutstanding | ErrSequenceRetryRequired | ErrInvalidSequenceClaim
  | ErrSequenceClaimNotAdmitted | ErrInvalidSequenceOutcome
  | ErrAuthenticationUnavailable | ErrInvalidAuthOutputLength

datatype SequenceOutcome =
  SequenceDelivered | SequenceDeferred | SequenceDeliveryFailed | SequenceOutcomeOther u8

record SequenceClaim =
  scl_owner :: "nat option"
  scl_token :: u64
  scl_generation :: u64
  scl_value :: u8

definition SequenceClaim_Valid :: "SequenceClaim \<Rightarrow> bool" where
  "SequenceClaim_Valid claim \<longleftrightarrow> scl_owner claim \<noteq> None \<and> scl_token claim \<noteq> 0"

record SequenceCounter =
  sc_self :: nat
  sc_last :: u8
  sc_generation :: u64
  sc_nextToken :: u64
  sc_hasClaim :: bool
  sc_claimAdmitted :: bool
  sc_claimToken :: u64
  sc_claimValue :: u8
  sc_retryPending :: bool
  sc_retryValue :: u8

definition zero_counter :: "nat \<Rightarrow> SequenceCounter" where
  "zero_counter self = \<lparr> sc_self = self, sc_last = 0, sc_generation = 0, sc_nextToken = 0,
     sc_hasClaim = False, sc_claimAdmitted = False, sc_claimToken = 0, sc_claimValue = 0,
     sc_retryPending = False, sc_retryValue = 0 \<rparr>"

definition effectiveGeneration :: "SequenceCounter \<Rightarrow> u64" where
  "effectiveGeneration c = (if sc_generation c = 0 then 1 else sc_generation c)"

definition LastCommitted :: "SequenceCounter \<Rightarrow> u8" where
  "LastCommitted c = sc_last c"

definition seq_nextClaimToken :: "SequenceCounter \<Rightarrow> u64 \<times> SequenceCounter" where
  "seq_nextClaimToken c =
     (let t = sc_nextToken c + 1; t = (if t = 0 then t + 1 else t) in
      (t, c\<lparr> sc_nextToken := t \<rparr>))"

definition makeClaim :: "SequenceCounter \<Rightarrow> u8 \<Rightarrow> SequenceClaim \<times> SequenceCounter" where
  "makeClaim c v =
     (let (token, c) = seq_nextClaimToken c;
          c = c\<lparr> sc_hasClaim := True, sc_claimAdmitted := False,
                 sc_claimToken := token, sc_claimValue := v \<rparr>
      in (\<lparr> scl_owner = Some (sc_self c), scl_token = token,
            scl_generation = effectiveGeneration c, scl_value = v \<rparr>, c))"

definition seq_Claim :: "SequenceCounter \<Rightarrow> (session_error + SequenceClaim) \<times> SequenceCounter" where
  "seq_Claim c =
     (if sc_hasClaim c then (Inl ErrSequenceClaimOutstanding, c)
      else if sc_retryPending c then (Inl ErrSequenceRetryRequired, c)
      else let v = sc_last c + 1; v = (if v = 0 then 1 else v); (claim, c) = makeClaim c v
        in (Inr claim, c))"

definition seq_ClaimRetry :: "SequenceCounter \<Rightarrow> (session_error + SequenceClaim) \<times> SequenceCounter" where
  "seq_ClaimRetry c =
     (if sc_hasClaim c then (Inl ErrSequenceClaimOutstanding, c)
      else if \<not> sc_retryPending c then (Inl ErrSequenceRetryRequired, c)
      else let (claim, c) = makeClaim c (sc_retryValue c) in
        (Inr claim, c\<lparr> sc_retryPending := False \<rparr>))"

definition seq_validateClaim :: "SequenceCounter \<Rightarrow> SequenceClaim \<Rightarrow> session_error option" where
  "seq_validateClaim c claim =
     (if \<not> sc_hasClaim c \<or> scl_owner claim \<noteq> Some (sc_self c) \<or> scl_token claim = 0 \<or>
        scl_token claim \<noteq> sc_claimToken c \<or> scl_generation claim \<noteq> effectiveGeneration c \<or>
        scl_value claim \<noteq> sc_claimValue c
      then Some ErrInvalidSequenceClaim else None)"

definition seq_CanAdmit ::
    "SequenceCounter \<Rightarrow> SequenceClaim \<Rightarrow> (session_error + bool) \<times> SequenceCounter" where
  "seq_CanAdmit c claim =
     (case seq_validateClaim c claim of
        Some e \<Rightarrow> (Inl e, c)
      | None \<Rightarrow>
          if sc_claimAdmitted c then (Inl ErrInvalidSequenceClaim, c)
          else (Inr True, c\<lparr> sc_claimAdmitted := True \<rparr>))"

definition seq_Resolve ::
    "SequenceCounter \<Rightarrow> SequenceClaim \<Rightarrow> SequenceOutcome \<Rightarrow> session_error option \<times> SequenceCounter" where
  "seq_Resolve c claim outcome =
     (case seq_validateClaim c claim of
        Some e \<Rightarrow> (Some e, c)
      | None \<Rightarrow>
          if outcome \<noteq> SequenceDelivered \<and> outcome \<noteq> SequenceDeferred \<and>
             outcome \<noteq> SequenceDeliveryFailed
          then (Some ErrInvalidSequenceOutcome, c)
          else if outcome = SequenceDelivered \<and> \<not> sc_claimAdmitted c
          then (Some ErrSequenceClaimNotAdmitted, c)
          else let c = (if outcome = SequenceDelivered then c\<lparr> sc_last := sc_claimValue c \<rparr>
                        else c\<lparr> sc_retryValue := sc_claimValue c, sc_retryPending := True \<rparr>)
            in (None, c\<lparr> sc_hasClaim := False, sc_claimAdmitted := False,
                         sc_claimToken := 0, sc_claimValue := 0 \<rparr>))"

definition seq_Reset :: "SequenceCounter \<Rightarrow> u64 \<Rightarrow> session_error option \<times> SequenceCounter" where
  "seq_Reset c successorGeneration =
     (let current = effectiveGeneration c in
      if current = NOT 0 \<or> successorGeneration = 0 \<or> successorGeneration \<noteq> current + 1
      then (Some ErrInvalidTransferGeneration, c)
      else (None, (zero_counter (sc_self c))\<lparr> sc_generation := successorGeneration,
                    sc_nextToken := sc_nextToken c \<rparr>))"

section \<open>Runs\<close>

text \<open>The log keeps, for the current generation, the values whose delivery was resolved, and
  every claim ever issued.\<close>

datatype sequence_op =
    OpClaimSequence
  | OpRetrySequence
  | OpAdmitSequence SequenceClaim
  | OpResolveSequence SequenceClaim SequenceOutcome
  | OpResetSequence u64

record sequence_run =
  sr_counter :: SequenceCounter
  sr_delivered :: "u8 list"
  sr_issued :: "SequenceClaim list"

fun sequence_step :: "sequence_op \<Rightarrow> sequence_run \<Rightarrow> sequence_run" where
  "sequence_step OpClaimSequence r =
     (case seq_Claim (sr_counter r) of
        (Inl e, c) \<Rightarrow> r\<lparr> sr_counter := c \<rparr>
      | (Inr claim, c) \<Rightarrow> r\<lparr> sr_counter := c, sr_issued := claim # sr_issued r \<rparr>)"
| "sequence_step OpRetrySequence r =
     (case seq_ClaimRetry (sr_counter r) of
        (Inl e, c) \<Rightarrow> r\<lparr> sr_counter := c \<rparr>
      | (Inr claim, c) \<Rightarrow> r\<lparr> sr_counter := c, sr_issued := claim # sr_issued r \<rparr>)"
| "sequence_step (OpAdmitSequence claim) r =
     r\<lparr> sr_counter := snd (seq_CanAdmit (sr_counter r) claim) \<rparr>"
| "sequence_step (OpResolveSequence claim outcome) r =
     (case seq_Resolve (sr_counter r) claim outcome of
        (Some e, c) \<Rightarrow> r\<lparr> sr_counter := c \<rparr>
      | (None, c) \<Rightarrow> r\<lparr> sr_counter := c, sr_delivered :=
          (if outcome = SequenceDelivered then sr_delivered r @ [scl_value claim]
           else sr_delivered r) \<rparr>)"
| "sequence_step (OpResetSequence g) r =
     (case seq_Reset (sr_counter r) g of
        (Some e, c) \<Rightarrow> r\<lparr> sr_counter := c \<rparr>
      | (None, c) \<Rightarrow> r\<lparr> sr_counter := c, sr_delivered := [] \<rparr>)"

definition sequence_start :: "nat \<Rightarrow> sequence_run" where
  "sequence_start self = \<lparr> sr_counter = zero_counter self, sr_delivered = [], sr_issued = [] \<rparr>"

definition sequence_runs :: "sequence_op list \<Rightarrow> nat \<Rightarrow> sequence_run" where
  "sequence_runs ops self = fold sequence_step ops (sequence_start self)"

text \<open>The wire sequence numbers of one generation: 1, 2, \dots, 255, 1, \dots\<close>

definition nth_sequence :: "nat \<Rightarrow> u8" where
  "nth_sequence i = of_nat (i mod 255 + 1)"

definition seq_inv :: "sequence_run \<Rightarrow> bool" where
  "seq_inv r \<longleftrightarrow>
     (let c = sr_counter r; n = length (sr_delivered r) in
      sr_delivered r = map nth_sequence [0..<n] \<and>
      sc_last c = (if n = 0 then 0 else nth_sequence (n - 1)) \<and>
      (sc_hasClaim c \<longrightarrow> sc_claimValue c = nth_sequence n \<and> \<not> sc_retryPending c) \<and>
      (sc_retryPending c \<longrightarrow> sc_retryValue c = nth_sequence n))"

lemma nth_sequence_succ:
  "(let v = (if n = 0 then 0 else nth_sequence (n - 1)) + 1 in if v = 0 then 1 else v)
     = nth_sequence n"
proof (cases n)
  case 0
  then show ?thesis by (simp add: nth_sequence_def)
next
  case (Suc k)
  have k: "k mod 255 < 255" by simp
  show ?thesis
  proof (cases "k mod 255 = 254")
    case True
    then have "Suc k mod 255 = 0" by (simp add: mod_Suc)
    then show ?thesis using True Suc by (simp add: nth_sequence_def)
  next
    case False
    then have m: "Suc k mod 255 = Suc (k mod 255)" by (simp add: mod_Suc)
    have "k mod 255 + 2 < 256" using k False by linarith
    then have "unat (of_nat (k mod 255 + 2) :: u8) = k mod 255 + 2"
      by (intro unat_of_nat_less) simp
    then have "of_nat (k mod 255 + 2) \<noteq> (0 :: u8)" by (metis add_is_0 unsigned_0 zero_neq_numeral)
    then show ?thesis using m Suc by (simp add: nth_sequence_def add.commute)
  qed
qed

lemma seq_inv_start: "seq_inv (sequence_start self)"
  by (simp add: seq_inv_def sequence_start_def zero_counter_def Let_def)

lemma seq_valid_claim:
  "seq_validateClaim c claim = None \<longleftrightarrow>
     sc_hasClaim c \<and> scl_owner claim = Some (sc_self c) \<and> scl_token claim \<noteq> 0 \<and>
     scl_token claim = sc_claimToken c \<and> scl_generation claim = effectiveGeneration c \<and>
     scl_value claim = sc_claimValue c"
  by (auto simp: seq_validateClaim_def)

lemma sequence_step_inv: "seq_inv r \<Longrightarrow> seq_inv (sequence_step op r)"
proof (induction op r rule: sequence_step.induct)
  case (1 r)
  then show ?case
    using nth_sequence_succ [of "length (sr_delivered r)"]
    by (auto simp: seq_inv_def seq_Claim_def makeClaim_def seq_nextClaimToken_def Let_def
        split: sum.splits prod.splits)
next
  case (2 r)
  then show ?case
    by (auto simp: seq_inv_def seq_ClaimRetry_def makeClaim_def seq_nextClaimToken_def Let_def
        split: sum.splits prod.splits)
next
  case (3 claim r)
  then show ?case
    by (auto simp: seq_inv_def seq_CanAdmit_def Let_def split: option.splits)
next
  case (4 claim outcome r)
  then show ?case
    by (auto simp: seq_inv_def seq_Resolve_def Let_def seq_valid_claim split: option.splits)
next
  case (5 g r)
  then show ?case
    by (auto simp: seq_inv_def seq_Reset_def zero_counter_def Let_def)
qed

interpretation sequence_machine: op_machine sequence_step seq_inv "sequence_start self" for self
  by unfold_locales (erule sequence_step_inv, rule seq_inv_start)

text \<open>C20: whatever sequence of claims, retries, admissions, resolutions and resets is tried on a
  counter, with claims of any origin, the values delivered since the last reset are 1, 2, \dots,
  255, 1, \dots{} in this order: no value is skipped, repeated or zero.\<close>

theorem sequence_consecutive:
  "sr_delivered (sequence_runs ops self) =
     map nth_sequence [0..<length (sr_delivered (sequence_runs ops self))]"
  using sequence_machine.inv_run [of ops self] by (simp add: sequence_runs_def seq_inv_def Let_def)

text \<open>Generations only grow, and every claim belongs to the generation that issued it.\<close>

definition seq_issued_inv :: "sequence_run \<Rightarrow> bool" where
  "seq_issued_inv r \<longleftrightarrow>
     (\<forall>claim \<in> set (sr_issued r). scl_generation claim \<le> effectiveGeneration (sr_counter r))"

lemma seq_generation_cases:
  "effectiveGeneration (sr_counter (sequence_step op r)) = effectiveGeneration (sr_counter r) \<or>
   (\<exists>g. op = OpResetSequence g \<and> effectiveGeneration (sr_counter r) < g \<and>
     effectiveGeneration (sr_counter (sequence_step op r)) = g)"
proof (cases op)
  case (OpResetSequence g)
  have "x \<noteq> NOT 0 \<Longrightarrow> x < x + 1" for x :: u64
  proof -
    assume x: "x \<noteq> NOT 0"
    then have "x + 1 \<noteq> 0" by (metis bit.compl_zero eq_neg_iff_add_eq_0)
    then show "x < x + 1" using unatSuc [of x] by (simp add: word_less_nat_alt add.commute)
  qed
  then show ?thesis using OpResetSequence
    by (auto simp: seq_Reset_def Let_def zero_counter_def effectiveGeneration_def)
qed (auto simp: seq_Claim_def seq_ClaimRetry_def seq_CanAdmit_def seq_Resolve_def makeClaim_def
    seq_nextClaimToken_def effectiveGeneration_def Let_def
    split: sum.splits prod.splits option.splits if_splits)

lemma seq_generation_mono:
  "effectiveGeneration (sr_counter r) \<le> effectiveGeneration (sr_counter (fold sequence_step ops r))"
proof (induction ops arbitrary: r)
  case (Cons op ops)
  have "effectiveGeneration (sr_counter r) \<le> effectiveGeneration (sr_counter (sequence_step op r))"
    using seq_generation_cases [of op r] by (auto simp: less_imp_le)
  then show ?case using Cons.IH [of "sequence_step op r"] by (simp add: order_trans)
qed simp

lemma sequence_step_issued: "seq_issued_inv r \<Longrightarrow> seq_issued_inv (sequence_step op r)"
proof -
  assume inv: "seq_issued_inv r"
  have new: "claim \<in> set (sr_issued r) \<or>
      scl_generation claim = effectiveGeneration (sr_counter (sequence_step op r))"
    if "claim \<in> set (sr_issued (sequence_step op r))" for claim
  proof (cases op)
    case OpClaimSequence
    then show ?thesis using that
      by (auto simp: seq_Claim_def makeClaim_def seq_nextClaimToken_def effectiveGeneration_def
          Let_def split: if_splits)
  next
    case OpRetrySequence
    then show ?thesis using that
      by (auto simp: seq_ClaimRetry_def makeClaim_def seq_nextClaimToken_def
          effectiveGeneration_def Let_def split: if_splits)
  qed (use that in \<open>auto split: prod.splits option.splits\<close>)
  have grow: "effectiveGeneration (sr_counter r) \<le>
      effectiveGeneration (sr_counter (sequence_step op r))"
    using seq_generation_cases [of op r] by (auto simp: less_imp_le)
  show ?thesis
    unfolding seq_issued_inv_def
  proof
    fix claim assume "claim \<in> set (sr_issued (sequence_step op r))"
    then show "scl_generation claim \<le> effectiveGeneration (sr_counter (sequence_step op r))"
      using new [of claim] inv grow by (auto simp: seq_issued_inv_def intro: order_trans)
  qed
qed

interpretation sequence_issued: op_machine sequence_step seq_issued_inv "sequence_start self"
  for self
  by unfold_locales
    (erule sequence_step_issued, simp add: seq_issued_inv_def sequence_start_def)

text \<open>C21: once a counter has been reset, whatever happens afterwards, a claim issued before the
  reset is neither admitted nor resolved: both operations refuse it and leave the counter as it is.\<close>

theorem sequence_reset_fences:
  assumes "fst (seq_Reset (sr_counter (sequence_runs ops self)) g) = None"
    and "claim \<in> set (sr_issued (sequence_runs ops self))"
  shows "let c = sr_counter (sequence_runs (ops @ OpResetSequence g # later) self) in
    seq_CanAdmit c claim = (Inl ErrInvalidSequenceClaim, c) \<and>
    seq_Resolve c claim outcome = (Some ErrInvalidSequenceClaim, c)"
proof -
  define r where "r = sequence_runs ops self"
  have "effectiveGeneration (sr_counter r) < effectiveGeneration (sr_counter (sequence_step (OpResetSequence g) r))"
    using assms(1) seq_generation_cases [of "OpResetSequence g" r]
    by (auto simp: r_def seq_Reset_def Let_def zero_counter_def effectiveGeneration_def split: if_splits)
  moreover have "scl_generation claim \<le> effectiveGeneration (sr_counter r)"
    using sequence_issued.inv_run [of ops self] assms(2)
    by (simp add: sequence_runs_def seq_issued_inv_def r_def)
  moreover have "effectiveGeneration (sr_counter (sequence_step (OpResetSequence g) r)) \<le>
      effectiveGeneration (sr_counter (sequence_runs (ops @ OpResetSequence g # later) self))"
    using seq_generation_mono by (simp add: sequence_runs_def r_def)
  ultimately have "seq_validateClaim (sr_counter (sequence_runs (ops @ OpResetSequence g # later) self)) claim
    = Some ErrInvalidSequenceClaim" by (auto simp: seq_validateClaim_def)
  then show ?thesis by (simp add: Let_def seq_CanAdmit_def seq_Resolve_def)
qed

theorem sequence_reset_fences_witness:
  "let ops = [OpClaimSequence]; claim = hd (sr_issued (sequence_runs ops 7));
     c = sr_counter (sequence_runs (ops @ OpResetSequence 2 # [OpClaimSequence]) 7) in
   fst (seq_Reset (sr_counter (sequence_runs ops 7)) 2) = None \<and>
   claim \<in> set (sr_issued (sequence_runs ops 7)) \<and> sc_hasClaim c \<and>
   seq_CanAdmit c claim = (Inl ErrInvalidSequenceClaim, c) \<and>
   seq_Resolve c claim SequenceDelivered = (Some ErrInvalidSequenceClaim, c)"
proof -
  let ?ops = "[OpClaimSequence]"
  have h: "fst (seq_Reset (sr_counter (sequence_runs ?ops 7)) 2) = None" by code_simp
  have i: "hd (sr_issued (sequence_runs ?ops 7)) \<in> set (sr_issued (sequence_runs ?ops 7))"
    by code_simp
  have "sc_hasClaim (sr_counter (sequence_runs (?ops @ OpResetSequence 2 # [OpClaimSequence]) 7))"
    by code_simp
  then show ?thesis
    using h i sequence_reset_fences [OF h i, of "[OpClaimSequence]" SequenceDelivered]
    unfolding Let_def by blast
qed

section \<open>The authentication boundary\<close>

text \<open>A provider gets the destination and a packet and returns the destination afterwards with
  the written count, whether the handshake is complete and an optional error.\<close>

type_synonym auth_provider = "bytes \<Rightarrow> bytes \<Rightarrow> bytes \<times> int \<times> bool \<times> session_error option"

definition UnavailableAuthProvider :: auth_provider where
  "UnavailableAuthProvider dst packet = (dst, 0, False, Some ErrAuthenticationUnavailable)"

definition NewSession :: "auth_provider option \<Rightarrow> auth_provider option" where
  "NewSession provider =
     Some (case provider of None \<Rightarrow> UnavailableAuthProvider | Some p \<Rightarrow> p)"

definition Session_ProcessAuthenticationPacket ::
    "auth_provider option \<Rightarrow> bytes \<Rightarrow> bytes \<Rightarrow> bytes \<times> int \<times> bool \<times> session_error option" where
  "Session_ProcessAuthenticationPacket auth dst packet =
     (let provider = (case auth of None \<Rightarrow> UnavailableAuthProvider | Some p \<Rightarrow> p) in
      case provider dst packet of (dst, written, complete, err) \<Rightarrow>
        (case err of
           Some e \<Rightarrow> (zeros (length dst), 0, False, Some e)
         | None \<Rightarrow>
             if written < 0 \<or> written > int (length dst)
             then (zeros (length dst), 0, False, Some ErrInvalidAuthOutputLength)
             else (take (nat written) dst @ zeros (length dst - nat written),
                   written, complete, None)))"

text \<open>A session without a provider fails closed, and after any call the bytes past the reported
  count are zero.\<close>

lemma auth_unavailable:
  "Session_ProcessAuthenticationPacket None dst packet =
     (zeros (length dst), 0, False, Some ErrAuthenticationUnavailable)"
  "Session_ProcessAuthenticationPacket (NewSession None) dst packet =
     (zeros (length dst), 0, False, Some ErrAuthenticationUnavailable)"
  by (simp_all add: Session_ProcessAuthenticationPacket_def NewSession_def
      UnavailableAuthProvider_def)

lemma auth_output_bounded:
  assumes "Session_ProcessAuthenticationPacket auth dst packet = (dst', written, complete, err)"
  shows "0 \<le> written \<and> written \<le> int (length dst') \<and>
    drop (nat written) dst' = zeros (length dst' - nat written) \<and>
    (err \<noteq> None \<longrightarrow> written = 0 \<and> \<not> complete)"
  using assms
  by (auto simp: Session_ProcessAuthenticationPacket_def Let_def
      split: prod.splits option.splits if_splits)

end
