(* ===== verification/Gip_Metadata.thy ===== *)
theory Gip_Metadata
  imports Gip_Input Gip_Status Gip_Commands
begin

text \<open>
  The reliable transfer of the metadata of an Xbox One controller
  (\<^verbatim>\<open>src/device/xboxone/metadata.go\<close>, and the acknowledgement bridge of
  \<^verbatim>\<open>protocol_control.go\<close>): selection, admission, delivery and retry of packets,
  acknowledgements with rewind, deadlines and resets. As in the source a claim binds its transfer
  by address (\<open>mt_self\<close>).
\<close>

unbundle bit_operations_syntax

section \<open>Errors\<close>

text \<open>The sentinels of the transfer; \<open>GipError\<close> passes an error of the message layer on.\<close>

datatype metadata_error =
    GipError gip_error
  | ErrInvalidMetadata | ErrMetadataIdentityMismatch | ErrMetadataTransferComplete
  | ErrAcknowledgementRequired | ErrInvalidAcknowledgement
  | ErrInvalidTransferGeneration | ErrInvalidTransferEpoch
  | ErrMetadataClaimOutstanding | ErrMetadataRetryRequired | ErrInvalidMetadataClaim
  | ErrMetadataClaimNotAdmitted | ErrInvalidMetadataOutcome
  | ErrReliableTransferTimeout | ErrMetadataTransferFaulted | ErrNonMonotonicMetadataClock

section \<open>Bound metadata\<close>

abbreviation (input) MetadataMaximumBoundLength :: nat where
  "MetadataMaximumBoundLength \<equiv> 0x3fff"
abbreviation (input) MetadataFragmentPayloadCapacity :: nat where
  "MetadataFragmentPayloadCapacity \<equiv> 58"
abbreviation (input) ReliableACKRequestIntervalMilliseconds :: u64 where
  "ReliableACKRequestIntervalMilliseconds \<equiv> 60"
abbreviation (input) ReliableACKTimeoutMilliseconds :: u64 where
  "ReliableACKTimeoutMilliseconds \<equiv> 1000"

record BoundCompiledMetadata =
  md_identity :: ControllerIdentity
  md_profileIssuance :: "(nat \<times> u8) option"
  md_issuance :: "u8 option"
  md_data :: bytes
  md_officialGamepadVariant :: u8
  md_valid :: bool

definition validateInputReport ::
    "BoundCompiledMetadata \<Rightarrow> GamepadInputReportV1 \<Rightarrow> metadata_error option" where
  "validateInputReport metadata report =
     (if md_officialGamepadVariant metadata = 0 \<or> md_officialGamepadVariant metadata = 1
      then map_option GipError (GamepadInputReportV1_Validate report)
      else if md_officialGamepadVariant metadata = 2 then
        (case InputStateV1_Validate (rep_State report) of
           Some e \<Rightarrow> Some (GipError e)
         | None \<Rightarrow> if in_Guide (rep_State report)
             then Some (GipError ErrGuideRequiresStatusMessage) else None)
      else Some ErrInvalidMetadata)"

definition inputMessageSize :: "BoundCompiledMetadata \<Rightarrow> metadata_error + nat" where
  "inputMessageSize metadata =
     (if md_officialGamepadVariant metadata = 0 \<or> md_officialGamepadVariant metadata = 1
      then Inr 18
      else if md_officialGamepadVariant metadata = 2 then Inr 36
      else Inl ErrInvalidMetadata)"

definition encodeInputMessageInto ::
    "BoundCompiledMetadata \<Rightarrow> bytes \<Rightarrow> u8 \<Rightarrow> GamepadInputReportV1 \<Rightarrow>
       metadata_error option \<times> bytes" where
  "encodeInputMessageInto metadata dst s report =
     (case validateInputReport metadata report of
        Some e \<Rightarrow> (Some e, dst)
      | None \<Rightarrow>
          if md_officialGamepadVariant metadata = 0 \<or> md_officialGamepadVariant metadata = 1
          then map_prod (map_option GipError) id (EncodeGamepadInputMessageInto dst s report)
          else if md_officialGamepadVariant metadata = 2
          then map_prod (map_option GipError) id
            (EncodeConsoleFunctionMapGamepadInputMessageInto dst s report)
          else (Some ErrInvalidMetadata, dst))"

definition BindExternallyCompiledMetadata ::
    "UnregisteredControllerProfile \<Rightarrow> bytes \<Rightarrow> metadata_error + BoundCompiledMetadata" where
  "BindExternallyCompiledMetadata profile blob =
     (case profile_validate profile of
        Some e \<Rightarrow> Inl (GipError e)
      | None \<Rightarrow>
          if length blob = 0 \<or> length blob > MetadataMaximumBoundLength
          then Inl ErrInvalidMetadata
          else Inr \<lparr> md_identity = prof_identity profile,
                 md_profileIssuance = prof_issuance profile, md_issuance = Some 1,
                 md_data = blob, md_officialGamepadVariant = 0, md_valid = True \<rparr>)"

section \<open>The transfer\<close>

datatype MetadataPacketKind =
    MetadataPacketNone
  | MetadataPacketSingle | MetadataPacketInitialFragment | MetadataPacketMiddleFragment
  | MetadataPacketFinalFragment | MetadataPacketComplete

datatype MetadataPacketOutcome =
    MetadataPacketDelivered | MetadataPacketDeferred | MetadataPacketDeliveryFailed
  | MetadataOutcomeOther u8

record MetadataPacketClaim =
  mc_owner :: "nat option"
  mc_token :: u64
  mc_transferGeneration :: u64
  mc_transferEpoch :: u64
  mc_messageNumber :: u8
  mc_sequence :: u8
  mc_kind :: MetadataPacketKind
  mc_size :: u8
  mc_selectedACME :: bool
  mc_selectedAtMS :: u64

record MetadataPacketAdmission =
  ma_size :: u8
  ma_kind :: MetadataPacketKind
  ma_acknowledgement :: bool

record ReliableAcknowledgement =
  ra_TransferGeneration :: u64
  ra_TransferEpoch :: u64
  ra_MessageNumber :: u8
  ra_Sequence :: u8
  ra_ContiguousPayloadBytes :: u16
  ra_ReceiverRemainingBufferBytes :: u16

datatype ReliableAcknowledgementDisposition =
  ReliableAcknowledgementProgress | ReliableAcknowledgementRewind | ReliableAcknowledgementDuplicate

record metadataTransferPostState =
  mp_offset :: u16
  mp_sentEnd :: u16
  mp_acknowledgedEnd :: u16
  mp_finalAcknowledged :: bool
  mp_done :: bool

record metadataPacketRecord =
  mr_wire :: bytes
  mr_size :: u8
  mr_kind :: MetadataPacketKind
  mr_acknowledgement :: bool
  mr_selectedAtMS :: u64
  mr_post :: metadataTransferPostState

definition zero_post :: metadataTransferPostState where
  "zero_post = \<lparr> mp_offset = 0, mp_sentEnd = 0, mp_acknowledgedEnd = 0,
     mp_finalAcknowledged = False, mp_done = False \<rparr>"

definition zero_packet :: metadataPacketRecord where
  "zero_packet = \<lparr> mr_wire = zeros 64, mr_size = 0, mr_kind = MetadataPacketNone,
     mr_acknowledgement = False, mr_selectedAtMS = 0, mr_post = zero_post \<rparr>"

record MetadataTransfer =
  mt_self :: nat
  mt_metadata :: BoundCompiledMetadata
  mt_sequence :: u8
  mt_generation :: u64
  mt_transferEpoch :: u64
  mt_offset :: u16
  mt_sentEnd :: u16
  mt_acknowledgedEnd :: u16
  mt_finalAcknowledged :: bool
  mt_done :: bool
  mt_faulted :: bool
  mt_valid :: bool
  mt_lastNowMS :: u64
  mt_nextACKRequestMS :: u64
  mt_ackDeadlineMS :: u64
  mt_ackDeadlineArmed :: bool
  mt_nextToken :: u64
  mt_hasClaim :: bool
  mt_claimAdmitted :: bool
  mt_claimAdmittedAtMS :: u64
  mt_claimToken :: u64
  mt_claimRecord :: metadataPacketRecord
  mt_retryPending :: bool
  mt_retryRecord :: metadataPacketRecord

definition fresh_transfer ::
    "nat \<Rightarrow> BoundCompiledMetadata \<Rightarrow> u8 \<Rightarrow> u64 \<Rightarrow> u64 \<Rightarrow> u64 \<Rightarrow> u64 \<Rightarrow> MetadataTransfer" where
  "fresh_transfer self metadata s generation epoch nowMS token =
     \<lparr> mt_self = self, mt_metadata = metadata, mt_sequence = s, mt_generation = generation,
       mt_transferEpoch = epoch, mt_offset = 0, mt_sentEnd = 0, mt_acknowledgedEnd = 0,
       mt_finalAcknowledged = False, mt_done = False, mt_faulted = False, mt_valid = True,
       mt_lastNowMS = nowMS, mt_nextACKRequestMS = nowMS, mt_ackDeadlineMS = 0,
       mt_ackDeadlineArmed = False, mt_nextToken = token, mt_hasClaim = False,
       mt_claimAdmitted = False, mt_claimAdmittedAtMS = 0, mt_claimToken = 0,
       mt_claimRecord = zero_packet, mt_retryPending = False, mt_retryRecord = zero_packet \<rparr>"

definition NewMetadataTransfer ::
    "nat \<Rightarrow> UnregisteredControllerProfile \<Rightarrow> BoundCompiledMetadata \<Rightarrow> u8 \<Rightarrow> u64 \<Rightarrow> u64 \<Rightarrow> u64 \<Rightarrow>
       metadata_error + MetadataTransfer" where
  "NewMetadataTransfer self profile metadata s generation transferEpoch nowMS =
     (case profile_validate profile of
        Some e \<Rightarrow> Inl (GipError e)
      | None \<Rightarrow>
          if \<not> md_valid metadata \<or> md_issuance metadata = None \<or> md_issuance metadata \<noteq> Some 1 \<or>
             length (md_data metadata) = 0 \<or>
             length (md_data metadata) > MetadataMaximumBoundLength
          then Inl ErrInvalidMetadata
          else if md_identity metadata \<noteq> prof_identity profile \<or> md_issuance metadata = None \<or>
             md_profileIssuance metadata \<noteq> prof_issuance profile
          then Inl ErrMetadataIdentityMismatch
          else if s = 0 then Inl (GipError ErrReservedSequence)
          else if generation = 0 then Inl ErrInvalidTransferGeneration
          else if transferEpoch = 0 then Inl ErrInvalidTransferEpoch
          else Inr (fresh_transfer self metadata s generation transferEpoch nowMS 0))"

definition metadata_validateClock :: "MetadataTransfer \<Rightarrow> u64 \<Rightarrow> metadata_error option" where
  "metadata_validateClock t nowMS =
     (if nowMS < mt_lastNowMS t then Some ErrNonMonotonicMetadataClock else None)"

definition saturatingMetadataDeadline :: "u64 \<Rightarrow> u64 \<Rightarrow> u64" where
  "saturatingMetadataDeadline nowMS deltaMS =
     (if NOT 0 - nowMS < deltaMS then NOT 0 else nowMS + deltaMS)"

definition observeAndCheckTimeout ::
    "MetadataTransfer \<Rightarrow> u64 \<Rightarrow> metadata_error option \<times> MetadataTransfer" where
  "observeAndCheckTimeout t nowMS =
     (if \<not> mt_valid t then (Some ErrInvalidMetadata, t)
      else case metadata_validateClock t nowMS of
        Some e \<Rightarrow> (Some e, t)
      | None \<Rightarrow>
          let t = t\<lparr> mt_lastNowMS := nowMS \<rparr> in
          if mt_faulted t then (Some ErrMetadataTransferFaulted, t)
          else if mt_ackDeadlineArmed t \<and> nowMS \<ge> mt_ackDeadlineMS t
          then (Some ErrReliableTransferTimeout,
                t\<lparr> mt_faulted := True, mt_ackDeadlineArmed := False \<rparr>)
          else (None, t))"

definition metadata_Poll :: "MetadataTransfer \<Rightarrow> u64 \<Rightarrow> metadata_error option \<times> MetadataTransfer" where
  "metadata_Poll t nowMS = observeAndCheckTimeout t nowMS"

definition metadata_nextClaimToken :: "MetadataTransfer \<Rightarrow> u64 \<times> MetadataTransfer" where
  "metadata_nextClaimToken t =
     (let n = mt_nextToken t + 1; n = (if n = 0 then n + 1 else n) in
      (n, t\<lparr> mt_nextToken := n \<rparr>))"

definition claimFromRecord ::
    "MetadataTransfer \<Rightarrow> metadataPacketRecord \<Rightarrow> MetadataPacketClaim \<times> MetadataTransfer" where
  "claimFromRecord t record =
     (let (token, t) = metadata_nextClaimToken t;
          t = t\<lparr> mt_hasClaim := True, mt_claimAdmitted := False, mt_claimAdmittedAtMS := 0,
                 mt_claimToken := token, mt_claimRecord := record \<rparr>
      in (\<lparr> mc_owner = Some (mt_self t), mc_token = token,
            mc_transferGeneration = mt_generation t, mc_transferEpoch = mt_transferEpoch t,
            mc_messageNumber = 4, mc_sequence = mt_sequence t, mc_kind = mr_kind record,
            mc_size = mr_size record, mc_selectedACME = mr_acknowledgement record,
            mc_selectedAtMS = mr_selectedAtMS record \<rparr>, t))"

definition encodeMetadataFragmentHeader ::
    "u8 \<Rightarrow> u8 \<Rightarrow> bool \<Rightarrow> bool \<Rightarrow> u16 \<Rightarrow> bytes" where
  "encodeMetadataFragmentHeader s payloadLength initial requestACK totalLengthOrOffset =
     (let f = flagFragment OR flagSystem;
          f = (if initial then f OR flagInitFragment else f);
          f = (if requestACK then f OR flagAcknowledge else f)
      in [4, f, s, payloadLength, 0x80 OR ucast (totalLengthOrOffset AND 0x7f),
          ucast (drop_bit 7 totalLengthOrOffset)])"

definition encodeMetadataCompleteHeader :: "u8 \<Rightarrow> u16 \<Rightarrow> bytes" where
  "encodeMetadataCompleteHeader s totalLength =
     [4, flagFragment OR flagSystem, s, 0, 0x80 OR ucast (totalLength AND 0x7f),
      ucast (drop_bit 7 totalLength)]"

text \<open>\<open>put_at wire i src\<close> is the array after \<open>copy(wire[i:], src)\<close> for a source that fits.\<close>

definition put_at :: "bytes \<Rightarrow> nat \<Rightarrow> bytes \<Rightarrow> bytes" where
  "put_at wire i src = take i wire @ src @ drop (i + length src) wire"

definition selectPacket :: "MetadataTransfer \<Rightarrow> u64 \<Rightarrow> metadata_error + metadataPacketRecord" where
  "selectPacket t nowMS =
     (let total = length (md_data (mt_metadata t));
          post = \<lparr> mp_offset = mt_offset t, mp_sentEnd = mt_sentEnd t,
                   mp_acknowledgedEnd = mt_acknowledgedEnd t,
                   mp_finalAcknowledged = mt_finalAcknowledged t, mp_done = mt_done t \<rparr>
      in
      if total \<le> 60 then
        (case EncodeSinglePacketHeaderInto (zeros 4)
            \<lparr> h_DataClass = DataClassCommand, h_MessageNumber = 4, h_System = True,
              h_AcknowledgementRequested = False, h_ExpansionIndex = 0,
              h_Sequence = mt_sequence t, h_PayloadLength = of_nat total \<rparr> of
           (Some e, _) \<Rightarrow> Inl (GipError e)
         | (None, hw) \<Rightarrow>
             Inr \<lparr> mr_wire = put_at (put_at (zeros 64) 0 hw) 4 (md_data (mt_metadata t)),
               mr_size = of_nat (4 + total), mr_kind = MetadataPacketSingle,
               mr_acknowledgement = False, mr_selectedAtMS = nowMS,
               mr_post = post\<lparr> mp_offset := of_nat total, mp_sentEnd := of_nat total,
                 mp_done := True \<rparr> \<rparr>)
      else if unat (mt_offset t) = total then
        (if \<not> mt_finalAcknowledged t then Inl ErrAcknowledgementRequired
         else Inr \<lparr> mr_wire = put_at (zeros 64) 0
                  (encodeMetadataCompleteHeader (mt_sequence t) (of_nat total)),
                mr_size = 6, mr_kind = MetadataPacketComplete, mr_acknowledgement = False,
                mr_selectedAtMS = nowMS, mr_post = post\<lparr> mp_done := True \<rparr> \<rparr>)
      else
        let start = unat (mt_offset t);
            payloadLength = (if total - start > MetadataFragmentPayloadCapacity
                             then MetadataFragmentPayloadCapacity else total - start);
            stop = start + payloadLength;
            kind = (if start = 0 then MetadataPacketInitialFragment
                    else if stop = total then MetadataPacketFinalFragment
                    else MetadataPacketMiddleFragment);
            ack = (kind = MetadataPacketInitialFragment \<or> kind = MetadataPacketFinalFragment \<or>
                   nowMS \<ge> mt_nextACKRequestMS t);
            totalLengthOrOffset = (if kind = MetadataPacketInitialFragment then of_nat total
                                   else of_nat start)
        in Inr \<lparr> mr_wire = put_at (put_at (zeros 64) 0
                 (encodeMetadataFragmentHeader (mt_sequence t) (of_nat payloadLength)
                    (kind = MetadataPacketInitialFragment) ack totalLengthOrOffset))
                 6 (slice (md_data (mt_metadata t)) start stop),
               mr_size = of_nat (6 + payloadLength), mr_kind = kind, mr_acknowledgement = ack,
               mr_selectedAtMS = nowMS,
               mr_post = post\<lparr> mp_offset := of_nat stop, mp_sentEnd := of_nat stop,
                 mp_finalAcknowledged := False \<rparr> \<rparr>)"

definition metadata_Claim ::
    "MetadataTransfer \<Rightarrow> u64 \<Rightarrow> (metadata_error + MetadataPacketClaim) \<times> MetadataTransfer" where
  "metadata_Claim t nowMS =
     (case observeAndCheckTimeout t nowMS of
        (Some e, t) \<Rightarrow> (Inl e, t)
      | (None, t) \<Rightarrow>
          if mt_hasClaim t then (Inl ErrMetadataClaimOutstanding, t)
          else if mt_retryPending t then (Inl ErrMetadataRetryRequired, t)
          else if mt_done t then (Inl ErrMetadataTransferComplete, t)
          else if mt_ackDeadlineArmed t then (Inl ErrAcknowledgementRequired, t)
          else (case selectPacket t nowMS of
            Inl e \<Rightarrow> (Inl e, t)
          | Inr record \<Rightarrow> (case claimFromRecord t record of (claim, t) \<Rightarrow> (Inr claim, t))))"

definition metadata_ClaimRetry ::
    "MetadataTransfer \<Rightarrow> u64 \<Rightarrow> (metadata_error + MetadataPacketClaim) \<times> MetadataTransfer" where
  "metadata_ClaimRetry t nowMS =
     (case observeAndCheckTimeout t nowMS of
        (Some e, t) \<Rightarrow> (Inl e, t)
      | (None, t) \<Rightarrow>
          if mt_hasClaim t then (Inl ErrMetadataClaimOutstanding, t)
          else if \<not> mt_retryPending t then (Inl ErrMetadataRetryRequired, t)
          else (case claimFromRecord t (mt_retryRecord t) of
            (claim, t) \<Rightarrow> (Inr claim, t\<lparr> mt_retryPending := False \<rparr>)))"

definition metadata_validateClaim ::
    "MetadataTransfer \<Rightarrow> MetadataPacketClaim \<Rightarrow> metadata_error option" where
  "metadata_validateClaim t claim =
     (if \<not> mt_hasClaim t \<or> mc_owner claim \<noteq> Some (mt_self t) \<or> mc_token claim = 0 \<or>
        mc_token claim \<noteq> mt_claimToken t \<or> mc_transferGeneration claim \<noteq> mt_generation t \<or>
        mc_transferEpoch claim \<noteq> mt_transferEpoch t \<or>
        mc_messageNumber claim \<noteq> 4 \<or> mc_sequence claim \<noteq> mt_sequence t \<or>
        mc_kind claim \<noteq> mr_kind (mt_claimRecord t) \<or> mc_size claim \<noteq> mr_size (mt_claimRecord t) \<or>
        (\<not> mt_claimAdmitted t \<and>
         mc_selectedACME claim \<noteq> mr_acknowledgement (mt_claimRecord t)) \<or>
        mc_selectedAtMS claim \<noteq> mr_selectedAtMS (mt_claimRecord t)
      then Some ErrInvalidMetadataClaim else None)"

text \<open>The destination is returned with the result: unchanged unless the admission succeeds.\<close>

definition AdmitAndCopy ::
    "MetadataTransfer \<Rightarrow> MetadataPacketClaim \<Rightarrow> bytes \<Rightarrow> u64 \<Rightarrow>
       (metadata_error + MetadataPacketAdmission) \<times> bytes \<times> MetadataTransfer" where
  "AdmitAndCopy t claim dst nowMS =
     (case metadata_validateClaim t claim of
        Some e \<Rightarrow> (Inl e, dst, t)
      | None \<Rightarrow>
          if mt_claimAdmitted t then (Inl ErrInvalidMetadataClaim, dst, t)
          else if length dst < unat (mr_size (mt_claimRecord t))
          then (Inl (GipError ErrInvalidLength), dst, t)
          else (case observeAndCheckTimeout t nowMS of
            (Some e, t) \<Rightarrow> (Inl e, dst, t)
          | (None, t) \<Rightarrow>
              let record = mt_claimRecord t;
                  record = (if mr_kind record = MetadataPacketMiddleFragment \<and>
                      \<not> mr_acknowledgement record \<and> nowMS \<ge> mt_nextACKRequestMS t
                    then record\<lparr> mr_acknowledgement := True,
                           mr_wire := (mr_wire record)[1 := mr_wire record ! 1 OR flagAcknowledge] \<rparr>
                    else record);
                  n = unat (mr_size record)
              in (Inr \<lparr> ma_size = mr_size record, ma_kind = mr_kind record,
                        ma_acknowledgement = mr_acknowledgement record \<rparr>,
                  take n (mr_wire record) @ drop n dst,
                  t\<lparr> mt_claimRecord := record, mt_claimAdmitted := True,
                     mt_claimAdmittedAtMS := nowMS \<rparr>)))"

definition metadata_clearClaim :: "MetadataTransfer \<Rightarrow> MetadataTransfer" where
  "metadata_clearClaim t = t\<lparr> mt_hasClaim := False, mt_claimAdmitted := False,
     mt_claimAdmittedAtMS := 0, mt_claimToken := 0, mt_claimRecord := zero_packet \<rparr>"

definition metadata_Resolve ::
    "MetadataTransfer \<Rightarrow> MetadataPacketClaim \<Rightarrow> MetadataPacketOutcome \<Rightarrow> u64 \<Rightarrow>
       metadata_error option \<times> MetadataTransfer" where
  "metadata_Resolve t claim outcome completedMS =
     (case metadata_validateClaim t claim of
        Some e \<Rightarrow> (Some e, t)
      | None \<Rightarrow>
          if outcome \<noteq> MetadataPacketDelivered \<and> outcome \<noteq> MetadataPacketDeferred \<and>
             outcome \<noteq> MetadataPacketDeliveryFailed
          then (Some ErrInvalidMetadataOutcome, t)
          else if outcome = MetadataPacketDelivered \<and> \<not> mt_claimAdmitted t
          then (Some ErrMetadataClaimNotAdmitted, t)
          else
            let completedMS = (if completedMS < mt_lastNowMS t then mt_lastNowMS t else completedMS);
                t = t\<lparr> mt_lastNowMS := completedMS \<rparr>
            in if outcome \<noteq> MetadataPacketDelivered
               then (None, metadata_clearClaim
                      (t\<lparr> mt_retryRecord := mt_claimRecord t, mt_retryPending := True \<rparr>))
               else
                 let post = mr_post (mt_claimRecord t);
                     t = t\<lparr> mt_offset := mp_offset post, mt_sentEnd := mp_sentEnd post,
                            mt_acknowledgedEnd := mp_acknowledgedEnd post,
                            mt_finalAcknowledged := mp_finalAcknowledged post,
                            mt_done := mp_done post \<rparr>;
                     t = (if mr_acknowledgement (mt_claimRecord t)
                          then t\<lparr> mt_ackDeadlineMS := saturatingMetadataDeadline completedMS
                                   ReliableACKTimeoutMilliseconds,
                                 mt_ackDeadlineArmed := True \<rparr>
                          else t)
                 in (None, metadata_clearClaim t))"

definition acknowledgementIdentity :: "MetadataTransfer \<Rightarrow> ReliableAcknowledgement option" where
  "acknowledgementIdentity t =
     (if \<not> mt_valid t \<or> mt_faulted t \<or> mt_done t \<or> length (md_data (mt_metadata t)) \<le> 60 \<or>
        mt_sentEnd t = 0
      then None
      else Some \<lparr> ra_TransferGeneration = mt_generation t, ra_TransferEpoch = mt_transferEpoch t,
             ra_MessageNumber = 4, ra_Sequence = mt_sequence t,
             ra_ContiguousPayloadBytes = mt_sentEnd t, ra_ReceiverRemainingBufferBytes = 0 \<rparr>)"

definition PendingAcknowledgement :: "MetadataTransfer \<Rightarrow> ReliableAcknowledgement option" where
  "PendingAcknowledgement t =
     (if \<not> mt_ackDeadlineArmed t then None else acknowledgementIdentity t)"

definition validateAcknowledgement ::
    "MetadataTransfer \<Rightarrow> ReliableAcknowledgement \<Rightarrow>
       metadata_error + ReliableAcknowledgementDisposition" where
  "validateAcknowledgement t ack =
     (if mt_claimAdmitted t then Inl ErrMetadataClaimOutstanding
      else if length (md_data (mt_metadata t)) \<le> 60 \<or> mt_done t \<or> mt_sentEnd t = 0 \<or>
        ra_TransferGeneration ack \<noteq> mt_generation t \<or>
        ra_TransferEpoch ack \<noteq> mt_transferEpoch t \<or>
        ra_MessageNumber ack \<noteq> 4 \<or> ra_Sequence ack \<noteq> mt_sequence t \<or>
        ra_ContiguousPayloadBytes ack < mt_acknowledgedEnd t \<or>
        ra_ContiguousPayloadBytes ack > mt_sentEnd t \<or>
        unat (ra_ContiguousPayloadBytes ack) > length (md_data (mt_metadata t))
      then Inl ErrInvalidAcknowledgement
      else if ra_ContiguousPayloadBytes ack < mt_offset t then Inr ReliableAcknowledgementRewind
      else if ra_ContiguousPayloadBytes ack > mt_acknowledgedEnd t
      then Inr ReliableAcknowledgementProgress
      else Inr ReliableAcknowledgementDuplicate)"

definition PreviewAcknowledgement ::
    "MetadataTransfer \<Rightarrow> ReliableAcknowledgement \<Rightarrow> u64 \<Rightarrow>
       metadata_error + ReliableAcknowledgementDisposition" where
  "PreviewAcknowledgement t ack nowMS =
     (if \<not> mt_valid t then Inl ErrInvalidMetadata
      else case metadata_validateClock t nowMS of
        Some e \<Rightarrow> Inl e
      | None \<Rightarrow>
          if mt_faulted t then Inl ErrMetadataTransferFaulted
          else if mt_ackDeadlineArmed t \<and> nowMS \<ge> mt_ackDeadlineMS t
          then Inl ErrReliableTransferTimeout
          else validateAcknowledgement t ack)"

definition keep_progress :: "MetadataTransfer \<Rightarrow> metadataPacketRecord \<Rightarrow> metadataPacketRecord" where
  "keep_progress t record = record\<lparr> mr_post := (mr_post record)
     \<lparr> mp_acknowledgedEnd := mt_acknowledgedEnd t,
       mp_finalAcknowledged := mt_finalAcknowledged t \<rparr> \<rparr>"

definition metadata_Acknowledge ::
    "MetadataTransfer \<Rightarrow> ReliableAcknowledgement \<Rightarrow> u64 \<Rightarrow>
       (metadata_error + ReliableAcknowledgementDisposition) \<times> MetadataTransfer" where
  "metadata_Acknowledge t ack nowMS =
     (case observeAndCheckTimeout t nowMS of
        (Some e, t) \<Rightarrow> (Inl e, t)
      | (None, t) \<Rightarrow>
          (case validateAcknowledgement t ack of
             Inl e \<Rightarrow> (Inl e, t)
           | Inr disposition \<Rightarrow>
               let rewind = (disposition = ReliableAcknowledgementRewind);
                   t = t\<lparr> mt_lastNowMS := nowMS, mt_ackDeadlineArmed := False,
                          mt_ackDeadlineMS := 0,
                          mt_nextACKRequestMS := saturatingMetadataDeadline nowMS
                            ReliableACKRequestIntervalMilliseconds \<rparr>;
                   t = (if rewind then
                          let t = t\<lparr> mt_offset := ra_ContiguousPayloadBytes ack,
                                     mt_sentEnd := ra_ContiguousPayloadBytes ack \<rparr>;
                              t = (if mt_hasClaim t then metadata_clearClaim t else t)
                          in t\<lparr> mt_retryPending := False, mt_retryRecord := zero_packet \<rparr>
                        else t);
                   t = t\<lparr> mt_acknowledgedEnd := ra_ContiguousPayloadBytes ack,
                          mt_finalAcknowledged :=
                            (unat (ra_ContiguousPayloadBytes ack) = length (md_data (mt_metadata t))) \<rparr>;
                   t = (if \<not> rewind then
                          let t = (if mt_hasClaim t
                                   then t\<lparr> mt_claimRecord := keep_progress t (mt_claimRecord t) \<rparr>
                                   else t)
                          in if mt_retryPending t
                             then t\<lparr> mt_retryRecord := keep_progress t (mt_retryRecord t) \<rparr> else t
                        else t)
               in (Inr disposition, t)))"

definition metadata_Reset ::
    "MetadataTransfer \<Rightarrow> u8 \<Rightarrow> u64 \<Rightarrow> u64 \<Rightarrow> u64 \<Rightarrow> metadata_error option \<times> MetadataTransfer" where
  "metadata_Reset t s successorGeneration successorTransferEpoch nowMS =
     (if \<not> mt_valid t then (Some ErrInvalidMetadata, t)
      else case metadata_validateClock t nowMS of
        Some e \<Rightarrow> (Some e, t)
      | None \<Rightarrow>
          if s = 0 then (Some (GipError ErrReservedSequence), t)
          else if mt_generation t = NOT 0 \<or> successorGeneration = 0 \<or>
            successorGeneration \<noteq> mt_generation t + 1
          then (Some ErrInvalidTransferGeneration, t)
          else if mt_transferEpoch t = NOT 0 \<or> successorTransferEpoch = 0 \<or>
            successorTransferEpoch \<noteq> mt_transferEpoch t + 1
          then (Some ErrInvalidTransferEpoch, t)
          else (None, fresh_transfer (mt_self t) (mt_metadata t) s successorGeneration
                        successorTransferEpoch nowMS (mt_nextToken t)))"

section \<open>From acknowledgement messages\<close>

definition DecodeMetadataReliableAcknowledgement ::
    "bytes \<Rightarrow> u64 \<Rightarrow> u64 \<Rightarrow> metadata_error + ReliableAcknowledgement" where
  "DecodeMetadataReliableAcknowledgement wire transferGeneration transferEpoch =
     (if transferGeneration = 0 \<or> transferEpoch = 0 then Inl ErrInvalidAcknowledgement
      else case DecodeProtocolControlACKMessage wire of
        Inl e \<Rightarrow> Inl (GipError e)
      | Inr (s, body) \<Rightarrow>
          if ack_DataClass body \<noteq> DataClassCommand \<or> ack_MessageNumber body \<noteq> 4 \<or>
             \<not> ack_System body \<or> ack_ExpansionIndex body \<noteq> 0 \<or> ack_FragmentOffset body > 0x3fff
          then Inl ErrInvalidAcknowledgement
          else Inr \<lparr> ra_TransferGeneration = transferGeneration,
                 ra_TransferEpoch = transferEpoch, ra_MessageNumber = 4, ra_Sequence = s,
                 ra_ContiguousPayloadBytes = ucast (ack_FragmentOffset body),
                 ra_ReceiverRemainingBufferBytes = ack_RemainingBuffer body \<rparr>)"

end
