(* ===== verification/Gip_Metadata_Packets.thy ===== *)
theory Gip_Metadata_Packets
  imports Gip_Metadata
begin

text \<open>
  Runs of the metadata transfer, with operations in any order and any claims and
  acknowledgements, and a receiver that writes every delivered fragment at the offset its header
  names. The lemmas show that a selected packet carries the bytes of the metadata from the current
  offset up to its proposed offset.
\<close>

unbundle bit_operations_syntax

section \<open>Runs and the receiver\<close>

datatype metadata_op =
    OpMetadataClaim u64
  | OpMetadataRetry u64
  | OpMetadataAdmit MetadataPacketClaim bytes u64
  | OpMetadataResolve MetadataPacketClaim MetadataPacketOutcome u64
  | OpMetadataAck ReliableAcknowledgement u64
  | OpMetadataPoll u64
  | OpMetadataReset u8 u64 u64 u64

text \<open>The log of a run: the bytes that the last admission copied to its destination, and the
  packets whose delivery was resolved since the transfer was made or reset.\<close>

record metadata_run =
  mrun_transfer :: MetadataTransfer
  mrun_admitted :: bytes
  mrun_delivered :: "bytes list"

fun metadata_step :: "metadata_op \<Rightarrow> metadata_run \<Rightarrow> metadata_run" where
  "metadata_step (OpMetadataClaim now) r =
     r\<lparr> mrun_transfer := snd (metadata_Claim (mrun_transfer r) now) \<rparr>"
| "metadata_step (OpMetadataRetry now) r =
     r\<lparr> mrun_transfer := snd (metadata_ClaimRetry (mrun_transfer r) now) \<rparr>"
| "metadata_step (OpMetadataAdmit claim dst now) r =
     (case AdmitAndCopy (mrun_transfer r) claim dst now of
        (Inl e, dst', t) \<Rightarrow> r\<lparr> mrun_transfer := t \<rparr>
      | (Inr admission, dst', t) \<Rightarrow>
          r\<lparr> mrun_transfer := t, mrun_admitted := take (unat (ma_size admission)) dst' \<rparr>)"
| "metadata_step (OpMetadataResolve claim outcome now) r =
     (case metadata_Resolve (mrun_transfer r) claim outcome now of
        (Some e, t) \<Rightarrow> r\<lparr> mrun_transfer := t \<rparr>
      | (None, t) \<Rightarrow> r\<lparr> mrun_transfer := t,
          mrun_delivered := (if outcome = MetadataPacketDelivered
            then mrun_delivered r @ [mrun_admitted r] else mrun_delivered r) \<rparr>)"
| "metadata_step (OpMetadataAck ack now) r =
     r\<lparr> mrun_transfer := snd (metadata_Acknowledge (mrun_transfer r) ack now) \<rparr>"
| "metadata_step (OpMetadataPoll now) r =
     r\<lparr> mrun_transfer := snd (metadata_Poll (mrun_transfer r) now) \<rparr>"
| "metadata_step (OpMetadataReset s g e now) r =
     (case metadata_Reset (mrun_transfer r) s g e now of
        (Some err, t) \<Rightarrow> r\<lparr> mrun_transfer := t \<rparr>
      | (None, t) \<Rightarrow> r\<lparr> mrun_transfer := t, mrun_delivered := [] \<rparr>)"

definition metadata_start :: "MetadataTransfer \<Rightarrow> metadata_run" where
  "metadata_start t = \<lparr> mrun_transfer = t, mrun_admitted = [], mrun_delivered = [] \<rparr>"

text \<open>The receiver: an unfragmented packet carries its payload after the four-byte header, an
  initial fragment starts at offset zero, and every other fragment at the offset in the
  extension bytes.\<close>

definition write_bytes :: "nat \<Rightarrow> bytes \<Rightarrow> (nat \<rightharpoonup> u8) \<Rightarrow> (nat \<rightharpoonup> u8)" where
  "write_bytes a p m = (\<lambda>i. if a \<le> i \<and> i < a + length p then Some (p ! (i - a)) else m i)"

definition fragment_value :: "bytes \<Rightarrow> nat" where
  "fragment_value w = unat (w ! 4 AND 0x7f) + 128 * unat (w ! 5)"

definition receive_metadata :: "bytes \<Rightarrow> (nat \<rightharpoonup> u8) \<Rightarrow> (nat \<rightharpoonup> u8)" where
  "receive_metadata w m =
     (if w ! 1 AND flagFragment = 0 then write_bytes 0 (take (unat (w ! 3)) (drop 4 w)) m
      else write_bytes (if w ! 1 AND flagInitFragment \<noteq> 0 then 0 else fragment_value w)
             (take (unat (w ! 3)) (drop 6 w)) m)"

definition received :: "metadata_run \<Rightarrow> (nat \<rightharpoonup> u8)" where
  "received r = fold receive_metadata (mrun_delivered r) Map.empty"

section \<open>Packet images\<close>

lemma fragment_value_header:
  fixes v :: u16
  assumes "unat v \<le> 0x3fff"
  shows "unat ((0x80 OR ucast (v AND 0x7f) :: u8) AND 0x7f) + 128 * unat (ucast (drop_bit 7 v) :: u8)
    = unat v"
proof -
  have mask: "(0x7f :: u8) = mask 7" "(0x7f :: u16) = mask 7"
    by (simp_all add: mask_eq_exp_minus_1)
  have "(0x80 OR ucast (v AND 0x7f) :: u8) AND 0x7f = ucast (take_bit 7 v)"
  proof (rule bit_word_eqI)
    fix n assume "n < LENGTH(8)"
    have "bit (0x80 :: u8) n \<longleftrightarrow> n = 7" using bit_exp_iff [where 'a = u8, of 7 n] by auto
    then show "bit ((0x80 OR ucast (v AND 0x7f) :: u8) AND 0x7f) n = bit (ucast (take_bit 7 v) :: u8) n"
      unfolding mask by (auto simp: bit_simps)
  qed
  moreover have "unat (ucast (take_bit 7 v) :: u8) = unat v mod 128"
    by (simp add: unsigned_ucast_eq unsigned_take_bit_eq take_bit_nat_def
        mod_mod_cancel)
  moreover have "unat (ucast (drop_bit 7 v) :: u8) = unat v div 128"
  proof -
    have "unat v div 128 < 256" using assms by simp
    then show ?thesis
      by (simp add: unsigned_ucast_eq unsigned_drop_bit_eq drop_bit_nat_def take_bit_nat_def)
  qed
  ultimately show ?thesis by simp
qed

lemma put_at_take:
  "i + length src \<le> length w \<Longrightarrow> take (i + length src) (put_at w i src) = take i w @ src"
  by (simp add: put_at_def)

lemma length_put_at [simp]: "i + length src \<le> length w \<Longrightarrow> length (put_at w i src) = length w"
  by (simp add: put_at_def)

lemma fragment_flags:
  fixes init ack :: bool
  defines "f \<equiv> (let f = flagFragment OR flagSystem;
          f = (if init then f OR flagInitFragment else f)
      in if ack then f OR flagAcknowledge else f)"
  shows "f AND flagFragment \<noteq> 0" "f AND flagInitFragment \<noteq> 0 \<longleftrightarrow> init"
  unfolding f_def by (cases init; cases ack; simp)+

lemma write_nothing [simp]: "write_bytes a [] m = m"
  by (rule ext) (auto simp: write_bytes_def)

abbreviation mdata :: "MetadataTransfer \<Rightarrow> bytes" where
  "mdata t \<equiv> md_data (mt_metadata t)"

text \<open>A selected packet of a transfer carries the bytes of the metadata from the current offset up
  to its proposed offset, and its post-state is consistent with the acknowledged progress.\<close>

definition packet_ok :: "MetadataTransfer \<Rightarrow> metadataPacketRecord \<Rightarrow> bool" where
  "packet_ok t R \<longleftrightarrow>
     length (mr_wire R) = 64 \<and> 4 \<le> unat (mr_size R) \<and> unat (mr_size R) \<le> 64 \<and>
     unat (mt_offset t) \<le> unat (mp_offset (mr_post R)) \<and>
     unat (mp_offset (mr_post R)) \<le> length (mdata t) \<and>
     receive_metadata (take (unat (mr_size R)) (mr_wire R)) =
       write_bytes (unat (mt_offset t))
         (slice (mdata t) (unat (mt_offset t)) (unat (mp_offset (mr_post R)))) \<and>
     mp_sentEnd (mr_post R) = mp_offset (mr_post R) \<and>
     mp_acknowledgedEnd (mr_post R) = mt_acknowledgedEnd t \<and>
     mp_finalAcknowledged (mr_post R) = (unat (mt_acknowledgedEnd t) = length (mdata t)) \<and>
     (mp_done (mr_post R) \<longrightarrow> unat (mp_offset (mr_post R)) = length (mdata t) \<and>
        (60 < length (mdata t) \<longrightarrow> unat (mt_acknowledgedEnd t) = length (mdata t))) \<and>
     (length (mdata t) \<le> 60 \<longrightarrow> mp_done (mr_post R))"

definition transfer_inv :: "MetadataTransfer \<Rightarrow> bool" where
  "transfer_inv t \<longleftrightarrow>
     mt_valid t \<and> mt_sequence t \<noteq> 0 \<and> 0 < length (mdata t) \<and> length (mdata t) \<le> 0x3fff \<and>
     mt_sentEnd t = mt_offset t \<and> unat (mt_offset t) \<le> length (mdata t) \<and>
     unat (mt_acknowledgedEnd t) \<le> unat (mt_offset t) \<and>
     mt_finalAcknowledged t = (unat (mt_acknowledgedEnd t) = length (mdata t)) \<and>
     (length (mdata t) \<le> 60 \<longrightarrow> mt_acknowledgedEnd t = 0 \<and> (mt_done t \<or> mt_offset t = 0)) \<and>
     (mt_done t \<longrightarrow> unat (mt_offset t) = length (mdata t) \<and>
        (60 < length (mdata t) \<longrightarrow> unat (mt_acknowledgedEnd t) = length (mdata t))) \<and>
     (mt_hasClaim t \<longrightarrow> \<not> mt_done t \<and> \<not> mt_retryPending t \<and> packet_ok t (mt_claimRecord t)) \<and>
     (mt_retryPending t \<longrightarrow> \<not> mt_done t \<and> packet_ok t (mt_retryRecord t))"

subsection \<open>Selection\<close>

lemma take_append_all: "n = length a \<Longrightarrow> take n (a @ b) = a" by simp

lemma fragment_received:
  assumes "payload \<noteq> []" "length payload \<le> 58" "unat v \<le> 0x3fff"
  shows "receive_metadata (encodeMetadataFragmentHeader s (of_nat (length payload)) init ack v @ payload)
    = write_bytes (if init then 0 else unat v) payload"
proof
  fix m
  have "unat (of_nat (length payload) :: u8) = length payload"
    using assms(2) by (intro unat_of_nat_less) simp
  then show "receive_metadata (encodeMetadataFragmentHeader s (of_nat (length payload)) init ack v @ payload) m
    = write_bytes (if init then 0 else unat v) payload m"
    using fragment_flags [of init ack] fragment_value_header [OF assms(3)]
    by (simp add: receive_metadata_def encodeMetadataFragmentHeader_def fragment_value_def Let_def)
qed

lemma complete_received: "receive_metadata (encodeMetadataCompleteHeader s v) = (\<lambda>m. m)"
  by (rule ext) (simp add: receive_metadata_def encodeMetadataCompleteHeader_def)

lemma single_received:
  assumes "length payload \<le> 60"
    and "EncodeSinglePacketHeaderInto (zeros 4) \<lparr> h_DataClass = DataClassCommand, h_MessageNumber = 4,
      h_System = True, h_AcknowledgementRequested = False, h_ExpansionIndex = 0,
      h_Sequence = s, h_PayloadLength = of_nat (length payload) \<rparr> = (None, hw)"
  shows "length hw = 4" "receive_metadata (hw @ payload) = write_bytes 0 payload"
proof -
  have hw: "hw = [4, 0x20, s, ucast (of_nat (length payload) :: u16)]"
    using assms(2) by (auto simp: gip_header.enc_eq header_wire_def split: option.splits if_splits)
  then show "length hw = 4" by simp
  have "unat (ucast (of_nat (length payload) :: u16) :: u8) = length payload"
    using assms(1) by (simp add: unsigned_ucast_eq unat_of_nat_less take_bit_nat_eq_self)
  then show "receive_metadata (hw @ payload) = write_bytes 0 payload"
    unfolding hw by (intro ext) (simp add: receive_metadata_def)
qed

lemma put_twice:
  assumes "length hw = k" "k + length p \<le> 64"
  shows "take (k + length p) (put_at (put_at (zeros 64) 0 hw) k p) = hw @ p"
    "length (put_at (put_at (zeros 64) 0 hw) k p) = 64"
  using assms by (simp_all add: put_at_def)

lemma select_single_ok:
  assumes inv: "transfer_inv t" and nd: "\<not> mt_done t" and small: "length (mdata t) \<le> 60"
    and sel: "selectPacket t now = Inr R"
  shows "packet_ok t R"
proof -
  let ?n = "length (mdata t)"
  obtain hw where hw: "EncodeSinglePacketHeaderInto (zeros 4)
      \<lparr> h_DataClass = DataClassCommand, h_MessageNumber = 4, h_System = True,
        h_AcknowledgementRequested = False, h_ExpansionIndex = 0,
        h_Sequence = mt_sequence t, h_PayloadLength = of_nat ?n \<rparr> = (None, hw)"
    and R: "mr_wire R = put_at (put_at (zeros 64) 0 hw) 4 (mdata t)" "mr_size R = of_nat (4 + ?n)"
      "mr_post R = \<lparr> mp_offset = of_nat ?n, mp_sentEnd = of_nat ?n,
         mp_acknowledgedEnd = mt_acknowledgedEnd t,
         mp_finalAcknowledged = mt_finalAcknowledged t, mp_done = True \<rparr>"
    using sel small by (auto simp: selectPacket_def Let_def split: prod.splits option.splits)
  have size: "unat (mr_size R) = 4 + ?n"
    unfolding R(2) using small by (intro unat_of_nat_less) simp
  have off: "mt_offset t = 0" "mt_acknowledgedEnd t = 0" "0 < ?n"
    using inv nd small by (auto simp: transfer_inv_def)
  have post: "unat (of_nat ?n :: u16) = ?n" using small by (intro unat_of_nat_less) simp
  have "take (unat (mr_size R)) (mr_wire R) = hw @ mdata t" "length (mr_wire R) = 64"
    unfolding size R(1) using put_twice [OF single_received(1) [OF small hw]] small by simp_all
  then show ?thesis
    using single_received(2) [OF small hw] size off post R(3) small inv
    by (simp add: packet_ok_def transfer_inv_def)
qed

lemma select_complete_ok:
  assumes inv: "transfer_inv t" and big: "60 < length (mdata t)"
    and end_of_data: "unat (mt_offset t) = length (mdata t)"
    and sel: "selectPacket t now = Inr R"
  shows "packet_ok t R"
proof -
  have final: "mt_finalAcknowledged t" and R: "mr_wire R = put_at (zeros 64) 0
      (encodeMetadataCompleteHeader (mt_sequence t) (of_nat (length (mdata t))))"
      "mr_size R = 6" "mr_post R = \<lparr> mp_offset = mt_offset t, mp_sentEnd = mt_sentEnd t,
         mp_acknowledgedEnd = mt_acknowledgedEnd t,
         mp_finalAcknowledged = mt_finalAcknowledged t, mp_done = True \<rparr>"
    using sel big end_of_data by (auto simp: selectPacket_def Let_def split: if_splits)
  have "take 6 (mr_wire R) = encodeMetadataCompleteHeader (mt_sequence t) (of_nat (length (mdata t)))"
    "length (mr_wire R) = 64"
    unfolding R(1) by (simp_all add: put_at_def encodeMetadataCompleteHeader_def)
  then show ?thesis
    using complete_received R(2,3) inv big end_of_data final
    by (simp add: packet_ok_def transfer_inv_def slice_def fun_eq_iff)
qed

lemma select_fragment_ok:
  assumes inv: "transfer_inv t" and nd: "\<not> mt_done t" and big: "60 < length (mdata t)"
    and more: "unat (mt_offset t) \<noteq> length (mdata t)"
    and sel: "selectPacket t now = Inr R"
  shows "packet_ok t R"
proof -
  define n where "n = length (mdata t)"
  define a where "a = unat (mt_offset t)"
  define k where "k = (if n - a > 58 then 58 else n - a)"
  define p where "p = slice (mdata t) a (a + k)"
  have bounds: "a < n" "n \<le> 0x3fff" using inv more by (auto simp: transfer_inv_def n_def a_def)
  then have k: "0 < k" "k \<le> 58" "a + k \<le> n" by (auto simp: k_def)
  then have p: "p \<noteq> []" "length p = k" by (auto simp: p_def n_def slice_def)
  obtain ack init v where v: "v = (if init then of_nat n else of_nat a)" "init \<longleftrightarrow> a = 0"
    and R: "mr_wire R = put_at (put_at (zeros 64) 0
        (encodeMetadataFragmentHeader (mt_sequence t) (of_nat k) init ack v)) 6 p"
      "mr_size R = of_nat (6 + k)"
      "mr_post R = \<lparr> mp_offset = of_nat (a + k), mp_sentEnd = of_nat (a + k),
         mp_acknowledgedEnd = mt_acknowledgedEnd t,
         mp_finalAcknowledged = False, mp_done = mt_done t \<rparr>"
  proof -
    let ?kind = "if a = 0 then MetadataPacketInitialFragment
                    else if a + k = n then MetadataPacketFinalFragment
                    else MetadataPacketMiddleFragment"
    have "?kind = MetadataPacketInitialFragment \<longleftrightarrow> a = 0" by simp
    then show ?thesis
      using sel big more that [of "if a = 0 then of_nat n else of_nat a" "a = 0"
          "a = 0 \<or> a + k = n \<or> now \<ge> mt_nextACKRequestMS t"]
      by (simp add: selectPacket_def Let_def n_def a_def k_def p_def split: if_splits) fastforce+
  qed
  have size: "unat (mr_size R) = 6 + k"
    unfolding R(2) using k by (intro unat_of_nat_less) simp
  have post: "unat (of_nat (a + k) :: u16) = a + k"
    using k bounds by (intro unat_of_nat_less) simp
  have vn: "unat v \<le> 0x3fff" "(if init then 0 else unat v) = a"
    using v bounds by (auto simp: unat_of_nat_less)
  have hl: "length (encodeMetadataFragmentHeader (mt_sequence t) (of_nat k) init ack v) = 6"
    by (simp add: encodeMetadataFragmentHeader_def Let_def)
  have "take (unat (mr_size R)) (mr_wire R) =
      encodeMetadataFragmentHeader (mt_sequence t) (of_nat k) init ack v @ p"
    "length (mr_wire R) = 64"
    unfolding size R(1) using put_twice [OF hl, of p] p(2) k(2) by simp_all
  moreover have "receive_metadata
      (encodeMetadataFragmentHeader (mt_sequence t) (of_nat k) init ack v @ p) = write_bytes a p"
    using fragment_received [OF p(1) _ vn(1), of "mt_sequence t" init ack] p(2) k(2) vn(2) by simp
  moreover have "unat (mt_acknowledgedEnd t) < n" using inv bounds by (simp add: transfer_inv_def a_def)
  ultimately show ?thesis
    unfolding packet_ok_def using size R(3) post k nd inv big
    by (simp add: a_def [symmetric] n_def [symmetric] p_def transfer_inv_def)
qed

lemma select_ok:
  "transfer_inv t \<Longrightarrow> \<not> mt_done t \<Longrightarrow> selectPacket t now = Inr R \<Longrightarrow> packet_ok t R"
  using select_single_ok select_complete_ok select_fragment_ok not_le by blast

end
