(* ===== verification/Gip_Metadata_Runs.thy ===== *)
theory Gip_Metadata_Runs
  imports Gip_Metadata_Packets
begin

text \<open>
  What the metadata transfer guarantees: every operation keeps the invariant that ties the
  transfer to what the receiver got, and the properties that follow.
\<close>

section \<open>Every operation keeps the invariant\<close>

definition delivery_inv :: "bytes \<Rightarrow> MetadataTransfer \<Rightarrow> bytes \<Rightarrow> (nat \<rightharpoonup> u8) \<Rightarrow> bool" where
  "delivery_inv data t admitted m \<longleftrightarrow>
     mdata t = data \<and> transfer_inv t \<and>
     (mt_claimAdmitted t \<longrightarrow> admitted =
        take (unat (mr_size (mt_claimRecord t))) (mr_wire (mt_claimRecord t))) \<and>
     (\<forall>i < unat (mt_offset t). m i = Some (data ! i)) \<and>
     (\<forall>i x. m i = Some x \<longrightarrow> i < length data \<and> x = data ! i)"

definition metadata_inv :: "bytes \<Rightarrow> metadata_run \<Rightarrow> bool" where
  "metadata_inv data r \<longleftrightarrow>
     delivery_inv data (mrun_transfer r) (mrun_admitted r) (received r)"

lemma metadata_inv_update [simp]:
  "metadata_inv data (r\<lparr> mrun_transfer := t \<rparr>) \<longleftrightarrow> delivery_inv data t (mrun_admitted r) (received r)"
  by (simp add: metadata_inv_def received_def)

text \<open>The clock observation touches only the clock, the fault and the armed deadline.\<close>

definition clock_only :: "MetadataTransfer \<Rightarrow> MetadataTransfer \<Rightarrow> bool" where
  "clock_only t t' \<longleftrightarrow> mt_self t' = mt_self t \<and> mt_metadata t' = mt_metadata t \<and>
     mt_sequence t' = mt_sequence t \<and> mt_offset t' = mt_offset t \<and> mt_sentEnd t' = mt_sentEnd t \<and>
     mt_acknowledgedEnd t' = mt_acknowledgedEnd t \<and>
     mt_finalAcknowledged t' = mt_finalAcknowledged t \<and> mt_done t' = mt_done t \<and>
     mt_valid t' = mt_valid t \<and> mt_hasClaim t' = mt_hasClaim t \<and>
     mt_claimAdmitted t' = mt_claimAdmitted t \<and> mt_claimRecord t' = mt_claimRecord t \<and>
     mt_retryPending t' = mt_retryPending t \<and> mt_retryRecord t' = mt_retryRecord t"

lemma packet_ok_cong:
  "mt_metadata t' = mt_metadata t \<Longrightarrow> mt_offset t' = mt_offset t \<Longrightarrow>
   mt_acknowledgedEnd t' = mt_acknowledgedEnd t \<Longrightarrow> packet_ok t' R = packet_ok t R"
  by (simp add: packet_ok_def)

lemma transfer_inv_cong:
  assumes "mt_metadata t' = mt_metadata t" "mt_offset t' = mt_offset t" "mt_sentEnd t' = mt_sentEnd t"
    "mt_acknowledgedEnd t' = mt_acknowledgedEnd t" "mt_finalAcknowledged t' = mt_finalAcknowledged t"
    "mt_done t' = mt_done t" "mt_valid t' = mt_valid t" "mt_sequence t' = mt_sequence t"
    "mt_hasClaim t' = mt_hasClaim t" "mt_claimRecord t' = mt_claimRecord t"
    "mt_retryPending t' = mt_retryPending t" "mt_retryRecord t' = mt_retryRecord t"
  shows "transfer_inv t' = transfer_inv t"
  unfolding transfer_inv_def packet_ok_cong [OF assms(1,2,4)] assms by (rule refl)

lemma observe_clock_only: "observeAndCheckTimeout t now = (e, t') \<Longrightarrow> clock_only t t'"
  by (auto simp: observeAndCheckTimeout_def clock_only_def Let_def split: if_splits option.splits)

lemma clock_only_inv:
  assumes "clock_only t t'"
  shows "transfer_inv t' = transfer_inv t"
  using assms by (intro transfer_inv_cong) (auto simp: clock_only_def)

text \<open>A new state of the transfer over the same deliveries.\<close>

lemma delivery_inv_parts:
  assumes "delivery_inv data t adm m"
  shows "mdata t = data" "transfer_inv t"
    "mt_claimAdmitted t \<Longrightarrow> adm = take (unat (mr_size (mt_claimRecord t))) (mr_wire (mt_claimRecord t))"
    "\<forall>i < unat (mt_offset t). m i = Some (data ! i)"
    "\<forall>i x. m i = Some x \<longrightarrow> i < length data \<and> x = data ! i"
  using assms unfolding delivery_inv_def by blast+

lemma delivery_invI:
  assumes "mdata t = data" "transfer_inv t"
    "mt_claimAdmitted t \<Longrightarrow> adm = take (unat (mr_size (mt_claimRecord t))) (mr_wire (mt_claimRecord t))"
    "\<forall>i < unat (mt_offset t). m i = Some (data ! i)"
    "\<forall>i x. m i = Some x \<longrightarrow> i < length data \<and> x = data ! i"
  shows "delivery_inv data t adm m"
  using assms unfolding delivery_inv_def by blast

lemma delivery_inv_transfer:
  assumes "delivery_inv data t adm m" "transfer_inv t'" "mt_metadata t' = mt_metadata t"
    "unat (mt_offset t') \<le> unat (mt_offset t)"
    "mt_claimAdmitted t' \<Longrightarrow> mt_claimAdmitted t \<and> mt_claimRecord t' = mt_claimRecord t"
  shows "delivery_inv data t' adm m"
proof -
  note parts = delivery_inv_parts [OF assms(1)]
  show ?thesis
  proof (rule delivery_invI)
    show "mdata t' = data" using parts(1) assms(3) by simp
    show "adm = take (unat (mr_size (mt_claimRecord t'))) (mr_wire (mt_claimRecord t'))"
      if "mt_claimAdmitted t'" using assms(5) [OF that] parts(3) by simp
    show "\<forall>i < unat (mt_offset t'). m i = Some (data ! i)"
      using parts(4) assms(4) by (blast intro: order_less_le_trans)
  qed (fact assms(2), fact parts(5))
qed

lemma delivery_inv_D: "delivery_inv data t adm m \<Longrightarrow> transfer_inv t"
  by (simp add: delivery_inv_def)

lemma clock_only_delivery:
  assumes c: "clock_only t t'" and inv: "delivery_inv data t adm m"
  shows "delivery_inv data t' adm m"
proof (rule delivery_inv_transfer [OF inv])
  show "transfer_inv t'" using clock_only_inv [OF c] delivery_inv_D [OF inv] by simp
qed (use c in \<open>simp_all add: clock_only_def\<close>)

text \<open>Selecting a packet that carries the right bytes keeps the invariant.\<close>

lemma claimFromRecord_fields:
  assumes "claimFromRecord t R = (claim, t')"
  shows "mt_metadata t' = mt_metadata t" "mt_offset t' = mt_offset t" "mt_sentEnd t' = mt_sentEnd t"
    "mt_acknowledgedEnd t' = mt_acknowledgedEnd t" "mt_finalAcknowledged t' = mt_finalAcknowledged t"
    "mt_done t' = mt_done t" "mt_valid t' = mt_valid t" "mt_sequence t' = mt_sequence t"
    "mt_hasClaim t'" "\<not> mt_claimAdmitted t'" "mt_claimRecord t' = R"
    "mt_retryPending t' = mt_retryPending t" "mt_retryRecord t' = mt_retryRecord t"
  using assms by (auto simp: claimFromRecord_def metadata_nextClaimToken_def Let_def)

lemma claim_delivery:
  assumes inv: "delivery_inv data t adm m" and ok: "packet_ok t R" and nd: "\<not> mt_done t"
    and claim: "claimFromRecord t R = (claim, t')"
  shows "delivery_inv data (t'\<lparr> mt_retryPending := False \<rparr>) adm m"
proof -
  note f = claimFromRecord_fields [OF claim]
  let ?t = "t'\<lparr> mt_retryPending := False \<rparr>"
  have pk: "packet_ok ?t R" using ok f by (simp add: packet_ok_def)
  have "transfer_inv ?t"
    using delivery_inv_D [OF inv] pk nd f unfolding transfer_inv_def by simp
  then show ?thesis using f by (intro delivery_inv_transfer [OF inv]) simp_all
qed

lemma retry_not_pending: "\<not> mt_retryPending t \<Longrightarrow> t\<lparr> mt_retryPending := False \<rparr> = t"
  by (cases t) simp

lemma observe_delivery:
  "observeAndCheckTimeout t now = (e, t') \<Longrightarrow> delivery_inv data t adm m \<Longrightarrow> delivery_inv data t' adm m"
  by (rule clock_only_delivery [OF observe_clock_only])

lemma Claim_delivery:
  assumes inv: "delivery_inv data t adm m"
  shows "delivery_inv data (snd (metadata_Claim t now)) adm m"
proof -
  obtain e t1 where o: "observeAndCheckTimeout t now = (e, t1)" by (cases "observeAndCheckTimeout t now")
  have i1: "delivery_inv data t1 adm m" by (rule observe_delivery [OF o inv])
  show ?thesis
  proof (cases "e = None \<and> \<not> mt_hasClaim t1 \<and> \<not> mt_retryPending t1 \<and> \<not> mt_done t1 \<and>
      \<not> mt_ackDeadlineArmed t1 \<and> (\<exists>R. selectPacket t1 now = Inr R)")
    case True
    then obtain R where R: "selectPacket t1 now = Inr R" by blast
    obtain c t2 where c: "claimFromRecord t1 R = (c, t2)" by (cases "claimFromRecord t1 R")
    have "packet_ok t1 R" using select_ok [OF delivery_inv_D [OF i1]] True R by blast
    then have "delivery_inv data (t2\<lparr> mt_retryPending := False \<rparr>) adm m"
      using claim_delivery [OF i1 _ _ c] True by blast
    moreover have "\<not> mt_retryPending t2" using claimFromRecord_fields(12) [OF c] True by simp
    ultimately have "delivery_inv data t2 adm m" by (simp add: retry_not_pending)
    then show ?thesis using True R o c by (simp add: metadata_Claim_def)
  next
    case False
    then have "snd (metadata_Claim t now) = t1"
      using o by (auto simp: metadata_Claim_def split: option.splits sum.splits)
    then show ?thesis using i1 by simp
  qed
qed

lemma ClaimRetry_delivery:
  assumes inv: "delivery_inv data t adm m"
  shows "delivery_inv data (snd (metadata_ClaimRetry t now)) adm m"
proof -
  obtain e t1 where o: "observeAndCheckTimeout t now = (e, t1)" by (cases "observeAndCheckTimeout t now")
  have i1: "delivery_inv data t1 adm m" by (rule observe_delivery [OF o inv])
  show ?thesis
  proof (cases "e = None \<and> \<not> mt_hasClaim t1 \<and> mt_retryPending t1")
    case True
    obtain c t2 where c: "claimFromRecord t1 (mt_retryRecord t1) = (c, t2)"
      by (cases "claimFromRecord t1 (mt_retryRecord t1)")
    have "packet_ok t1 (mt_retryRecord t1)" "\<not> mt_done t1"
      using delivery_inv_D [OF i1] True by (simp_all add: transfer_inv_def)
    then have "delivery_inv data (t2\<lparr> mt_retryPending := False \<rparr>) adm m"
      using claim_delivery [OF i1 _ _ c] by blast
    then show ?thesis using True o c by (simp add: metadata_ClaimRetry_def)
  next
    case False
    then have "snd (metadata_ClaimRetry t now) = t1"
      using o by (auto simp: metadata_ClaimRetry_def split: option.splits)
    then show ?thesis using i1 by simp
  qed
qed

text \<open>Asking for an acknowledgement on a fragment does not change what the fragment carries.\<close>

lemma request_ack_received:
  assumes "length w = 64" "4 \<le> n" "n \<le> 64"
  shows "receive_metadata (take n (w[1 := w ! 1 OR flagAcknowledge])) = receive_metadata (take n w)"
proof -
  have "(b OR flagAcknowledge) AND flagFragment = b AND flagFragment"
    "(b OR flagAcknowledge) AND flagInitFragment = b AND flagInitFragment" for b :: u8
  proof -
    have "flagAcknowledge AND flagFragment = 0" "flagAcknowledge AND flagInitFragment = 0" by simp_all
    then show "(b OR flagAcknowledge) AND flagFragment = b AND flagFragment"
      "(b OR flagAcknowledge) AND flagInitFragment = b AND flagInitFragment"
      by (simp_all only: and.commute [of _ "flagFragment"] and.commute [of _ "flagInitFragment"]
          bit.conj_disj_distrib or.right_neutral)
  qed
  then show ?thesis using assms
    by (intro ext) (simp add: receive_metadata_def fragment_value_def take_update_swap)
qed

lemma metadata_valid_claim: "metadata_validateClaim t claim = None \<Longrightarrow> mt_hasClaim t"
  by (auto simp: metadata_validateClaim_def split: if_splits)

lemma packet_ok_request_ack:
  assumes "packet_ok t R"
  shows "packet_ok t (R\<lparr> mr_acknowledgement := True,
    mr_wire := (mr_wire R)[1 := mr_wire R ! 1 OR flagAcknowledge] \<rparr>)"
  using assms request_ack_received [of "mr_wire R" "unat (mr_size R)"] by (simp add: packet_ok_def)

lemma Admit_delivery:
  assumes inv: "delivery_inv data t adm m"
  shows "(\<forall>e dst' t'. AdmitAndCopy t claim dst now = (Inl e, dst', t') \<longrightarrow> delivery_inv data t' adm m) \<and>
    (\<forall>a dst' t'. AdmitAndCopy t claim dst now = (Inr a, dst', t') \<longrightarrow>
       delivery_inv data t' (take (unat (ma_size a)) dst') m)"
proof -
  obtain e t1 where o: "observeAndCheckTimeout t now = (e, t1)" by (cases "observeAndCheckTimeout t now")
  have i1: "delivery_inv data t1 adm m" by (rule observe_delivery [OF o inv])
  have same: "mt_claimRecord t1 = mt_claimRecord t" "mt_hasClaim t1 = mt_hasClaim t"
    using observe_clock_only [OF o] by (simp_all add: clock_only_def)
  show ?thesis
  proof (cases "metadata_validateClaim t claim = None \<and> \<not> mt_claimAdmitted t \<and>
      \<not> length dst < unat (mr_size (mt_claimRecord t)) \<and> e = None")
    case False
    then show ?thesis using o inv i1
      by (auto simp: AdmitAndCopy_def Let_def split: option.splits if_splits)
  next
    case True
    define R where "R = mt_claimRecord t1"
    define R' where "R' = (if mr_kind R = MetadataPacketMiddleFragment \<and>
        \<not> mr_acknowledgement R \<and> now \<ge> mt_nextACKRequestMS t1
      then R\<lparr> mr_acknowledgement := True, mr_wire := (mr_wire R)[1 := mr_wire R ! 1 OR flagAcknowledge] \<rparr>
      else R)"
    define t2 where "t2 = t1\<lparr> mt_claimRecord := R', mt_claimAdmitted := True, mt_claimAdmittedAtMS := now \<rparr>"
    have "mt_hasClaim t1" using True metadata_valid_claim same by blast
    then have ok: "packet_ok t1 R" using delivery_inv_D [OF i1] by (simp add: transfer_inv_def R_def)
    then have ok': "packet_ok t1 R'" using packet_ok_request_ack by (simp add: R'_def)
    have size: "mr_size R' = mr_size R" by (simp add: R'_def)
    have res: "AdmitAndCopy t claim dst now =
        (Inr \<lparr> ma_size = mr_size R', ma_kind = mr_kind R', ma_acknowledgement = mr_acknowledgement R' \<rparr>,
         take (unat (mr_size R')) (mr_wire R') @ drop (unat (mr_size R')) dst, t2)"
      using True o by (simp add: AdmitAndCopy_def Let_def R_def R'_def t2_def)
    have fits: "unat (mr_size R') \<le> length (mr_wire R')" using ok' by (simp add: packet_ok_def)
    have t2: "mt_metadata t2 = mt_metadata t1" "mt_offset t2 = mt_offset t1"
      "mt_sentEnd t2 = mt_sentEnd t1" "mt_acknowledgedEnd t2 = mt_acknowledgedEnd t1"
      "mt_finalAcknowledged t2 = mt_finalAcknowledged t1" "mt_done t2 = mt_done t1"
      "mt_valid t2 = mt_valid t1" "mt_sequence t2 = mt_sequence t1" "mt_hasClaim t2 = mt_hasClaim t1"
      "mt_claimRecord t2 = R'" "mt_retryPending t2 = mt_retryPending t1"
      by (simp_all add: t2_def)
    have "packet_ok t2 R'" using ok' t2 packet_ok_cong by blast
    then have "transfer_inv t2"
      using delivery_inv_D [OF i1] \<open>mt_hasClaim t1\<close> t2 unfolding transfer_inv_def by simp blast
    then have "delivery_inv data t2 (take (unat (mr_size R')) (mr_wire R')) m"
    proof (rule delivery_invI [rotated])
      show "mdata t2 = data" using delivery_inv_parts(1) [OF i1] t2(1) by simp
      show "\<forall>i < unat (mt_offset t2). m i = Some (data ! i)"
        using delivery_inv_parts(4) [OF i1] t2(2) by simp
    qed (use delivery_inv_parts(5) [OF i1] t2(10) in \<open>simp only:\<close>)+
    then show ?thesis unfolding res using fits by auto
  qed
qed

lemma written_prefix:
  assumes "\<forall>i<a. m i = Some (data ! i)" "a \<le> b" "b \<le> length data"
  shows "\<forall>i<b. write_bytes a (slice data a b) m i = Some (data ! i)"
  using assms by (auto simp: write_bytes_def slice_def)

lemma written_correct:
  assumes "\<forall>i x. m i = Some x \<longrightarrow> i < length data \<and> x = data ! i" "a \<le> b" "b \<le> length data"
  shows "\<forall>i x. write_bytes a (slice data a b) m i = Some x \<longrightarrow> i < length data \<and> x = data ! i"
  using assms by (auto simp: write_bytes_def slice_def split: if_splits)

lemma Resolve_delivery:
  assumes inv: "delivery_inv data t adm m"
    and res: "metadata_Resolve t claim outcome now = (err, t')"
  shows "delivery_inv data t' adm
    (if err = None \<and> outcome = MetadataPacketDelivered then receive_metadata adm m else m)"
proof (cases "err = None")
  case False
  then have "t' = t" using res
    by (auto simp: metadata_Resolve_def Let_def split: option.splits if_splits)
  then show ?thesis using inv False by auto
next
  case True
  then have valid: "metadata_validateClaim t claim = None" and has: "mt_hasClaim t"
    using res metadata_valid_claim by (auto simp: metadata_Resolve_def split: option.splits)
  define R where "R = mt_claimRecord t"
  have ti: "transfer_inv t" by (rule delivery_inv_D [OF inv])
  then have ok: "packet_ok t R" and nd: "\<not> mt_done t" and nr: "\<not> mt_retryPending t"
    using has by (simp_all add: transfer_inv_def R_def)
  show ?thesis
  proof (cases "outcome = MetadataPacketDelivered")
    case False
    then have t': "mt_metadata t' = mt_metadata t" "mt_offset t' = mt_offset t"
      "mt_sentEnd t' = mt_sentEnd t" "mt_acknowledgedEnd t' = mt_acknowledgedEnd t"
      "mt_finalAcknowledged t' = mt_finalAcknowledged t" "mt_done t' = mt_done t"
      "mt_valid t' = mt_valid t" "mt_sequence t' = mt_sequence t" "\<not> mt_hasClaim t'"
      "\<not> mt_claimAdmitted t'" "mt_retryPending t'" "mt_retryRecord t' = R"
      using res True valid
      by (auto simp: metadata_Resolve_def Let_def metadata_clearClaim_def R_def split: if_splits)
    have "packet_ok t' R" using ok t' packet_ok_cong by blast
    then have "transfer_inv t'" using ti nd t' unfolding transfer_inv_def by simp
    then have "delivery_inv data t' adm m"
      by (rule delivery_inv_transfer [OF inv]) (use t' in simp_all)
    then show ?thesis using False by simp
  next
    case delivered: True
    have adm: "mt_claimAdmitted t" and t': "mt_metadata t' = mt_metadata t"
      "mt_offset t' = mp_offset (mr_post R)" "mt_sentEnd t' = mp_sentEnd (mr_post R)"
      "mt_acknowledgedEnd t' = mp_acknowledgedEnd (mr_post R)"
      "mt_finalAcknowledged t' = mp_finalAcknowledged (mr_post R)" "mt_done t' = mp_done (mr_post R)"
      "mt_valid t' = mt_valid t" "mt_sequence t' = mt_sequence t" "\<not> mt_hasClaim t'"
      "\<not> mt_claimAdmitted t'" "\<not> mt_retryPending t'"
      using res True valid delivered nr
      by (auto simp: metadata_Resolve_def Let_def metadata_clearClaim_def R_def split: if_splits)
    have "adm = take (unat (mr_size R)) (mr_wire R)"
      using delivery_inv_parts(3) [OF inv adm] by (simp add: R_def)
    then have recv: "receive_metadata adm m = write_bytes (unat (mt_offset t))
        (slice data (unat (mt_offset t)) (unat (mp_offset (mr_post R)))) m"
      using ok delivery_inv_parts(1) [OF inv] by (simp add: packet_ok_def)
    have bounds: "unat (mt_offset t) \<le> unat (mp_offset (mr_post R))"
      "unat (mp_offset (mr_post R)) \<le> length data"
      using ok delivery_inv_parts(1) [OF inv] by (simp_all add: packet_ok_def)
    have "transfer_inv t'"
      using ti ok t' nd unfolding transfer_inv_def packet_ok_def by auto
    moreover have "\<forall>i<unat (mt_offset t'). receive_metadata adm m i = Some (data ! i)"
      unfolding recv t'(2) by (rule written_prefix [OF delivery_inv_parts(4) [OF inv] bounds])
    moreover have "\<forall>i x. receive_metadata adm m i = Some x \<longrightarrow> i < length data \<and> x = data ! i"
      unfolding recv by (rule written_correct [OF delivery_inv_parts(5) [OF inv] bounds])
    moreover have "mdata t' = data" using delivery_inv_parts(1) [OF inv] t'(1) by simp
    ultimately have "delivery_inv data t' adm (receive_metadata adm m)"
      using t'(10) by (intro delivery_invI) blast+
    then show ?thesis using True delivered by simp
  qed
qed

lemma valid_acknowledgement:
  assumes "validateAcknowledgement t ack = Inr d"
  shows "\<not> mt_claimAdmitted t" "60 < length (mdata t)" "\<not> mt_done t"
    "mt_acknowledgedEnd t \<le> ra_ContiguousPayloadBytes ack"
    "ra_ContiguousPayloadBytes ack \<le> mt_sentEnd t"
    "unat (ra_ContiguousPayloadBytes ack) \<le> length (mdata t)"
    "d = ReliableAcknowledgementRewind \<longleftrightarrow> ra_ContiguousPayloadBytes ack < mt_offset t"
  using assms by (auto simp: validateAcknowledgement_def split: if_splits)

lemma Acknowledge_delivery:
  assumes inv: "delivery_inv data t adm m"
  shows "delivery_inv data (snd (metadata_Acknowledge t ack now)) adm m"
proof -
  obtain e t1 where o: "observeAndCheckTimeout t now = (e, t1)" by (cases "observeAndCheckTimeout t now")
  have i1: "delivery_inv data t1 adm m" by (rule observe_delivery [OF o inv])
  show ?thesis
  proof (cases "e = None \<and> (\<exists>d. validateAcknowledgement t1 ack = Inr d)")
    case False
    then have "snd (metadata_Acknowledge t ack now) = t1"
      using o by (auto simp: metadata_Acknowledge_def split: option.splits sum.splits)
    then show ?thesis using i1 by simp
  next
    case True
    then obtain d where d: "e = None" "validateAcknowledgement t1 ack = Inr d" by blast
    note v = valid_acknowledgement [OF d(2)]
    have ti: "transfer_inv t1" by (rule delivery_inv_D [OF i1])
    define t' where "t' = snd (metadata_Acknowledge t ack now)"
    define c where "c = ra_ContiguousPayloadBytes ack"
    show ?thesis
    proof (cases "d = ReliableAcknowledgementRewind")
      case True
      have t': "mt_metadata t' = mt_metadata t1" "mt_offset t' = c" "mt_sentEnd t' = c"
        "mt_acknowledgedEnd t' = c" "mt_finalAcknowledged t' = (unat c = length (mdata t1))"
        "mt_done t' = mt_done t1" "mt_valid t' = mt_valid t1" "mt_sequence t' = mt_sequence t1"
        "\<not> mt_hasClaim t'" "\<not> mt_claimAdmitted t'" "\<not> mt_retryPending t'"
        using o d True v(1)
        by (auto simp: t'_def c_def metadata_Acknowledge_def Let_def metadata_clearClaim_def)
      have "unat c \<le> unat (mt_offset t1)" using v(7) True by (simp add: c_def word_less_nat_alt)
      moreover have "transfer_inv t'"
        using ti t' v unfolding transfer_inv_def c_def by simp
      ultimately show ?thesis
        unfolding t'_def [symmetric] using t' by (intro delivery_inv_transfer [OF i1]) simp_all
    next
      case False
      then have c: "c = mt_offset t1"
        using v(5,7) ti by (simp add: transfer_inv_def c_def)
      have t': "mt_metadata t' = mt_metadata t1" "mt_offset t' = mt_offset t1"
        "mt_sentEnd t' = mt_sentEnd t1" "mt_acknowledgedEnd t' = c"
        "mt_finalAcknowledged t' = (unat c = length (mdata t1))"
        "mt_done t' = mt_done t1" "mt_valid t' = mt_valid t1" "mt_sequence t' = mt_sequence t1"
        "mt_hasClaim t' = mt_hasClaim t1" "mt_retryPending t' = mt_retryPending t1"
        "\<not> mt_claimAdmitted t'"
        "mt_hasClaim t1 \<Longrightarrow> mt_claimRecord t' = keep_progress t' (mt_claimRecord t1)"
        "mt_retryPending t1 \<Longrightarrow> mt_retryRecord t' = keep_progress t' (mt_retryRecord t1)"
        using o d False v(1)
        by (auto simp: t'_def c_def metadata_Acknowledge_def Let_def keep_progress_def)
      have keep: "packet_ok t' (keep_progress t' R)" if "packet_ok t1 R" for R
      proof -
        have "unat c = length (mdata t1)" if "mp_done (mr_post R)"
        proof -
          have "unat (mt_acknowledgedEnd t1) = length (mdata t1)"
            using \<open>packet_ok t1 R\<close> that v(2) unfolding packet_ok_def by blast
          moreover have "unat (mt_acknowledgedEnd t1) \<le> unat c" "unat c \<le> length (mdata t1)"
            using v(4,6) by (simp_all add: c_def word_le_nat_alt)
          ultimately show ?thesis by simp
        qed
        then show ?thesis using that t'(1,2,4,5) by (simp add: packet_ok_def keep_progress_def)
      qed
      have "transfer_inv t'"
        using ti t' v c keep unfolding transfer_inv_def by auto
      then show ?thesis
        unfolding t'_def [symmetric] using t' by (intro delivery_inv_transfer [OF i1]) simp_all
    qed
  qed
qed

lemma fresh_transfer_inv:
  assumes "s \<noteq> 0" "0 < length (md_data md)" "length (md_data md) \<le> 0x3fff"
  shows "delivery_inv (md_data md) (fresh_transfer self md s g e now token) adm Map.empty"
  using assms by (auto simp: delivery_inv_def transfer_inv_def fresh_transfer_def)

lemma Reset_delivery:
  assumes inv: "delivery_inv data t adm m" and res: "metadata_Reset t s g e now = (err, t')"
  shows "delivery_inv data t' adm (if err = None then Map.empty else m)"
proof (cases "err = None")
  case True
  then have t': "t' = fresh_transfer (mt_self t) (mt_metadata t) s g e now (mt_nextToken t)" "s \<noteq> 0"
    using res by (auto simp: metadata_Reset_def split: if_splits option.splits)
  show ?thesis
    using fresh_transfer_inv [OF t'(2), of "mt_metadata t"] delivery_inv_parts(1,2) [OF inv] True
    by (simp add: t'(1) transfer_inv_def)
next
  case False
  then have "t' = t" using res by (auto simp: metadata_Reset_def split: if_splits option.splits)
  then show ?thesis using inv False by auto
qed

lemma metadata_step_inv: "metadata_inv data r \<Longrightarrow> metadata_inv data (metadata_step op r)"
proof -
  assume "metadata_inv data r"
  then have inv: "delivery_inv data (mrun_transfer r) (mrun_admitted r) (received r)"
    by (simp add: metadata_inv_def)
  show ?thesis
  proof (cases op)
    case (OpMetadataAdmit claim dst now)
    then show ?thesis
      using Admit_delivery [OF inv, of claim dst now]
      by (auto simp: metadata_inv_def received_def split: prod.splits sum.splits)
  next
    case (OpMetadataResolve claim outcome now)
    obtain err t' where res: "metadata_Resolve (mrun_transfer r) claim outcome now = (err, t')"
      by (cases "metadata_Resolve (mrun_transfer r) claim outcome now")
    show ?thesis
      using Resolve_delivery [OF inv res] res OpMetadataResolve
      by (cases err) (auto simp: metadata_inv_def received_def)
  next
    case (OpMetadataReset s g e now)
    obtain err t' where res: "metadata_Reset (mrun_transfer r) s g e now = (err, t')"
      by (cases "metadata_Reset (mrun_transfer r) s g e now")
    show ?thesis
      using Reset_delivery [OF inv res] res OpMetadataReset
      by (cases err) (auto simp: metadata_inv_def received_def)
  next
    case (OpMetadataPoll now)
    then show ?thesis
      using observe_delivery [OF prod.collapse [symmetric] inv] by (simp add: metadata_Poll_def)
  qed (simp_all add: Claim_delivery [OF inv] ClaimRetry_delivery [OF inv] Acknowledge_delivery [OF inv])
qed

lemma NewMetadataTransfer_inv:
  assumes "NewMetadataTransfer self profile md s g e now = Inr t"
  shows "metadata_inv (md_data md) (metadata_start t)"
  using assms fresh_transfer_inv [of s md self g e now 0 "[]"]
  by (auto simp: NewMetadataTransfer_def metadata_inv_def metadata_start_def received_def
      split: option.splits if_splits)

interpretation metadata_machine: op_invariant metadata_step "metadata_inv data" for data
  by unfold_locales (rule metadata_step_inv)

lemma metadata_runs_inv:
  "NewMetadataTransfer self profile md s g e now = Inr t \<Longrightarrow>
   metadata_inv (md_data md) (fold metadata_step ops (metadata_start t))"
  by (intro metadata_machine.inv_fold NewMetadataTransfer_inv)

lemma metadata_inv_facts:
  assumes "metadata_inv data r"
  shows "mt_sentEnd (mrun_transfer r) = mt_offset (mrun_transfer r)"
    "unat (mt_offset (mrun_transfer r)) \<le> length data"
    "unat (mt_acknowledgedEnd (mrun_transfer r)) \<le> unat (mt_offset (mrun_transfer r))"
    "mt_done (mrun_transfer r) \<Longrightarrow> unat (mt_offset (mrun_transfer r)) = length data \<and>
        (60 < length data \<longrightarrow> unat (mt_acknowledgedEnd (mrun_transfer r)) = length data)"
  using delivery_inv_parts(1,2) [OF assms [unfolded metadata_inv_def]]
  unfolding transfer_inv_def by auto

lemma metadata_done_received:
  assumes "metadata_inv data r" "mt_done (mrun_transfer r)"
  shows "map (received r) [0..<length data] = map Some data"
  using delivery_inv_parts(4) [OF assms(1) [unfolded metadata_inv_def]]
    metadata_inv_facts(4) [OF assms]
  by (intro nth_equalityI) simp_all

section \<open>Properties\<close>

text \<open>C18: let a metadata transfer be driven by any sequence of claims, retries, admissions,
  resolutions, acknowledgements, polls and resets, with claims and acknowledgements of any origin.
  Then the packets delivered since the start or the last reset carry, at the offsets their headers
  name, only bytes of the metadata and all of the bytes below the transfer's offset; the
  acknowledged progress never passes what was sent; and when the transfer says it is done, the
  receiver has the whole metadata, acknowledged to the last byte if it needed fragments.\<close>

theorem metadata_reassembles:
  assumes "NewMetadataTransfer self profile md s g e now = Inr t0"
    and "r = fold metadata_step ops (metadata_start t0)"
  shows "(\<forall>i x. received r i = Some x \<longrightarrow> i < length (md_data md) \<and> x = md_data md ! i) \<and>
    (\<forall>i < unat (mt_offset (mrun_transfer r)). received r i = Some (md_data md ! i)) \<and>
    unat (mt_acknowledgedEnd (mrun_transfer r)) \<le> unat (mt_sentEnd (mrun_transfer r)) \<and>
    mt_sentEnd (mrun_transfer r) = mt_offset (mrun_transfer r) \<and>
    unat (mt_offset (mrun_transfer r)) \<le> length (md_data md) \<and>
    (mt_done (mrun_transfer r) \<longrightarrow>
       map (received r) [0..<length (md_data md)] = map Some (md_data md) \<and>
       (60 < length (md_data md) \<longrightarrow>
          unat (mt_acknowledgedEnd (mrun_transfer r)) = length (md_data md)))"
proof -
  have inv: "metadata_inv (md_data md) r" using metadata_runs_inv [OF assms(1)] assms(2) by simp
  note parts = delivery_inv_parts [OF inv [unfolded metadata_inv_def]]
  show ?thesis
    using parts(4,5) metadata_inv_facts [OF inv] metadata_done_received [OF inv]
    by (intro conjI) (assumption | simp)+
qed

text \<open>A profile and a piece of metadata that the constructors accept.\<close>

definition example_profile :: UnregisteredControllerProfile where
  "example_profile =
     \<lparr> prof_identity = \<lparr> ci_VendorID = 0x1209, ci_ProductID = 0x0001, ci_DeviceReleaseBCD = 0x0100,
         ci_DeviceID = 0x0000fffb00000001,
         ci_Firmware = \<lparr> fw_Major = 1, fw_Minor = 0, fw_Build = 0, fw_Revision = 0 \<rparr>,
         ci_HardwareMajor = 1, ci_HardwareMinor = 0 \<rparr>,
       prof_usb = \<lparr> usb_MaxPower2mA = 250, usb_OUTIntervalMS = 4, usb_INIntervalMS = 4 \<rparr>,
       prof_issuance = Some (7, 1), prof_valid = True \<rparr>"

definition example_metadata :: "bytes \<Rightarrow> BoundCompiledMetadata" where
  "example_metadata blob =
     \<lparr> md_identity = prof_identity example_profile, md_profileIssuance = prof_issuance example_profile,
       md_issuance = Some 1, md_data = blob, md_officialGamepadVariant = 0, md_valid = True \<rparr>"

lemma example_transfer:
  "NewMetadataTransfer 9 example_profile (example_metadata [0xab, 0xcd]) 5 1 1 10 =
     Inr (fresh_transfer 9 (example_metadata [0xab, 0xcd]) 5 1 1 10 0)"
  by code_simp

definition example_claim :: MetadataPacketClaim where
  "example_claim = \<lparr> mc_owner = Some 9, mc_token = 1, mc_transferGeneration = 1,
     mc_transferEpoch = 1, mc_messageNumber = 4, mc_sequence = 5, mc_kind = MetadataPacketSingle,
     mc_size = 6, mc_selectedACME = False, mc_selectedAtMS = 10 \<rparr>"

definition example_run :: metadata_run where
  "example_run = fold metadata_step
     [OpMetadataClaim 10, OpMetadataAdmit example_claim (zeros 64) 11,
      OpMetadataResolve example_claim MetadataPacketDelivered 12]
     (metadata_start (fresh_transfer 9 (example_metadata [0xab, 0xcd]) 5 1 1 10 0))"

theorem metadata_reassembles_witness:
  "mt_done (mrun_transfer example_run) \<and>
   map (received example_run) [0..<2] = [Some 0xab, Some 0xcd]"
proof -
  have d: "mt_done (mrun_transfer example_run)" by code_simp
  show ?thesis
    using metadata_reassembles [OF example_transfer example_run_def] d
    by (simp add: example_metadata_def numeral_2_eq_2)
qed

end
