(* ===== verification/Gip_Metadata_Liveness.thy ===== *)
theory Gip_Metadata_Liveness
  imports Gip_Metadata_Runs
begin

text \<open>
  The metadata transfer ends: when each packet is claimed, admitted and delivered, and the receiver
  acknowledges what it has before the deadline whenever an acknowledgement is pending, a bounded
  number of exchanges makes the transfer done. The exchanges are made of the operations of
  \<open>Gip_Metadata\<close>, each at its own time of a clock that moves on.
\<close>

section \<open>One exchange\<close>

text \<open>The packet is claimed, copied to a 64-byte transfer buffer and reported delivered; then the
  acknowledgement the transfer waits for, if any, arrives. Each of the four happens at a time of its
  own.\<close>

record exchange_times =
  et_claim :: u64
  et_admit :: u64
  et_deliver :: u64
  et_ack :: u64

definition metadata_exchange :: "exchange_times \<Rightarrow> metadata_run \<Rightarrow> metadata_run" where
  "metadata_exchange x r =
     (let r1 = metadata_step (OpMetadataClaim (et_claim x)) r in
      case fst (metadata_Claim (mrun_transfer r) (et_claim x)) of
        Inl e \<Rightarrow> r1
      | Inr claim \<Rightarrow>
          let r2 = metadata_step (OpMetadataAdmit claim (zeros 64) (et_admit x)) r1;
              r3 = metadata_step (OpMetadataResolve claim MetadataPacketDelivered (et_deliver x)) r2
          in case PendingAcknowledgement (mrun_transfer r3) of
               None \<Rightarrow> r3
             | Some ack \<Rightarrow> metadata_step (OpMetadataAck ack (et_ack x)) r3)"

text \<open>The times of an exchange are in order, and the acknowledgement comes less than one second,
  \<^verbatim>\<open>ReliableACKTimeoutMilliseconds\<close>, after the delivery. The last value of the 64-bit clock is left
  out: deadlines saturate there and have passed at once. In a schedule the clock never goes back.\<close>

definition timely :: "exchange_times \<Rightarrow> bool" where
  "timely x \<longleftrightarrow> et_claim x \<le> et_admit x \<and> et_admit x \<le> et_deliver x \<and> et_deliver x \<le> et_ack x \<and>
     et_ack x - et_deliver x < ReliableACKTimeoutMilliseconds \<and> et_ack x < NOT 0"

fun schedule :: "u64 \<Rightarrow> exchange_times list \<Rightarrow> bool" where
  "schedule now [] = True"
| "schedule now (x # xs) = (now \<le> et_claim x \<and> timely x \<and> schedule (et_ack x) xs)"

lemma metadata_exchange_inv: "metadata_inv data r \<Longrightarrow> metadata_inv data (metadata_exchange x r)"
  by (simp add: metadata_exchange_def Let_def metadata_step_inv del: metadata_step.simps
      split: sum.split option.split)

text \<open>Between exchanges the transfer is at rest: nothing is claimed, to be retried or awaited.\<close>

definition at_rest :: "u64 \<Rightarrow> MetadataTransfer \<Rightarrow> bool" where
  "at_rest now t \<longleftrightarrow>
     \<not> mt_faulted t \<and> \<not> mt_hasClaim t \<and> \<not> mt_retryPending t \<and> \<not> mt_ackDeadlineArmed t \<and>
     mt_lastNowMS t \<le> now \<and>
     (60 < length (mdata t) \<and> unat (mt_offset t) = length (mdata t) \<longrightarrow> mt_finalAcknowledged t)"

text \<open>What the selection proposes.\<close>

definition proposes :: "MetadataTransfer \<Rightarrow> metadataPacketRecord \<Rightarrow> bool" where
  "proposes t R \<longleftrightarrow> unat (mr_size R) \<le> 64 \<and>
     (if length (mdata t) \<le> 60 \<or> unat (mt_offset t) = length (mdata t)
      then mp_done (mr_post R) \<and> \<not> mr_acknowledgement R \<and> mr_kind R \<noteq> MetadataPacketMiddleFragment
      else \<not> mp_done (mr_post R) \<and>
        unat (mp_offset (mr_post R)) = min (length (mdata t)) (unat (mt_offset t) + 58) \<and>
        (mr_acknowledgement R \<or> unat (mp_offset (mr_post R)) < length (mdata t)))"

lemma select_next:
  assumes inv: "transfer_inv t" and rest: "at_rest now t" and nd: "\<not> mt_done t"
  shows "\<exists>R. selectPacket t now = Inr R \<and> proposes t R"
proof -
  let ?n = "length (mdata t)" and ?a = "unat (mt_offset t)"
  have facts: "0 < ?n" "?n \<le> 0x3fff" "?a \<le> ?n" "mt_sequence t \<noteq> 0"
    using inv by (auto simp: transfer_inv_def)
  consider "?n \<le> 60" | "60 < ?n" "?a = ?n" | "60 < ?n" "?a < ?n" using facts by linarith
  then show ?thesis
  proof cases
    case 1
    have "unat (of_nat ?n :: u16) = ?n" "unat (of_nat (4 + ?n) :: u8) = 4 + ?n"
      using 1 by (intro unat_of_nat_less; simp)+
    then show ?thesis
      using 1 facts
      by (auto simp: selectPacket_def proposes_def Let_def gip_header.enc_eq
          SinglePacketHeader_Validate_def word_less_nat_alt split: prod.splits option.splits)
  next
    case 2
    then show ?thesis using rest by (auto simp: selectPacket_def proposes_def Let_def at_rest_def)
  next
    case 3
    define k where "k = (if ?n - ?a > 58 then 58 else ?n - ?a)"
    have k: "k \<le> 58" "?a + k \<le> ?n" "?a + k = min ?n (?a + 58)" using 3 by (auto simp: k_def)
    have "unat (of_nat (?a + k) :: u16) = ?a + k" "unat (of_nat (6 + k) :: u8) = 6 + k"
      using k facts by (intro unat_of_nat_less; simp)+
    then have "unat (mt_offset t + of_nat k) = ?a + k" "unat (6 + of_nat k :: u8) = 6 + k" by simp_all
    then show ?thesis
      using 3 k(1,2) facts nd
      by (auto simp: selectPacket_def Let_def proposes_def k_def [symmetric] k(3) [symmetric])
  qed
qed

section \<open>Its stages\<close>

lemma nextClaimToken_nonzero:
  "\<exists>token. metadata_nextClaimToken t = (token, t\<lparr> mt_nextToken := token \<rparr>) \<and> token \<noteq> 0"
  by (simp add: metadata_nextClaimToken_def Let_def)

lemma claimFromRecord_valid:
  assumes "claimFromRecord t R = (claim, t1)"
  shows "metadata_validateClaim t1 claim = None" "mt_claimRecord t1 = R" "\<not> mt_claimAdmitted t1"
    "mt_hasClaim t1" "mt_valid t1 = mt_valid t" "mt_faulted t1 = mt_faulted t"
    "mt_lastNowMS t1 = mt_lastNowMS t" "mt_ackDeadlineArmed t1 = mt_ackDeadlineArmed t"
    "mt_metadata t1 = mt_metadata t" "mt_retryPending t1 = mt_retryPending t"
proof -
  obtain token where "metadata_nextClaimToken t = (token, t\<lparr> mt_nextToken := token \<rparr>)" "token \<noteq> 0"
    using nextClaimToken_nonzero by blast
  then have "claim = \<lparr> mc_owner = Some (mt_self t), mc_token = token,
      mc_transferGeneration = mt_generation t, mc_transferEpoch = mt_transferEpoch t,
      mc_messageNumber = 4, mc_sequence = mt_sequence t, mc_kind = mr_kind R,
      mc_size = mr_size R, mc_selectedACME = mr_acknowledgement R,
      mc_selectedAtMS = mr_selectedAtMS R \<rparr>"
    and "t1 = t\<lparr> mt_nextToken := token, mt_hasClaim := True, mt_claimAdmitted := False,
      mt_claimAdmittedAtMS := 0, mt_claimToken := token, mt_claimRecord := R \<rparr>" and "token \<noteq> 0"
    using assms by (simp_all add: claimFromRecord_def)
  then show "metadata_validateClaim t1 claim = None" "mt_claimRecord t1 = R" "\<not> mt_claimAdmitted t1"
    "mt_hasClaim t1" "mt_valid t1 = mt_valid t" "mt_faulted t1 = mt_faulted t"
    "mt_lastNowMS t1 = mt_lastNowMS t" "mt_ackDeadlineArmed t1 = mt_ackDeadlineArmed t"
    "mt_metadata t1 = mt_metadata t" "mt_retryPending t1 = mt_retryPending t"
    by (simp_all add: metadata_validateClaim_def)
qed

lemma observe_in_time:
  assumes "mt_valid t" "\<not> mt_faulted t" "mt_lastNowMS t \<le> now"
    "mt_ackDeadlineArmed t \<Longrightarrow> now < mt_ackDeadlineMS t"
  shows "observeAndCheckTimeout t now = (None, t\<lparr> mt_lastNowMS := now \<rparr>)"
  using assms by (auto simp: observeAndCheckTimeout_def metadata_validateClock_def Let_def not_less)

lemma admit_claimed:
  assumes c: "metadata_validateClaim t claim = None" "\<not> mt_claimAdmitted t"
    and t: "mt_valid t" "\<not> mt_faulted t" "mt_lastNowMS t \<le> now" "\<not> mt_ackDeadlineArmed t"
    and size: "unat (mr_size (mt_claimRecord t)) \<le> length dst"
  shows "\<exists>adm dst' R. AdmitAndCopy t claim dst now = (Inr adm, dst',
      t\<lparr> mt_lastNowMS := now, mt_claimRecord := R, mt_claimAdmitted := True,
         mt_claimAdmittedAtMS := now \<rparr>) \<and>
    mr_post R = mr_post (mt_claimRecord t) \<and> mr_kind R = mr_kind (mt_claimRecord t) \<and>
    mr_size R = mr_size (mt_claimRecord t) \<and>
    mr_selectedAtMS R = mr_selectedAtMS (mt_claimRecord t) \<and>
    (mr_acknowledgement (mt_claimRecord t) \<longrightarrow> mr_acknowledgement R) \<and>
    (mr_acknowledgement R \<longrightarrow> mr_acknowledgement (mt_claimRecord t) \<or>
       mr_kind (mt_claimRecord t) = MetadataPacketMiddleFragment)"
proof -
  define R0 where "R0 = mt_claimRecord t"
  define R where "R = (if mr_kind R0 = MetadataPacketMiddleFragment \<and> \<not> mr_acknowledgement R0 \<and>
      now \<ge> mt_nextACKRequestMS t
    then R0\<lparr> mr_acknowledgement := True, mr_wire := (mr_wire R0)[1 := mr_wire R0 ! 1 OR flagAcknowledge] \<rparr>
    else R0)"
  have "observeAndCheckTimeout t now = (None, t\<lparr> mt_lastNowMS := now \<rparr>)"
    using t by (intro observe_in_time) simp_all
  then have "AdmitAndCopy t claim dst now =
    (Inr \<lparr> ma_size = mr_size R, ma_kind = mr_kind R, ma_acknowledgement = mr_acknowledgement R \<rparr>,
     take (unat (mr_size R)) (mr_wire R) @ drop (unat (mr_size R)) dst,
     t\<lparr> mt_lastNowMS := now, mt_claimRecord := R, mt_claimAdmitted := True,
        mt_claimAdmittedAtMS := now \<rparr>)"
    using c size by (simp add: AdmitAndCopy_def Let_def not_less R_def R0_def)
  moreover have "mr_post R = mr_post R0" "mr_kind R = mr_kind R0" "mr_size R = mr_size R0"
    "mr_selectedAtMS R = mr_selectedAtMS R0" "mr_acknowledgement R0 \<longrightarrow> mr_acknowledgement R"
    "mr_acknowledgement R \<longrightarrow> mr_acknowledgement R0 \<or> mr_kind R0 = MetadataPacketMiddleFragment"
    by (simp_all add: R_def)
  ultimately show ?thesis unfolding R0_def by blast
qed

lemma validate_admitted:
  assumes "metadata_validateClaim t claim = None"
    "mr_kind R = mr_kind (mt_claimRecord t)" "mr_size R = mr_size (mt_claimRecord t)"
    "mr_selectedAtMS R = mr_selectedAtMS (mt_claimRecord t)"
  shows "metadata_validateClaim (t\<lparr> mt_lastNowMS := now, mt_claimRecord := R,
    mt_claimAdmitted := True, mt_claimAdmittedAtMS := now \<rparr>) claim = None"
  using assms by (auto simp: metadata_validateClaim_def split: if_splits)


lemma resolve_delivered:
  assumes "metadata_validateClaim t claim = None" "mt_claimAdmitted t" "mt_lastNowMS t \<le> now"
    "\<not> mt_ackDeadlineArmed t"
  shows "\<exists>t'. metadata_Resolve t claim MetadataPacketDelivered now = (None, t') \<and>
    mt_offset t' = mp_offset (mr_post (mt_claimRecord t)) \<and>
    mt_done t' = mp_done (mr_post (mt_claimRecord t)) \<and>
    mt_ackDeadlineArmed t' = mr_acknowledgement (mt_claimRecord t) \<and>
    (mt_ackDeadlineArmed t' \<longrightarrow>
       mt_ackDeadlineMS t' = saturatingMetadataDeadline now ReliableACKTimeoutMilliseconds) \<and>
    mt_faulted t' = mt_faulted t \<and> \<not> mt_hasClaim t' \<and> \<not> mt_claimAdmitted t' \<and>
    mt_retryPending t' = mt_retryPending t \<and> mt_lastNowMS t' = now \<and>
    mt_metadata t' = mt_metadata t"
  using assms by (auto simp: metadata_Resolve_def metadata_clearClaim_def Let_def)

lemma before_deadline:
  fixes d t k :: u64
  assumes "d \<le> t" "t - d < k" "t < NOT 0"
  shows "t < saturatingMetadataDeadline d k"
proof (cases "NOT 0 - d < k")
  case True
  then show ?thesis using assms(3) by (simp add: saturatingMetadataDeadline_def)
next
  case False
  have m: "unat (NOT 0 :: u64) = 2 ^ 64 - 1"
    by (simp add: unsigned_minus_1_eq_mask mask_eq_exp_minus_1)
  have "d \<le> NOT 0" using assms(1,3) by (meson le_less_trans less_imp_le)
  then have "unat (NOT 0 - d) = 2 ^ 64 - 1 - unat d" by (subst unat_sub) (simp_all only: m)
  moreover have "unat k \<le> unat (NOT 0 - d)" using False by (simp only: not_less word_le_nat_alt)
  moreover have "unat d < 2 ^ 64" using unsigned_less [of d] by simp
  ultimately have "unat (d + k) = unat d + unat k"
    by (intro unat_plus_simple [THEN iffD1]) (simp add: no_olen_add_nat)
  moreover have "unat t - unat d < unat k" "unat d \<le> unat t"
    using assms(1,2) by (simp_all add: word_less_nat_alt word_le_nat_alt unat_sub)
  ultimately show ?thesis using False by (simp add: saturatingMetadataDeadline_def word_less_nat_alt)
qed

lemma acknowledge_pending:
  assumes t: "mt_valid t" "\<not> mt_faulted t" "\<not> mt_done t" "\<not> mt_hasClaim t" "\<not> mt_claimAdmitted t"
      "\<not> mt_retryPending t" "mt_lastNowMS t \<le> now" "60 < length (mdata t)"
    and sent: "mt_sentEnd t = mt_offset t" "mt_offset t \<noteq> 0" "unat (mt_offset t) \<le> length (mdata t)"
      "unat (mt_acknowledgedEnd t) \<le> unat (mt_offset t)"
    and armed: "mt_ackDeadlineArmed t" "now < mt_ackDeadlineMS t"
  shows "\<exists>ack d t'. PendingAcknowledgement t = Some ack \<and>
    metadata_Acknowledge t ack now = (Inr d, t') \<and> mt_offset t' = mt_offset t \<and> \<not> mt_done t' \<and>
    at_rest now t' \<and> mt_metadata t' = mt_metadata t"
proof -
  define ack where "ack = \<lparr> ra_TransferGeneration = mt_generation t,
    ra_TransferEpoch = mt_transferEpoch t, ra_MessageNumber = 4, ra_Sequence = mt_sequence t,
    ra_ContiguousPayloadBytes = mt_sentEnd t, ra_ReceiverRemainingBufferBytes = 0 \<rparr>"
  have obs: "observeAndCheckTimeout t now = (None, t\<lparr> mt_lastNowMS := now \<rparr>)"
    using t armed by (intro observe_in_time) simp_all
  have p: "PendingAcknowledgement t = Some ack"
    using t sent armed by (simp add: PendingAcknowledgement_def acknowledgementIdentity_def ack_def)
  have "\<exists>d. validateAcknowledgement (t\<lparr> mt_lastNowMS := now \<rparr>) ack = Inr d \<and>
      d \<noteq> ReliableAcknowledgementRewind"
    using t sent by (auto simp: validateAcknowledgement_def ack_def word_less_nat_alt)
  then obtain d where "validateAcknowledgement (t\<lparr> mt_lastNowMS := now \<rparr>) ack = Inr d"
    "d \<noteq> ReliableAcknowledgementRewind" by blast
  then have "\<exists>t'. metadata_Acknowledge t ack now = (Inr d, t') \<and> mt_offset t' = mt_offset t \<and>
      \<not> mt_done t' \<and> at_rest now t' \<and> mt_metadata t' = mt_metadata t"
    using t sent obs by (simp add: metadata_Acknowledge_def at_rest_def ack_def)
  then show ?thesis using p by blast
qed


text \<open>A claim, its admission and its delivery, with what the invariant then says.\<close>

lemma deliver_next:
  assumes inv: "metadata_inv data r" and rest: "at_rest now (mrun_transfer r)"
    and nd: "\<not> mt_done (mrun_transfer r)" and times: "now \<le> n1" "n1 \<le> n2" "n2 \<le> n3"
  shows "\<exists>claim R r3. fst (metadata_Claim (mrun_transfer r) n1) = Inr claim \<and>
    r3 = metadata_step (OpMetadataResolve claim MetadataPacketDelivered n3)
      (metadata_step (OpMetadataAdmit claim (zeros 64) n2) (metadata_step (OpMetadataClaim n1) r)) \<and>
    proposes (mrun_transfer r) R \<and>
    mt_offset (mrun_transfer r3) = mp_offset (mr_post R) \<and>
    mt_done (mrun_transfer r3) = mp_done (mr_post R) \<and>
    (mr_acknowledgement R \<longrightarrow> mt_ackDeadlineArmed (mrun_transfer r3)) \<and>
    (mt_ackDeadlineArmed (mrun_transfer r3) \<longrightarrow> \<not> mp_done (mr_post R) \<and>
       mt_ackDeadlineMS (mrun_transfer r3) =
         saturatingMetadataDeadline n3 ReliableACKTimeoutMilliseconds) \<and>
    \<not> mt_faulted (mrun_transfer r3) \<and> \<not> mt_hasClaim (mrun_transfer r3) \<and>
    \<not> mt_claimAdmitted (mrun_transfer r3) \<and> \<not> mt_retryPending (mrun_transfer r3) \<and>
    mt_lastNowMS (mrun_transfer r3) = n3"
proof -
  define t where "t = (mrun_transfer r)\<lparr> mt_lastNowMS := n1 \<rparr>"
  have ti: "transfer_inv (mrun_transfer r)"
    using inv delivery_inv_parts(2) unfolding metadata_inv_def by blast
  have t: "transfer_inv t" "at_rest n1 t" "\<not> mt_done t" "mt_valid t"
    using ti rest nd transfer_inv_cong [of t "mrun_transfer r"]
    by (simp_all add: t_def at_rest_def transfer_inv_def)
  have same: "proposes t = proposes (mrun_transfer r)" by (simp add: t_def proposes_def fun_eq_iff)
  obtain R where R: "selectPacket t n1 = Inr R" "proposes t R"
    using select_next [OF t(1,2,3)] by blast
  obtain claim t1 where c: "claimFromRecord t R = (claim, t1)" by fastforce
  have "observeAndCheckTimeout (mrun_transfer r) n1 = (None, t)"
    unfolding t_def using rest ti times by (intro observe_in_time) (auto simp: at_rest_def transfer_inv_def)
  then have claim: "metadata_Claim (mrun_transfer r) n1 = (Inr claim, t1)"
    using t R c by (simp add: metadata_Claim_def at_rest_def)
  note f = claimFromRecord_valid [OF c]
  obtain adm dst R' where adm: "AdmitAndCopy t1 claim (zeros 64) n2 = (Inr adm, dst,
      t1\<lparr> mt_lastNowMS := n2, mt_claimRecord := R', mt_claimAdmitted := True,
         mt_claimAdmittedAtMS := n2 \<rparr>)"
    and R': "mr_post R' = mr_post R" "mr_kind R' = mr_kind R" "mr_size R' = mr_size R"
      "mr_selectedAtMS R' = mr_selectedAtMS R" "mr_acknowledgement R \<longrightarrow> mr_acknowledgement R'"
      "mr_acknowledgement R' \<longrightarrow> mr_acknowledgement R \<or> mr_kind R = MetadataPacketMiddleFragment"
    using admit_claimed [OF f(1,3), of n2 "zeros 64"] f t R(2) times
    by (auto simp: t_def at_rest_def proposes_def)
  define t2 where "t2 = t1\<lparr> mt_lastNowMS := n2, mt_claimRecord := R', mt_claimAdmitted := True,
         mt_claimAdmittedAtMS := n2 \<rparr>"
  have "metadata_validateClaim t2 claim = None"
    unfolding t2_def using validate_admitted [OF f(1)] R' f(2) by simp
  from resolve_delivered [OF this, of n3] obtain t3
    where t3: "metadata_Resolve t2 claim MetadataPacketDelivered n3 = (None, t3)"
      "mt_offset t3 = mp_offset (mr_post R)" "mt_done t3 = mp_done (mr_post R)"
      "mt_ackDeadlineArmed t3 = mr_acknowledgement R'"
      "mt_ackDeadlineArmed t3 \<longrightarrow>
         mt_ackDeadlineMS t3 = saturatingMetadataDeadline n3 ReliableACKTimeoutMilliseconds"
      "\<not> mt_faulted t3" "\<not> mt_hasClaim t3" "\<not> mt_claimAdmitted t3" "\<not> mt_retryPending t3"
      "mt_lastNowMS t3 = n3"
    using f t R'(1) times by (auto simp: t2_def at_rest_def)
  have "mr_acknowledgement R' \<Longrightarrow> \<not> mp_done (mr_post R)"
    using R(2) R'(6) by (auto simp: proposes_def split: if_splits)
  then show ?thesis
    using claim adm t3 R(2) R'(5) same by (simp add: t2_def [symmetric]) blast
qed


section \<open>Progress\<close>

text \<open>A transfer that is done stays so.\<close>

lemma claim_done:
  assumes "transfer_inv t" "mt_done t"
  shows "\<exists>e t'. metadata_Claim t now = (Inl e, t') \<and> mt_done t'"
  using assms
  by (auto simp: metadata_Claim_def observeAndCheckTimeout_def metadata_validateClock_def
      transfer_inv_def Let_def split: prod.splits option.splits if_splits)

lemma exchange_done:
  assumes "metadata_inv data r" "mt_done (mrun_transfer r)"
  shows "mt_done (mrun_transfer (metadata_exchange x r))"
proof -
  have "transfer_inv (mrun_transfer r)"
    using assms(1) delivery_inv_parts(2) unfolding metadata_inv_def by blast
  then show ?thesis using claim_done [of "mrun_transfer r" "et_claim x"] assms(2)
    by (auto simp: metadata_exchange_def)
qed

lemma exchange_progress:
  assumes inv: "metadata_inv data r" and rest: "at_rest now (mrun_transfer r)"
    and nd: "\<not> mt_done (mrun_transfer r)" and times: "now \<le> et_claim x" "timely x"
  defines "r' \<equiv> metadata_exchange x r"
  shows "mt_done (mrun_transfer r') \<or>
    at_rest (et_ack x) (mrun_transfer r') \<and> unat (mt_offset (mrun_transfer r)) < length data \<and>
    unat (mt_offset (mrun_transfer r')) = min (length data) (unat (mt_offset (mrun_transfer r)) + 58)"
proof -
  let ?a = "unat (mt_offset (mrun_transfer r))"
  have t: "et_claim x \<le> et_admit x" "et_admit x \<le> et_deliver x" "et_deliver x \<le> et_ack x"
    "et_ack x - et_deliver x < ReliableACKTimeoutMilliseconds" "et_ack x < NOT 0"
    using times(2) by (simp_all add: timely_def)
  obtain claim R r3 where c: "fst (metadata_Claim (mrun_transfer r) (et_claim x)) = Inr claim"
    and r3: "r3 = metadata_step (OpMetadataResolve claim MetadataPacketDelivered (et_deliver x))
      (metadata_step (OpMetadataAdmit claim (zeros 64) (et_admit x))
        (metadata_step (OpMetadataClaim (et_claim x)) r))"
    and R: "proposes (mrun_transfer r) R"
    and t3: "mt_offset (mrun_transfer r3) = mp_offset (mr_post R)"
      "mt_done (mrun_transfer r3) = mp_done (mr_post R)"
      "mr_acknowledgement R \<longrightarrow> mt_ackDeadlineArmed (mrun_transfer r3)"
      "mt_ackDeadlineArmed (mrun_transfer r3) \<longrightarrow> \<not> mp_done (mr_post R) \<and>
         mt_ackDeadlineMS (mrun_transfer r3) =
           saturatingMetadataDeadline (et_deliver x) ReliableACKTimeoutMilliseconds"
      "\<not> mt_faulted (mrun_transfer r3)" "\<not> mt_hasClaim (mrun_transfer r3)"
      "\<not> mt_claimAdmitted (mrun_transfer r3)" "\<not> mt_retryPending (mrun_transfer r3)"
      "mt_lastNowMS (mrun_transfer r3) = et_deliver x"
    using deliver_next [OF inv rest nd times(1) t(1,2)] by blast
  have data: "mdata (mrun_transfer r) = data" "mdata (mrun_transfer r3) = data"
    and inv3: "transfer_inv (mrun_transfer r3)" and inv0: "transfer_inv (mrun_transfer r)"
    using inv metadata_step_inv delivery_inv_parts(1,2) unfolding r3 metadata_inv_def by metis+
  have r': "r' = (case PendingAcknowledgement (mrun_transfer r3) of None \<Rightarrow> r3
      | Some ack \<Rightarrow> metadata_step (OpMetadataAck ack (et_ack x)) r3)"
    unfolding r'_def metadata_exchange_def c r3 Let_def by simp
  show ?thesis
  proof (cases "mp_done (mr_post R)")
    case True
    then have "PendingAcknowledgement (mrun_transfer r3) = None"
      using t3(4) by (simp add: PendingAcknowledgement_def)
    then show ?thesis using True t3(2) r' by simp
  next
    case False
    then have big: "60 < length data" "?a < length data"
      and off: "unat (mt_offset (mrun_transfer r3)) = min (length data) (?a + 58)"
      and asked: "mr_acknowledgement R \<or> unat (mt_offset (mrun_transfer r3)) < length data"
      using R t3(1) data(1) inv0 by (auto simp: proposes_def transfer_inv_def split: if_splits)
    show ?thesis
    proof (cases "mt_ackDeadlineArmed (mrun_transfer r3)")
      case True
      have "et_ack x < mt_ackDeadlineMS (mrun_transfer r3)"
        using True t3(4) before_deadline [OF t(3-5)] by simp
      moreover have "mt_offset (mrun_transfer r3) \<noteq> 0" using off big by auto
      ultimately show ?thesis
        using acknowledge_pending [of "mrun_transfer r3" "et_ack x"] True t3 t(3) big False off data inv3 r'
        unfolding transfer_inv_def by auto
    next
      case unarmed: False
      then have "r' = r3" using r' by (simp add: PendingAcknowledgement_def)
      moreover have "unat (mt_offset (mrun_transfer r3)) \<noteq> length data"
        using asked t3(3) unarmed by simp
      then have "at_rest (et_ack x) (mrun_transfer r3)"
        using t3(5-9) t(3) unarmed data(2) by (simp only: at_rest_def) simp
      ultimately show ?thesis using off big(2) by simp
    qed
  qed
qed

text \<open>Exchanges still needed.\<close>

definition exchanges_left :: "bytes \<Rightarrow> metadata_run \<Rightarrow> nat" where
  "exchanges_left data r = (length data - unat (mt_offset (mrun_transfer r)) + 57) div 58 + 1"

lemma chunk_count:
  fixes a n :: nat
  assumes "a < n"
  shows "Suc ((n - min n (a + 58) + 57) div 58) \<le> (n - a + 57) div 58"
proof (cases "n \<le> a + 58")
  case True
  have "1 \<le> (n - a + 57) div 58" using assms by (subst less_eq_div_iff_mult_less_eq) simp_all
  then show ?thesis using True by (simp add: min_absorb1)
next
  case False
  define m where "m = n - (a + 58) + 57"
  have "n - a + 57 = m + 58" using False by (simp add: m_def)
  then have "(n - a + 57) div 58 = Suc (m div 58)" by (simp add: div_add_self2)
  moreover have "min n (a + 58) = a + 58" using False by simp
  ultimately show ?thesis by (simp only: m_def [symmetric])
qed

lemma exchanges_done:
  assumes "metadata_inv data r" "mt_done (mrun_transfer r)"
  shows "metadata_inv data (fold metadata_exchange xs r) \<and>
    mt_done (mrun_transfer (fold metadata_exchange xs r))"
  using assms
  by (induction xs arbitrary: r) (auto intro: metadata_exchange_inv exchange_done)

lemma exchanges_complete:
  assumes "metadata_inv data r" "at_rest now (mrun_transfer r)" "schedule now xs"
    "exchanges_left data r \<le> length xs"
  shows "metadata_inv data (fold metadata_exchange xs r) \<and>
    mt_done (mrun_transfer (fold metadata_exchange xs r))"
  using assms
proof (induction xs arbitrary: r now)
  case Nil
  then show ?case by (simp add: exchanges_left_def)
next
  case (Cons x xs)
  let ?r = "metadata_exchange x r"
  have inv: "metadata_inv data ?r" using metadata_exchange_inv Cons.prems(1) by blast
  have times: "now \<le> et_claim x" "timely x" "schedule (et_ack x) xs" using Cons.prems(3) by simp_all
  consider "mt_done (mrun_transfer ?r)"
    | "at_rest (et_ack x) (mrun_transfer ?r)" "exchanges_left data ?r \<le> length xs"
    using exchange_progress [OF Cons.prems(1,2) _ times(1,2)] exchange_done [OF Cons.prems(1)]
      Cons.prems(4) chunk_count [of "unat (mt_offset (mrun_transfer r))" "length data"]
    unfolding exchanges_left_def by fastforce
  then show ?case
  proof cases
    case 1
    then show ?thesis using exchanges_done [OF inv] by simp
  next
    case 2
    then show ?thesis using Cons.IH [OF inv 2(1) times(3) 2(2)] by simp
  qed
qed

text \<open>C19: a new metadata transfer finishes. Let the clock move as it likes from operation to
  operation, without going back, let the transport deliver every packet, and let the host answer
  each request for an acknowledgement less than a second after the delivery. Then after
  \<open>(length + 57) div 58 + 1\<close> packet exchanges, or more, the transfer is done, the receiver has
  the whole metadata, and metadata sent in fragments is acknowledged to its last byte.\<close>

theorem metadata_completes:
  assumes "NewMetadataTransfer self profile md s g e now = Inr t" "schedule now xs"
    "(length (md_data md) + 57) div 58 + 1 \<le> length xs"
  shows "let r = fold metadata_exchange xs (metadata_start t) in
    mt_done (mrun_transfer r) \<and>
    map (received r) [0..<length (md_data md)] = map Some (md_data md) \<and>
    (60 < length (md_data md) \<longrightarrow>
       unat (mt_acknowledgedEnd (mrun_transfer r)) = length (md_data md))"
proof -
  have inv: "metadata_inv (md_data md) (metadata_start t)" by (rule NewMetadataTransfer_inv) fact
  have t: "t = fresh_transfer self md s g e now 0"
    using assms(1) by (auto simp: NewMetadataTransfer_def split: option.splits if_splits)
  have rest: "at_rest now (mrun_transfer (metadata_start t))"
    "exchanges_left (md_data md) (metadata_start t) = (length (md_data md) + 57) div 58 + 1"
    using metadata_inv_facts(4) [OF inv]
    by (auto simp: t metadata_start_def fresh_transfer_def at_rest_def exchanges_left_def)
  define r where "r = fold metadata_exchange xs (metadata_start t)"
  have "metadata_inv (md_data md) r" "mt_done (mrun_transfer r)"
    using exchanges_complete [OF inv rest(1) assms(2)] rest(2) assms(3) by (simp_all add: r_def)
  then show ?thesis
    using metadata_done_received metadata_inv_facts(4) unfolding r_def [symmetric] Let_def by blast
qed

text \<open>Seventy bytes in two fragments and the completing packet: the last fragment asks for an
  acknowledgement, which arrives 900 milliseconds after it was delivered.\<close>

definition example_exchange :: "u64 \<Rightarrow> exchange_times" where
  "example_exchange now =
     \<lparr> et_claim = now, et_admit = now + 1, et_deliver = now + 3, et_ack = now + 903 \<rparr>"

lemma example_data: "md_data (example_metadata blob) = blob"
  by (simp add: example_metadata_def)

theorem metadata_completes_witness:
  "let r = fold metadata_exchange (map example_exchange [20, 1000, 2500])
       (metadata_start (fresh_transfer 9 (example_metadata (replicate 70 0xab)) 5 1 1 10 0)) in
     mt_done (mrun_transfer r) \<and> map (received r) [0..<70] = replicate 70 (Some 0xab) \<and>
     unat (mt_acknowledgedEnd (mrun_transfer r)) = 70"
proof -
  have "NewMetadataTransfer 9 example_profile (example_metadata (replicate 70 0xab)) 5 1 1 10 =
      Inr (fresh_transfer 9 (example_metadata (replicate 70 0xab)) 5 1 1 10 0)" by code_simp
  moreover have "schedule 10 (map example_exchange [20, 1000, 2500])" by code_simp
  ultimately show ?thesis
    using metadata_completes [where md = "example_metadata (replicate 70 0xab)"
        and xs = "map example_exchange [20, 1000, 2500]"]
    by (simp add: example_data Let_def)
qed

end
