(* ===== verification/Gip_Lifecycle.thy ===== *)
theory Gip_Lifecycle
  imports Gip_Downstream
begin

text \<open>
  The lifecycle of the Xbox One controller (\<^verbatim>\<open>src/device/xboxone/lifecycle.go\<close>): a serialized state
  machine that turns host commands, deadlines and USB resets into transitions, each a short list
  of actions that are claimed, admitted and resolved one at a time. A claim binds its lifecycle by
  address (\<open>cl_self\<close>). The fixed array of three action slots and its length are the list of the
  filled slots. The decoding of the commands is in \<open>Gip_Downstream\<close>.
\<close>

unbundle bit_operations_syntax

section \<open>Data\<close>

datatype lifecycle_error =
    CommandError gip_error
  | ErrUninitializedLifecycle | ErrUnexpectedLifecycleCommand | ErrNonMonotonicLifecycleClock
  | ErrLifecycleClaimOutstanding | ErrLifecycleRetryRequired | ErrLifecycleTransitionPending
  | ErrLifecycleNoPendingAction | ErrInvalidLifecycleClaim | ErrLifecycleClaimNotAdmitted
  | ErrInvalidLifecycleOutcome | ErrInvalidTransferGeneration | ErrInvalidTransferEpoch

abbreviation (input) HelloIntervalMilliseconds :: u64 where
  "HelloIntervalMilliseconds \<equiv> 500"
abbreviation (input) PowerTransitionDelayMilliseconds :: u64 where
  "PowerTransitionDelayMilliseconds \<equiv> 500"

datatype ControllerLifecycleState =
    LifecycleUninitialized | LifecycleArrival | LifecycleMetadata | LifecycleIdle
  | LifecycleActive | LifecycleTerminatingOff | LifecycleTerminatingReset
  | LifecycleOff | LifecycleReset

datatype ControllerLifecycleAction =
    NoAction
  | SendHello | BeginMetadata | SendCurrentStatus | SendInitialInput | PermitNormalUpstream
  | GateNormalUpstream | ClearOutputs | SendPoweringOffStatus | CompletePowerOff | PerformReset

type_synonym ControllerLifecycleDecision = "ControllerLifecycleAction list"

definition decision_Len :: "ControllerLifecycleDecision \<Rightarrow> u8" where
  "decision_Len decision = of_nat (length decision)"

definition decision_Action ::
    "ControllerLifecycleDecision \<Rightarrow> int \<Rightarrow> ControllerLifecycleAction \<times> bool" where
  "decision_Action decision index =
     (if index < 0 \<or> index \<ge> int (length decision) then (NoAction, False)
      else (decision ! nat index, True))"

datatype ControllerLifecycleOutcome =
    LifecycleDelivered | LifecycleDeferred | LifecycleDeliveryFailed | LifecycleExecutionCancelled
  | LifecycleOutcomeOther u8

record ControllerLifecycleClaim =
  lcm_owner :: "nat option"
  lcm_token :: u64
  lcm_generation :: u64
  lcm_transitionEpoch :: u64
  lcm_metadataTransferGeneration :: u64
  lcm_action :: ControllerLifecycleAction
  lcm_cursor :: u8
  lcm_totalActions :: u8
  lcm_selectedAtMS :: u64

record ControllerLifecycleExecutionFence =
  ef_TransportGeneration :: u64
  ef_TransitionEpoch :: u64
  ef_LeaseToken :: u64
  ef_ActionCursor :: u8
  ef_Action :: ControllerLifecycleAction

definition lifecycle_claim_Valid :: "ControllerLifecycleClaim \<Rightarrow> bool" where
  "lifecycle_claim_Valid claim \<longleftrightarrow> lcm_owner claim \<noteq> None \<and> lcm_token claim \<noteq> 0"

definition ExecutionFence ::
    "ControllerLifecycleClaim \<Rightarrow> ControllerLifecycleExecutionFence option" where
  "ExecutionFence claim =
     (if \<not> lifecycle_claim_Valid claim \<or> lcm_generation claim = 0 \<or> lcm_transitionEpoch claim = 0
      then None
      else Some \<lparr> ef_TransportGeneration = lcm_generation claim,
             ef_TransitionEpoch = lcm_transitionEpoch claim, ef_LeaseToken = lcm_token claim,
             ef_ActionCursor = lcm_cursor claim, ef_Action = lcm_action claim \<rparr>)"

record ControllerMetadataTransferFence =
  mf_TransportGeneration :: u64
  mf_TransferGeneration :: u64

definition claim_MetadataTransferFence ::
    "ControllerLifecycleClaim \<Rightarrow> ControllerMetadataTransferFence option" where
  "claim_MetadataTransferFence claim =
     (if lcm_generation claim = 0 \<or> lcm_metadataTransferGeneration claim = 0 then None
      else Some \<lparr> mf_TransportGeneration = lcm_generation claim,
             mf_TransferGeneration = lcm_metadataTransferGeneration claim \<rparr>)"

datatype lifecycleDeadlinePolicy =
  NoDeadline | HelloAfterDelivery | TerminationAfterDelivery

record controllerLifecycleCore =
  co_state :: ControllerLifecycleState
  co_generation :: u64
  co_metadataTransferGeneration :: u64
  co_nextHelloMS :: u64
  co_terminationMS :: u64

record controllerLifecycleTransition =
  tr_decision :: ControllerLifecycleDecision
  tr_target :: controllerLifecycleCore
  tr_deadline :: lifecycleDeadlinePolicy

record ControllerLifecycle =
  cl_self :: nat
  cl_core :: controllerLifecycleCore
  cl_lastNowMS :: u64
  cl_nextTransitionEpoch :: u64
  cl_nextMetadataTransferGeneration :: u64
  cl_pendingTransition :: bool
  cl_transitionEpoch :: u64
  cl_transition :: controllerLifecycleTransition
  cl_actionCursor :: u8
  cl_actionSelectedAtMS :: u64
  cl_retryPending :: bool
  cl_nextToken :: u64
  cl_hasClaim :: bool
  cl_claimAdmitted :: bool
  cl_claimToken :: u64

definition zero_core :: controllerLifecycleCore where
  "zero_core = \<lparr> co_state = LifecycleUninitialized, co_generation = 0,
     co_metadataTransferGeneration = 0, co_nextHelloMS = 0, co_terminationMS = 0 \<rparr>"

definition zero_transition :: controllerLifecycleTransition where
  "zero_transition = \<lparr> tr_decision = [], tr_target = zero_core, tr_deadline = NoDeadline \<rparr>"

definition NewControllerLifecycle :: "nat \<Rightarrow> u64 \<Rightarrow> ControllerLifecycle" where
  "NewControllerLifecycle self nowMS =
     \<lparr> cl_self = self,
       cl_core = zero_core\<lparr> co_state := LifecycleArrival, co_generation := 1,
         co_nextHelloMS := nowMS \<rparr>,
       cl_lastNowMS = nowMS, cl_nextTransitionEpoch = 0, cl_nextMetadataTransferGeneration = 0,
       cl_pendingTransition = False, cl_transitionEpoch = 0, cl_transition = zero_transition,
       cl_actionCursor = 0, cl_actionSelectedAtMS = 0, cl_retryPending = False,
       cl_nextToken = 0, cl_hasClaim = False, cl_claimAdmitted = False, cl_claimToken = 0 \<rparr>"

section \<open>Guards\<close>

definition lifecycle_MetadataTransferGeneration :: "ControllerLifecycle \<Rightarrow> u64 option" where
  "lifecycle_MetadataTransferGeneration c =
     (if co_state (cl_core c) \<noteq> LifecycleMetadata \<or>
        co_metadataTransferGeneration (cl_core c) = 0 \<or> cl_pendingTransition c
      then None else Some (co_metadataTransferGeneration (cl_core c)))"

definition lifecycle_MetadataTransferFence ::
    "ControllerLifecycle \<Rightarrow> ControllerMetadataTransferFence option" where
  "lifecycle_MetadataTransferFence c =
     (case lifecycle_MetadataTransferGeneration c of
        None \<Rightarrow> None
      | Some g \<Rightarrow> Some \<lparr> mf_TransportGeneration = co_generation (cl_core c),
                   mf_TransferGeneration = g \<rparr>)"

definition lifecycle_validateInitialized :: "ControllerLifecycle \<Rightarrow> lifecycle_error option" where
  "lifecycle_validateInitialized c =
     (if co_state (cl_core c) = LifecycleUninitialized \<or> co_generation (cl_core c) = 0
      then Some ErrUninitializedLifecycle else None)"

definition lifecycle_validateClock :: "ControllerLifecycle \<Rightarrow> u64 \<Rightarrow> lifecycle_error option" where
  "lifecycle_validateClock c nowMS =
     (if nowMS < cl_lastNowMS c then Some ErrNonMonotonicLifecycleClock else None)"

definition lifecycle_validateNoTransition ::
    "ControllerLifecycle \<Rightarrow> u64 \<Rightarrow> lifecycle_error option" where
  "lifecycle_validateNoTransition c nowMS =
     (case lifecycle_validateInitialized c of
        Some e \<Rightarrow> Some e
      | None \<Rightarrow> (case lifecycle_validateClock c nowMS of
          Some e \<Rightarrow> Some e
        | None \<Rightarrow> if cl_pendingTransition c then Some ErrLifecycleTransitionPending else None))"

definition saturatingLifecycleDeadline :: "u64 \<Rightarrow> u64 \<Rightarrow> u64" where
  "saturatingLifecycleDeadline nowMS deltaMS =
     (if NOT 0 - nowMS < deltaMS then NOT 0 else nowMS + deltaMS)"

section \<open>Beginning a transition\<close>

definition allocateTransitionEpoch ::
    "ControllerLifecycle \<Rightarrow> (lifecycle_error + u64) \<times> ControllerLifecycle" where
  "allocateTransitionEpoch c =
     (if cl_nextTransitionEpoch c = NOT 0 then (Inl ErrInvalidTransferEpoch, c)
      else let c = c\<lparr> cl_nextTransitionEpoch := cl_nextTransitionEpoch c + 1 \<rparr>
        in (Inr (cl_nextTransitionEpoch c), c))"

definition lifecycle_nextClaimToken :: "ControllerLifecycle \<Rightarrow> u64 \<times> ControllerLifecycle" where
  "lifecycle_nextClaimToken c =
     (let n = cl_nextToken c + 1; n = (if n = 0 then n + 1 else n) in
      (n, c\<lparr> cl_nextToken := n \<rparr>))"

definition currentAction :: "ControllerLifecycle \<Rightarrow> ControllerLifecycleAction" where
  "currentAction c = fst (decision_Action (tr_decision (cl_transition c)) (uint (cl_actionCursor c)))"

definition claimCurrentAction ::
    "ControllerLifecycle \<Rightarrow> u64 \<Rightarrow> bool \<Rightarrow> ControllerLifecycleClaim \<times> ControllerLifecycle" where
  "claimCurrentAction c nowMS preserveSelectionTime =
     (let c = (if \<not> preserveSelectionTime then c\<lparr> cl_actionSelectedAtMS := nowMS \<rparr> else c);
          (token, c) = lifecycle_nextClaimToken c;
          c = c\<lparr> cl_lastNowMS := nowMS, cl_hasClaim := True, cl_claimAdmitted := False,
                 cl_claimToken := token \<rparr>;
          action = currentAction c;
          metadataGeneration = (if action = BeginMetadata
            then co_metadataTransferGeneration (tr_target (cl_transition c)) else 0)
      in (\<lparr> lcm_owner = Some (cl_self c), lcm_token = token,
            lcm_generation = co_generation (cl_core c),
            lcm_transitionEpoch = cl_transitionEpoch c,
            lcm_metadataTransferGeneration = metadataGeneration,
            lcm_action = action, lcm_cursor = cl_actionCursor c,
            lcm_totalActions = decision_Len (tr_decision (cl_transition c)),
            lcm_selectedAtMS = cl_actionSelectedAtMS c \<rparr>, c))"

definition beginTransition ::
    "ControllerLifecycle \<Rightarrow> controllerLifecycleTransition \<Rightarrow> u64 \<Rightarrow>
       (lifecycle_error + ControllerLifecycleClaim) \<times> ControllerLifecycle" where
  "beginTransition c transition nowMS =
     (let first = fst (decision_Action (tr_decision transition) 0) in
      if first = BeginMetadata \<and>
        (cl_nextMetadataTransferGeneration c = NOT 0 \<or>
         co_metadataTransferGeneration (tr_target transition) \<noteq>
           cl_nextMetadataTransferGeneration c + 1)
      then (Inl ErrInvalidTransferGeneration, c)
      else
        let metadataReservation = (if first = BeginMetadata
              then co_metadataTransferGeneration (tr_target transition) else 0)
        in case allocateTransitionEpoch c of
             (Inl e, c) \<Rightarrow> (Inl e, c)
           | (Inr epoch, c) \<Rightarrow>
               let c = (if metadataReservation \<noteq> 0
                     then c\<lparr> cl_nextMetadataTransferGeneration := metadataReservation \<rparr> else c);
                   c = c\<lparr> cl_pendingTransition := True, cl_transitionEpoch := epoch,
                          cl_transition := transition, cl_actionCursor := 0,
                          cl_actionSelectedAtMS := 0, cl_retryPending := False \<rparr>
               in (case claimCurrentAction c nowMS False of (claim, c) \<Rightarrow> (Inr claim, c)))"

text \<open>The claiming operations return the claim and whether one is present: \<open>Inr None\<close> is no
  error and no claim.\<close>

type_synonym claim_result =
  "(lifecycle_error + ControllerLifecycleClaim option) \<times> ControllerLifecycle"

definition begin_present ::
    "ControllerLifecycle \<Rightarrow> controllerLifecycleTransition \<Rightarrow> u64 \<Rightarrow> claim_result" where
  "begin_present c transition nowMS =
     (case beginTransition c transition nowMS of
        (Inl e, c) \<Rightarrow> (Inl e, c)
      | (Inr claim, c) \<Rightarrow> (Inr (Some claim), c))"

definition ClaimPoll :: "ControllerLifecycle \<Rightarrow> u64 \<Rightarrow> claim_result" where
  "ClaimPoll c nowMS =
     (case lifecycle_validateNoTransition c nowMS of
        Some e \<Rightarrow> (Inl e, c)
      | None \<Rightarrow>
          let core = cl_core c;
              transition = zero_transition\<lparr> tr_target := core \<rparr>;
              not_due = (Inr None, c\<lparr> cl_lastNowMS := nowMS \<rparr>)
          in case co_state core of
               LifecycleArrival \<Rightarrow>
                 if nowMS < co_nextHelloMS core then not_due
                 else begin_present c (transition\<lparr> tr_decision := [SendHello],
                        tr_deadline := HelloAfterDelivery \<rparr>) nowMS
             | LifecycleTerminatingOff \<Rightarrow>
                 if nowMS < co_terminationMS core then not_due
                 else begin_present c (transition\<lparr> tr_decision := [CompletePowerOff],
                        tr_target := core\<lparr> co_state := LifecycleOff, co_terminationMS := 0 \<rparr> \<rparr>) nowMS
             | LifecycleTerminatingReset \<Rightarrow>
                 if nowMS < co_terminationMS core then not_due
                 else begin_present c (transition\<lparr> tr_decision := [PerformReset],
                        tr_target := core\<lparr> co_state := LifecycleReset, co_terminationMS := 0 \<rparr> \<rparr>) nowMS
             | _ \<Rightarrow> not_due)"

section \<open>Host commands\<close>

definition metadataTransition ::
    "ControllerLifecycle \<Rightarrow> controllerLifecycleTransition \<Rightarrow>
       lifecycle_error + controllerLifecycleTransition" where
  "metadataTransition c transition =
     (if cl_nextMetadataTransferGeneration c = NOT 0 then Inl ErrInvalidTransferGeneration
      else Inr (transition\<lparr>
        tr_target := (tr_target transition)\<lparr>
          co_metadataTransferGeneration := cl_nextMetadataTransferGeneration c + 1,
          co_state := LifecycleMetadata, co_nextHelloMS := 0 \<rparr>,
        tr_decision := [BeginMetadata] \<rparr>))"

definition startTransition ::
    "controllerLifecycleTransition \<Rightarrow> controllerLifecycleTransition" where
  "startTransition transition = transition\<lparr>
     tr_target := (tr_target transition)\<lparr> co_state := LifecycleActive, co_nextHelloMS := 0 \<rparr>,
     tr_decision := [SendCurrentStatus, SendInitialInput, PermitNormalUpstream] \<rparr>"

definition terminationTransition ::
    "controllerLifecycleTransition \<Rightarrow> u8 \<Rightarrow> controllerLifecycleTransition" where
  "terminationTransition transition state = transition\<lparr>
     tr_target := (tr_target transition)\<lparr>
       co_state := (if state = SetDeviceStateOff then LifecycleTerminatingOff
                    else LifecycleTerminatingReset),
       co_nextHelloMS := 0 \<rparr>,
     tr_deadline := TerminationAfterDelivery,
     tr_decision := [GateNormalUpstream, ClearOutputs, SendPoweringOffStatus] \<rparr>"

text \<open>The result is the transition, if the command calls for one.\<close>

definition some_metadataTransition ::
    "ControllerLifecycle \<Rightarrow> controllerLifecycleTransition \<Rightarrow>
       lifecycle_error + controllerLifecycleTransition option" where
  "some_metadataTransition c transition =
     (case metadataTransition c transition of Inl e \<Rightarrow> Inl e | Inr t \<Rightarrow> Inr (Some t))"

definition selectHostCommand ::
    "ControllerLifecycle \<Rightarrow> ControllerHostCommand \<Rightarrow>
       lifecycle_error + controllerLifecycleTransition option" where
  "selectHostCommand c command =
     (let core = cl_core c; state = co_state core;
          transition = zero_transition\<lparr> tr_target := core \<rparr>;
          kind = hc_Kind command; value = hc_State command
      in
      if kind = HostCommandExtendedInitialization then
        (case state of
           LifecycleArrival \<Rightarrow> Inr None | LifecycleMetadata \<Rightarrow> Inr None | LifecycleIdle \<Rightarrow> Inr None
         | _ \<Rightarrow> Inl ErrUnexpectedLifecycleCommand)
      else if kind = HostCommandSecurityDataComplete then
        (if state = LifecycleActive then Inr None else Inl ErrUnexpectedLifecycleCommand)
      else if state = LifecycleTerminatingOff \<or> state = LifecycleTerminatingReset then
        (if kind = HostCommandSetDeviceState \<and>
            (value = SetDeviceStateOff \<or> value = SetDeviceStateStop \<or> value = SetDeviceStateReset)
         then Inr (Some (if state = LifecycleTerminatingOff
           then transition\<lparr> tr_target := core\<lparr> co_state := LifecycleOff, co_terminationMS := 0 \<rparr>,
                  tr_decision := [CompletePowerOff] \<rparr>
           else transition\<lparr> tr_target := core\<lparr> co_state := LifecycleReset, co_terminationMS := 0 \<rparr>,
                  tr_decision := [PerformReset] \<rparr>))
         else Inl ErrUnexpectedLifecycleCommand)
      else case state of
        LifecycleArrival \<Rightarrow>
          if kind = HostCommandMetadataRequest then some_metadataTransition c transition
          else if kind = HostCommandSetDeviceState then
            if value = SetDeviceStateStart then Inr (Some (startTransition transition))
            else if value = SetDeviceStateOff \<or> value = SetDeviceStateReset
            then Inr (Some (terminationTransition transition value))
            else Inl ErrUnexpectedLifecycleCommand
          else Inl ErrUnexpectedLifecycleCommand
      | LifecycleMetadata \<Rightarrow>
          if kind = HostCommandMetadataRequest then some_metadataTransition c transition
          else if kind = HostCommandSetDeviceState \<and>
            (value = SetDeviceStateOff \<or> value = SetDeviceStateReset)
          then Inr (Some (terminationTransition transition value))
          else Inl ErrUnexpectedLifecycleCommand
      | LifecycleIdle \<Rightarrow>
          if kind = HostCommandMetadataRequest then some_metadataTransition c transition
          else if kind = HostCommandSetDeviceState then
            if value = SetDeviceStateStart then Inr (Some (startTransition transition))
            else if value = SetDeviceStateOff \<or> value = SetDeviceStateReset
            then Inr (Some (terminationTransition transition value))
            else Inl ErrUnexpectedLifecycleCommand
          else Inl ErrUnexpectedLifecycleCommand
      | LifecycleActive \<Rightarrow>
          if kind = HostCommandSetDeviceState then
            if value = SetDeviceStateStop
            then Inr (Some (transition\<lparr> tr_target := core\<lparr> co_state := LifecycleIdle \<rparr>,
                       tr_decision := [GateNormalUpstream, ClearOutputs] \<rparr>))
            else if value = SetDeviceStateFullPower then Inr None
            else if value = SetDeviceStateQuiesce
            then Inr (Some (transition\<lparr> tr_decision := [ClearOutputs] \<rparr>))
            else if value = SetDeviceStateOff \<or> value = SetDeviceStateReset
            then Inr (Some (terminationTransition transition value))
            else Inl ErrUnexpectedLifecycleCommand
          else Inl ErrUnexpectedLifecycleCommand
      | LifecycleUninitialized \<Rightarrow> Inl ErrUninitializedLifecycle
      | _ \<Rightarrow> Inl ErrUnexpectedLifecycleCommand)"

definition ClaimHostCommand ::
    "ControllerLifecycle \<Rightarrow> u64 \<Rightarrow> ControllerHostCommand \<Rightarrow> claim_result" where
  "ClaimHostCommand c nowMS command =
     (case ControllerHostCommand_validate command of
        Some e \<Rightarrow> (Inl (CommandError e), c)
      | None \<Rightarrow> (case lifecycle_validateNoTransition c nowMS of
          Some e \<Rightarrow> (Inl e, c)
        | None \<Rightarrow> (case selectHostCommand c command of
            Inl e \<Rightarrow> (Inl e, c)
          | Inr None \<Rightarrow> (Inr None, c\<lparr> cl_lastNowMS := nowMS \<rparr>)
          | Inr (Some transition) \<Rightarrow> begin_present c transition nowMS)))"

definition ClaimHostWire :: "ControllerLifecycle \<Rightarrow> u64 \<Rightarrow> bytes \<Rightarrow> claim_result" where
  "ClaimHostWire c nowMS wire =
     (case DecodeControllerHostCommand wire of
        Inl e \<Rightarrow> (Inl (CommandError e), c)
      | Inr command \<Rightarrow> ClaimHostCommand c nowMS command)"

section \<open>Metadata results and reset\<close>

definition stale_fence :: "ControllerLifecycle \<Rightarrow> ControllerMetadataTransferFence \<Rightarrow> bool" where
  "stale_fence c fence \<longleftrightarrow>
     mf_TransportGeneration fence = 0 \<or> mf_TransferGeneration fence = 0 \<or>
     mf_TransportGeneration fence \<noteq> co_generation (cl_core c) \<or>
     mf_TransferGeneration fence \<noteq> co_metadataTransferGeneration (cl_core c)"

definition MetadataTransferSucceeded ::
    "ControllerLifecycle \<Rightarrow> u64 \<Rightarrow> ControllerMetadataTransferFence \<Rightarrow>
       lifecycle_error option \<times> ControllerLifecycle" where
  "MetadataTransferSucceeded c nowMS fence =
     (case lifecycle_validateNoTransition c nowMS of
        Some e \<Rightarrow> (Some e, c)
      | None \<Rightarrow>
          if co_state (cl_core c) \<noteq> LifecycleMetadata then (Some ErrUnexpectedLifecycleCommand, c)
          else if stale_fence c fence then (Some ErrInvalidTransferGeneration, c)
          else (None, c\<lparr> cl_lastNowMS := nowMS,
                 cl_core := (cl_core c)\<lparr> co_state := LifecycleIdle \<rparr> \<rparr>))"

definition ClaimMetadataTransferFailed ::
    "ControllerLifecycle \<Rightarrow> u64 \<Rightarrow> ControllerMetadataTransferFence \<Rightarrow>
       (lifecycle_error + ControllerLifecycleClaim) \<times> ControllerLifecycle" where
  "ClaimMetadataTransferFailed c nowMS fence =
     (case lifecycle_validateNoTransition c nowMS of
        Some e \<Rightarrow> (Inl e, c)
      | None \<Rightarrow>
          if co_state (cl_core c) \<noteq> LifecycleMetadata then (Inl ErrUnexpectedLifecycleCommand, c)
          else if stale_fence c fence then (Inl ErrInvalidTransferGeneration, c)
          else beginTransition c
            \<lparr> tr_decision = [SendHello],
              tr_target = (cl_core c)\<lparr> co_state := LifecycleArrival, co_terminationMS := 0 \<rparr>,
              tr_deadline = HelloAfterDelivery \<rparr> nowMS)"

definition clearPendingTransition :: "ControllerLifecycle \<Rightarrow> ControllerLifecycle" where
  "clearPendingTransition c = c\<lparr> cl_pendingTransition := False, cl_transitionEpoch := 0,
     cl_transition := zero_transition, cl_actionCursor := 0, cl_actionSelectedAtMS := 0,
     cl_retryPending := False, cl_hasClaim := False, cl_claimAdmitted := False,
     cl_claimToken := 0 \<rparr>"

definition ClaimRestartAfterUSBReset ::
    "ControllerLifecycle \<Rightarrow> u64 \<Rightarrow>
       (lifecycle_error + ControllerLifecycleClaim) \<times> ControllerLifecycle" where
  "ClaimRestartAfterUSBReset c nowMS =
     (case lifecycle_validateInitialized c of
        Some e \<Rightarrow> (Inl e, c)
      | None \<Rightarrow> (case lifecycle_validateClock c nowMS of
          Some e \<Rightarrow> (Inl e, c)
        | None \<Rightarrow>
            if cl_hasClaim c \<and> cl_claimAdmitted c then (Inl ErrLifecycleClaimOutstanding, c)
            else if co_generation (cl_core c) = NOT 0 then (Inl ErrInvalidTransferGeneration, c)
            else if cl_nextTransitionEpoch c = NOT 0 then (Inl ErrInvalidTransferEpoch, c)
            else
              let c = clearPendingTransition c in
              beginTransition c
                \<lparr> tr_decision = [GateNormalUpstream, ClearOutputs, SendHello],
                  tr_target = (cl_core c)\<lparr> co_state := LifecycleArrival,
                    co_generation := co_generation (cl_core c) + 1, co_terminationMS := 0 \<rparr>,
                  tr_deadline = HelloAfterDelivery \<rparr> nowMS))"

section \<open>Actions\<close>

definition ClaimNextAction ::
    "ControllerLifecycle \<Rightarrow> u64 \<Rightarrow>
       (lifecycle_error + ControllerLifecycleClaim) \<times> ControllerLifecycle" where
  "ClaimNextAction c nowMS =
     (case lifecycle_validateInitialized c of
        Some e \<Rightarrow> (Inl e, c)
      | None \<Rightarrow> (case lifecycle_validateClock c nowMS of
          Some e \<Rightarrow> (Inl e, c)
        | None \<Rightarrow>
            if \<not> cl_pendingTransition c then (Inl ErrLifecycleNoPendingAction, c)
            else if cl_hasClaim c then (Inl ErrLifecycleClaimOutstanding, c)
            else if cl_retryPending c then (Inl ErrLifecycleRetryRequired, c)
            else (case claimCurrentAction c nowMS False of (claim, c) \<Rightarrow> (Inr claim, c))))"

definition lifecycle_ClaimRetry ::
    "ControllerLifecycle \<Rightarrow> u64 \<Rightarrow>
       (lifecycle_error + ControllerLifecycleClaim) \<times> ControllerLifecycle" where
  "lifecycle_ClaimRetry c nowMS =
     (case lifecycle_validateInitialized c of
        Some e \<Rightarrow> (Inl e, c)
      | None \<Rightarrow> (case lifecycle_validateClock c nowMS of
          Some e \<Rightarrow> (Inl e, c)
        | None \<Rightarrow>
            if \<not> cl_pendingTransition c \<or> \<not> cl_retryPending c then (Inl ErrLifecycleRetryRequired, c)
            else if cl_hasClaim c then (Inl ErrLifecycleClaimOutstanding, c)
            else (case claimCurrentAction c nowMS True of (claim, c) \<Rightarrow>
              (Inr claim, c\<lparr> cl_retryPending := False \<rparr>))))"

definition lifecycle_validateClaim ::
    "ControllerLifecycle \<Rightarrow> ControllerLifecycleClaim \<Rightarrow> lifecycle_error option" where
  "lifecycle_validateClaim c claim =
     (if \<not> cl_pendingTransition c \<or> \<not> cl_hasClaim c \<or> lcm_owner claim \<noteq> Some (cl_self c) \<or>
        lcm_token claim = 0 \<or> lcm_token claim \<noteq> cl_claimToken c \<or>
        lcm_generation claim \<noteq> co_generation (cl_core c) \<or>
        lcm_transitionEpoch claim \<noteq> cl_transitionEpoch c \<or>
        lcm_action claim \<noteq> currentAction c \<or> lcm_cursor claim \<noteq> cl_actionCursor c \<or>
        lcm_totalActions claim \<noteq> decision_Len (tr_decision (cl_transition c)) \<or>
        lcm_selectedAtMS claim \<noteq> cl_actionSelectedAtMS c
      then Some ErrInvalidLifecycleClaim
      else
        let metadataGeneration = (if lcm_action claim = BeginMetadata
              then co_metadataTransferGeneration (tr_target (cl_transition c)) else 0)
        in if lcm_metadataTransferGeneration claim \<noteq> metadataGeneration
           then Some ErrInvalidLifecycleClaim else None)"

definition lifecycle_Admit ::
    "ControllerLifecycle \<Rightarrow> ControllerLifecycleClaim \<Rightarrow> u64 \<Rightarrow>
       (lifecycle_error + bool) \<times> ControllerLifecycle" where
  "lifecycle_Admit c claim nowMS =
     (case lifecycle_validateClaim c claim of
        Some e \<Rightarrow> (Inl e, c)
      | None \<Rightarrow>
          if cl_claimAdmitted c then (Inl ErrInvalidLifecycleClaim, c)
          else (case lifecycle_validateClock c nowMS of
            Some e \<Rightarrow> (Inl e, c)
          | None \<Rightarrow> (Inr True, c\<lparr> cl_lastNowMS := nowMS, cl_claimAdmitted := True \<rparr>)))"

definition committed_target :: "controllerLifecycleTransition \<Rightarrow> u64 \<Rightarrow> controllerLifecycleCore" where
  "committed_target transition completedMS =
     (case tr_deadline transition of
        HelloAfterDelivery \<Rightarrow> (tr_target transition)\<lparr> co_nextHelloMS :=
          saturatingLifecycleDeadline completedMS HelloIntervalMilliseconds \<rparr>
      | TerminationAfterDelivery \<Rightarrow> (tr_target transition)\<lparr> co_terminationMS :=
          saturatingLifecycleDeadline completedMS PowerTransitionDelayMilliseconds \<rparr>
      | NoDeadline \<Rightarrow> tr_target transition)"

definition lifecycle_Resolve ::
    "ControllerLifecycle \<Rightarrow> ControllerLifecycleClaim \<Rightarrow> ControllerLifecycleOutcome \<Rightarrow> u64 \<Rightarrow>
       lifecycle_error option \<times> ControllerLifecycle" where
  "lifecycle_Resolve c claim outcome completedMS =
     (case lifecycle_validateClaim c claim of
        Some e \<Rightarrow> (Some e, c)
      | None \<Rightarrow>
          if outcome \<noteq> LifecycleDelivered \<and> outcome \<noteq> LifecycleDeferred \<and>
             outcome \<noteq> LifecycleDeliveryFailed \<and> outcome \<noteq> LifecycleExecutionCancelled
          then (Some ErrInvalidLifecycleOutcome, c)
          else if (outcome = LifecycleDelivered \<or> outcome = LifecycleExecutionCancelled) \<and>
             \<not> cl_claimAdmitted c
          then (Some ErrLifecycleClaimNotAdmitted, c)
          else
            let completedMS = (if completedMS < cl_lastNowMS c then cl_lastNowMS c else completedMS);
                c = c\<lparr> cl_lastNowMS := completedMS, cl_hasClaim := False,
                       cl_claimAdmitted := False, cl_claimToken := 0 \<rparr>
            in if outcome \<noteq> LifecycleDelivered then (None, c\<lparr> cl_retryPending := True \<rparr>)
               else
                 let c = c\<lparr> cl_retryPending := False \<rparr> in
                 if cl_actionCursor c + 1 < decision_Len (tr_decision (cl_transition c))
                 then (None, c\<lparr> cl_actionCursor := cl_actionCursor c + 1,
                               cl_actionSelectedAtMS := 0 \<rparr>)
                 else (None, clearPendingTransition
                        (c\<lparr> cl_core := committed_target (cl_transition c) completedMS \<rparr>)))"


end
