(* ===== verification/Gip_Lifecycle_Runs.thy ===== *)
theory Gip_Lifecycle_Runs
  imports Gip_Lifecycle
begin

text \<open>
  Runs of the controller lifecycle and what they keep. The abstract specification is the state
  diagram of the controller, \<open>lifecycle_edge\<close>: from which state which actions lead to which state.
  A run is any list of operations, with claims, fences and commands of any origin.
\<close>

section \<open>The state diagram\<close>

definition lifecycle_edge ::
    "ControllerLifecycleState \<Rightarrow> ControllerLifecycleAction list \<Rightarrow> ControllerLifecycleState \<Rightarrow> bool" where
  "lifecycle_edge s acts s' \<longleftrightarrow>
     (acts, s') = ([SendHello], LifecycleArrival) \<and> s \<in> {LifecycleArrival, LifecycleMetadata} \<or>
     (acts, s') = ([BeginMetadata], LifecycleMetadata) \<and>
       s \<in> {LifecycleArrival, LifecycleMetadata, LifecycleIdle} \<or>
     (acts, s') = ([SendCurrentStatus, SendInitialInput, PermitNormalUpstream], LifecycleActive) \<and>
       s \<in> {LifecycleArrival, LifecycleIdle} \<or>
     (acts, s') = ([GateNormalUpstream, ClearOutputs], LifecycleIdle) \<and> s = LifecycleActive \<or>
     (acts, s') = ([ClearOutputs], LifecycleActive) \<and> s = LifecycleActive \<or>
     acts = [GateNormalUpstream, ClearOutputs, SendPoweringOffStatus] \<and>
       s' \<in> {LifecycleTerminatingOff, LifecycleTerminatingReset} \<and>
       s \<in> {LifecycleArrival, LifecycleMetadata, LifecycleIdle, LifecycleActive} \<or>
     (acts, s') = ([CompletePowerOff], LifecycleOff) \<and> s = LifecycleTerminatingOff \<or>
     (acts, s') = ([PerformReset], LifecycleReset) \<and> s = LifecycleTerminatingReset \<or>
     (acts, s') = ([GateNormalUpstream, ClearOutputs, SendHello], LifecycleArrival) \<and>
       s \<noteq> LifecycleUninitialized"

section \<open>Runs\<close>

datatype lifecycle_op =
    OpPoll u64
  | OpCommand u64 ControllerHostCommand
  | OpWire u64 bytes
  | OpMetadataSucceeded u64 ControllerMetadataTransferFence
  | OpMetadataFailed u64 ControllerMetadataTransferFence
  | OpUsbReset u64
  | OpNextAction u64
  | OpRetryAction u64
  | OpAdmitAction ControllerLifecycleClaim u64
  | OpResolveAction ControllerLifecycleClaim ControllerLifecycleOutcome u64

text \<open>The log of a run: the claims that were issued and the actions resolved as delivered.\<close>

record lifecycle_run =
  lr_lifecycle :: ControllerLifecycle
  lr_issued :: "ControllerLifecycleClaim list"
  lr_delivered :: "ControllerLifecycleAction list"

definition log_claim :: "lifecycle_run \<Rightarrow> ControllerLifecycleClaim option \<Rightarrow> ControllerLifecycle \<Rightarrow> lifecycle_run" where
  "log_claim r claim c = r\<lparr> lr_lifecycle := c,
     lr_issued := lr_issued r @ (case claim of None \<Rightarrow> [] | Some x \<Rightarrow> [x]) \<rparr>"

definition log_optional :: "lifecycle_run \<Rightarrow> claim_result \<Rightarrow> lifecycle_run" where
  "log_optional r res = log_claim r (case fst res of Inl _ \<Rightarrow> None | Inr claim \<Rightarrow> claim) (snd res)"

definition log_required :: "lifecycle_run \<Rightarrow>
    (lifecycle_error + ControllerLifecycleClaim) \<times> ControllerLifecycle \<Rightarrow> lifecycle_run" where
  "log_required r res = log_claim r (case fst res of Inl _ \<Rightarrow> None | Inr claim \<Rightarrow> Some claim) (snd res)"

fun lifecycle_step :: "lifecycle_op \<Rightarrow> lifecycle_run \<Rightarrow> lifecycle_run" where
  "lifecycle_step (OpPoll now) r = log_optional r (ClaimPoll (lr_lifecycle r) now)"
| "lifecycle_step (OpCommand now command) r =
     log_optional r (ClaimHostCommand (lr_lifecycle r) now command)"
| "lifecycle_step (OpWire now wire) r = log_optional r (ClaimHostWire (lr_lifecycle r) now wire)"
| "lifecycle_step (OpMetadataSucceeded now fence) r =
     r\<lparr> lr_lifecycle := snd (MetadataTransferSucceeded (lr_lifecycle r) now fence) \<rparr>"
| "lifecycle_step (OpMetadataFailed now fence) r =
     log_required r (ClaimMetadataTransferFailed (lr_lifecycle r) now fence)"
| "lifecycle_step (OpUsbReset now) r =
     log_required r (ClaimRestartAfterUSBReset (lr_lifecycle r) now)"
| "lifecycle_step (OpNextAction now) r = log_required r (ClaimNextAction (lr_lifecycle r) now)"
| "lifecycle_step (OpRetryAction now) r = log_required r (lifecycle_ClaimRetry (lr_lifecycle r) now)"
| "lifecycle_step (OpAdmitAction claim now) r =
     r\<lparr> lr_lifecycle := snd (lifecycle_Admit (lr_lifecycle r) claim now) \<rparr>"
| "lifecycle_step (OpResolveAction claim outcome now) r =
     (case lifecycle_Resolve (lr_lifecycle r) claim outcome now of (err, c) \<Rightarrow>
        r\<lparr> lr_lifecycle := c, lr_delivered := lr_delivered r @
          (if err = None \<and> outcome = LifecycleDelivered then [lcm_action claim] else []) \<rparr>)"

definition lifecycle_start :: "nat \<Rightarrow> u64 \<Rightarrow> lifecycle_run" where
  "lifecycle_start self now =
     \<lparr> lr_lifecycle = NewControllerLifecycle self now, lr_issued = [], lr_delivered = [] \<rparr>"

abbreviation lstate :: "ControllerLifecycle \<Rightarrow> ControllerLifecycleState" where
  "lstate c \<equiv> co_state (cl_core c)"

abbreviation plan :: "ControllerLifecycle \<Rightarrow> ControllerLifecycleAction list" where
  "plan c \<equiv> tr_decision (cl_transition c)"

text \<open>Normal upstream traffic is open after the last delivered permission, unless a gate followed;
  the outputs are quiet unless a permission was delivered after the last clearing.\<close>

definition upstream_open :: "ControllerLifecycleAction list \<Rightarrow> bool" where
  "upstream_open log \<longleftrightarrow>
     (let w = filter (\<lambda>a. a = PermitNormalUpstream \<or> a = GateNormalUpstream) log
      in w \<noteq> [] \<and> last w = PermitNormalUpstream)"

definition outputs_quiet :: "ControllerLifecycleAction list \<Rightarrow> bool" where
  "outputs_quiet log \<longleftrightarrow>
     (let w = filter (\<lambda>a. a = PermitNormalUpstream \<or> a = ClearOutputs) log
      in w = [] \<or> last w = ClearOutputs)"

lemma upstream_open_simps [simp]:
  "\<not> upstream_open []"
  "upstream_open (log @ [a]) \<longleftrightarrow>
     (a = PermitNormalUpstream \<or> a \<noteq> GateNormalUpstream \<and> upstream_open log)"
  by (auto simp: upstream_open_def Let_def)

lemma outputs_quiet_simps [simp]:
  "outputs_quiet []"
  "outputs_quiet (log @ [a]) \<longleftrightarrow>
     (a = ClearOutputs \<or> a \<noteq> PermitNormalUpstream \<and> outputs_quiet log)"
  by (auto simp: outputs_quiet_def Let_def)

section \<open>The invariant\<close>

text \<open>A planned transition follows an edge of the diagram; only a USB reset moves the generation
  on, and only a metadata request names a new transfer.\<close>

definition plan_ok :: "ControllerLifecycle \<Rightarrow> controllerLifecycleTransition \<Rightarrow> u64 \<Rightarrow> bool" where
  "plan_ok c tr n \<longleftrightarrow>
     lifecycle_edge (lstate c) (tr_decision tr) (co_state (tr_target tr)) \<and>
     co_generation (tr_target tr) = co_generation (cl_core c) +
       (if tr_decision tr = [GateNormalUpstream, ClearOutputs, SendHello] then 1 else 0) \<and>
     co_generation (tr_target tr) \<noteq> 0 \<and>
     (tr_decision tr = [BeginMetadata] \<longrightarrow> co_metadataTransferGeneration (tr_target tr) = n) \<and>
     (tr_decision tr = [ClearOutputs] \<longrightarrow> tr_target tr = cl_core c \<and> tr_deadline tr = NoDeadline)"

text \<open>The newest metadata request, as its claim names it.\<close>

definition newest_fence :: "ControllerLifecycleClaim list \<Rightarrow> ControllerMetadataTransferFence option" where
  "newest_fence issued =
     (let w = filter (\<lambda>x. lcm_action x = BeginMetadata) issued
      in if w = [] then None else claim_MetadataTransferFence (last w))"

definition core_inv :: "lifecycle_run \<Rightarrow> bool" where
  "core_inv r \<longleftrightarrow> (let c = lr_lifecycle r in
     lstate c \<noteq> LifecycleUninitialized \<and> co_generation (cl_core c) \<noteq> 0 \<and>
     (cl_pendingTransition c \<longrightarrow>
        plan_ok c (cl_transition c) (cl_nextMetadataTransferGeneration c) \<and>
        unat (cl_actionCursor c) < length (plan c) \<and>
        (\<exists>prev. lr_delivered r = prev @ take (unat (cl_actionCursor c)) (plan c))) \<and>
     (cl_hasClaim c \<longrightarrow> cl_pendingTransition c \<and> \<not> cl_retryPending c \<and> lr_issued r \<noteq> [] \<and>
        lifecycle_validateClaim c (last (lr_issued r)) = None))"

definition upstream_inv :: "lifecycle_run \<Rightarrow> bool" where
  "upstream_inv r \<longleftrightarrow> (let c = lr_lifecycle r; log = lr_delivered r in
     (upstream_open log \<longrightarrow> lstate c = LifecycleActive) \<and>
     (lstate c = LifecycleActive \<and> \<not> upstream_open log \<longrightarrow>
        cl_pendingTransition c \<and> hd (plan c) = GateNormalUpstream) \<and>
     (lstate c \<noteq> LifecycleActive \<longrightarrow> outputs_quiet log))"

definition fence_inv :: "lifecycle_run \<Rightarrow> bool" where
  "fence_inv r \<longleftrightarrow> (let c = lr_lifecycle r in
     (\<not> cl_pendingTransition c \<and> lstate c = LifecycleMetadata \<or>
      cl_pendingTransition c \<and> plan c = [BeginMetadata] \<longrightarrow>
        cl_nextMetadataTransferGeneration c \<noteq> 0 \<and>
        newest_fence (lr_issued r) = Some \<lparr> mf_TransportGeneration = co_generation (cl_core c),
          mf_TransferGeneration = cl_nextMetadataTransferGeneration c \<rparr>) \<and>
     (\<not> cl_pendingTransition c \<and> lstate c = LifecycleMetadata \<longrightarrow>
        co_metadataTransferGeneration (cl_core c) = cl_nextMetadataTransferGeneration c))"

definition lifecycle_inv :: "lifecycle_run \<Rightarrow> bool" where
  "lifecycle_inv r \<longleftrightarrow> core_inv r \<and> upstream_inv r \<and> fence_inv r"

section \<open>Claims\<close>

lemma lifecycle_token:
  "\<exists>token. lifecycle_nextClaimToken c = (token, c\<lparr> cl_nextToken := token \<rparr>) \<and> token \<noteq> 0"
  by (simp add: lifecycle_nextClaimToken_def Let_def)

definition same_plan :: "ControllerLifecycle \<Rightarrow> ControllerLifecycle \<Rightarrow> bool" where
  "same_plan c c' \<longleftrightarrow> cl_core c' = cl_core c \<and> cl_pendingTransition c' = cl_pendingTransition c \<and>
     cl_transition c' = cl_transition c \<and> cl_actionCursor c' = cl_actionCursor c \<and>
     cl_nextMetadataTransferGeneration c' = cl_nextMetadataTransferGeneration c"

lemma claim_current:
  assumes "claimCurrentAction c now keep = (claim, c')"
  shows "same_plan c c'" "cl_hasClaim c'" "\<not> cl_claimAdmitted c'" "cl_lastNowMS c' = now"
    "cl_retryPending c' = cl_retryPending c"
    "lcm_action claim = currentAction c" "lcm_generation claim = co_generation (cl_core c)"
    "currentAction c = BeginMetadata \<Longrightarrow> lcm_metadataTransferGeneration claim =
       co_metadataTransferGeneration (tr_target (cl_transition c))"
    "cl_pendingTransition c \<Longrightarrow> lifecycle_validateClaim c' claim = None"
    "cl_pendingTransition c \<Longrightarrow>
       lifecycle_validateClaim (c'\<lparr> cl_retryPending := b \<rparr>) claim = None"
proof -
  define sel where "sel = (if keep then cl_actionSelectedAtMS c else now)"
  obtain token where token: "lifecycle_nextClaimToken (c\<lparr> cl_actionSelectedAtMS := sel \<rparr>) =
      (token, c\<lparr> cl_actionSelectedAtMS := sel, cl_nextToken := token \<rparr>)" "token \<noteq> 0"
    using lifecycle_token [of "c\<lparr> cl_actionSelectedAtMS := sel \<rparr>"] by auto
  have cur: "currentAction (c\<lparr> cl_actionSelectedAtMS := sel, cl_nextToken := token,
      cl_lastNowMS := now, cl_hasClaim := True, cl_claimAdmitted := False,
      cl_claimToken := token \<rparr>) = currentAction c"
    by (simp add: currentAction_def)
  have sel': "(if \<not> keep then c\<lparr> cl_actionSelectedAtMS := now \<rparr> else c) =
      c\<lparr> cl_actionSelectedAtMS := sel \<rparr>" by (simp add: sel_def)
  have c': "c' = c\<lparr> cl_actionSelectedAtMS := sel, cl_nextToken := token,
      cl_lastNowMS := now, cl_hasClaim := True, cl_claimAdmitted := False, cl_claimToken := token \<rparr>"
    and claim: "claim = \<lparr> lcm_owner = Some (cl_self c), lcm_token = token,
      lcm_generation = co_generation (cl_core c), lcm_transitionEpoch = cl_transitionEpoch c,
      lcm_metadataTransferGeneration = (if currentAction c = BeginMetadata
        then co_metadataTransferGeneration (tr_target (cl_transition c)) else 0),
      lcm_action = currentAction c, lcm_cursor = cl_actionCursor c,
      lcm_totalActions = decision_Len (tr_decision (cl_transition c)), lcm_selectedAtMS = sel \<rparr>"
    using assms unfolding claimCurrentAction_def sel' Let_def token prod.case cur
    by (cases "currentAction c = BeginMetadata"; simp)+
  have cur2: "currentAction (c'\<lparr> cl_retryPending := b \<rparr>) = currentAction c" "currentAction c' = currentAction c"
    by (simp_all add: c' currentAction_def)
  show "same_plan c c'" "cl_hasClaim c'" "\<not> cl_claimAdmitted c'" "cl_lastNowMS c' = now"
    "cl_retryPending c' = cl_retryPending c"
    "lcm_action claim = currentAction c" "lcm_generation claim = co_generation (cl_core c)"
    "currentAction c = BeginMetadata \<Longrightarrow> lcm_metadataTransferGeneration claim =
       co_metadataTransferGeneration (tr_target (cl_transition c))"
    by (simp_all add: c' claim same_plan_def)
  show "lifecycle_validateClaim c' claim = None" if "cl_pendingTransition c"
    using that token(2) unfolding lifecycle_validateClaim_def cur2 by (simp add: c' claim)
  show "lifecycle_validateClaim (c'\<lparr> cl_retryPending := b \<rparr>) claim = None" if "cl_pendingTransition c"
    using that token(2) unfolding lifecycle_validateClaim_def cur2 by (simp add: c' claim)
qed

lemma log_claim_fields [simp]:
  "lr_lifecycle (log_claim r x c) = c" "lr_delivered (log_claim r x c) = lr_delivered r"
  "lr_issued (log_claim r (Some y) c) = lr_issued r @ [y]"
  "lr_issued (log_claim r None c) = lr_issued r"
  by (simp_all add: log_claim_def)

lemma newest_fence_append [simp]:
  "newest_fence (issued @ [x]) =
     (if lcm_action x = BeginMetadata then claim_MetadataTransferFence x else newest_fence issued)"
  by (simp add: newest_fence_def)

lemma edge_plan:
  assumes "lifecycle_edge s acts s'"
  shows "acts \<noteq> []" "length acts \<le> 3" "NoAction \<notin> set acts"
    "i < length acts \<Longrightarrow> acts ! i = BeginMetadata \<longleftrightarrow> acts = [BeginMetadata]"
  using assms by (auto simp: lifecycle_edge_def nth_Cons split: nat.splits)

lemma current_nth:
  assumes "unat (cl_actionCursor c) < length (plan c)"
  shows "currentAction c = plan c ! unat (cl_actionCursor c)"
proof -
  have "int (unat (cl_actionCursor c)) < int (length (plan c))" using assms by (simp only: of_nat_less_iff)
  then show ?thesis by (simp add: currentAction_def decision_Action_def)
qed

section \<open>What the operations keep\<close>

lemma upstream_inv_same:
  "upstream_inv r \<Longrightarrow> same_plan (lr_lifecycle r) (lr_lifecycle r') \<Longrightarrow>
   lr_delivered r' = lr_delivered r \<Longrightarrow> upstream_inv r'"
  by (simp add: upstream_inv_def same_plan_def Let_def)

lemma plan_ok_same: "cl_core c' = cl_core c \<Longrightarrow> plan_ok c' = plan_ok c"
  by (simp add: plan_ok_def fun_eq_iff)

lemma inv_keep:
  assumes inv: "lifecycle_inv r" and same: "same_plan (lr_lifecycle r) c"
    and claim: "cl_hasClaim c \<Longrightarrow> cl_hasClaim (lr_lifecycle r) \<and> \<not> cl_retryPending c \<and>
      lifecycle_validateClaim c = lifecycle_validateClaim (lr_lifecycle r)"
  shows "lifecycle_inv (log_claim r None c)"
proof -
  note f = same [unfolded same_plan_def]
  have "core_inv (log_claim r None c)"
    using inv claim f plan_ok_same [of c "lr_lifecycle r"]
    unfolding lifecycle_inv_def core_inv_def Let_def by simp
  moreover have "fence_inv (log_claim r None c)"
    using inv f unfolding lifecycle_inv_def fence_inv_def Let_def by simp
  moreover have "upstream_inv (log_claim r None c)"
    using inv same upstream_inv_same [of r "log_claim r None c"] by (simp add: lifecycle_inv_def)
  ultimately show ?thesis by (simp add: lifecycle_inv_def)
qed

lemma inv_reclaim:
  assumes inv: "lifecycle_inv r" and same: "same_plan (lr_lifecycle r) c"
    and pend: "cl_pendingTransition c" and retry: "\<not> cl_retryPending c"
    and valid: "lifecycle_validateClaim c claim = None"
    and claim: "lcm_action claim = currentAction (lr_lifecycle r)"
      "lcm_generation claim = co_generation (cl_core (lr_lifecycle r))"
      "currentAction (lr_lifecycle r) = BeginMetadata \<Longrightarrow> lcm_metadataTransferGeneration claim =
         co_metadataTransferGeneration (tr_target (cl_transition (lr_lifecycle r)))"
  shows "lifecycle_inv (log_claim r (Some claim) c)"
proof -
  let ?c = "lr_lifecycle r"
  note f = same [unfolded same_plan_def]
  have core: "core_inv (log_claim r (Some claim) c)"
    using inv f pend retry valid plan_ok_same [of c ?c]
    unfolding lifecycle_inv_def core_inv_def Let_def by simp
  have up: "upstream_inv (log_claim r (Some claim) c)"
    using inv same upstream_inv_same [of r "log_claim r (Some claim) c"] by (simp add: lifecycle_inv_def)
  have p: "cl_pendingTransition ?c" using f pend by simp
  have plan: "plan_ok ?c (cl_transition ?c) (cl_nextMetadataTransferGeneration ?c)"
    "unat (cl_actionCursor ?c) < length (plan ?c)" "co_generation (cl_core ?c) \<noteq> 0"
    using inv p by (simp_all add: lifecycle_inv_def core_inv_def Let_def)
  then have edge: "lifecycle_edge (lstate ?c) (plan ?c) (co_state (tr_target (cl_transition ?c)))"
    by (simp add: plan_ok_def)
  have act: "currentAction ?c = BeginMetadata \<longleftrightarrow> plan ?c = [BeginMetadata]"
    using edge_plan(4) [OF edge plan(2)] current_nth [OF plan(2)] by simp
  have mtg: "plan ?c = [BeginMetadata] \<Longrightarrow> co_metadataTransferGeneration (tr_target (cl_transition ?c)) =
      cl_nextMetadataTransferGeneration ?c" using plan(1) by (simp add: plan_ok_def)
  have "fence_inv (log_claim r (Some claim) c)"
  proof (cases "plan ?c = [BeginMetadata]")
    case True
    then have "cl_nextMetadataTransferGeneration ?c \<noteq> 0"
      using inv p by (simp add: lifecycle_inv_def fence_inv_def Let_def)
    then show ?thesis
      using True p f act mtg claim plan(3)
      by (simp add: fence_inv_def Let_def claim_MetadataTransferFence_def)
  next
    case False
    then show ?thesis using p f by (simp add: fence_inv_def Let_def)
  qed
  with core up show ?thesis by (simp add: lifecycle_inv_def)
qed

lemma inv_init: "lifecycle_inv r \<Longrightarrow> lifecycle_validateInitialized (lr_lifecycle r) = None"
  by (simp add: lifecycle_inv_def core_inv_def lifecycle_validateInitialized_def Let_def)

lemma same_plan_clock [simp]: "same_plan c (c\<lparr> cl_lastNowMS := now \<rparr>)"
  by (simp add: same_plan_def)

lemma same_plan_refl [simp]: "same_plan c c"
  by (simp add: same_plan_def)

lemma validateClaim_clock [simp]:
  "lifecycle_validateClaim (c\<lparr> cl_lastNowMS := now \<rparr>) = lifecycle_validateClaim c"
  by (rule ext) (simp add: lifecycle_validateClaim_def currentAction_def)

lemma inv_clock:
  assumes "lifecycle_inv r"
  shows "lifecycle_inv (log_claim r None ((lr_lifecycle r)\<lparr> cl_lastNowMS := now \<rparr>))"
    "lifecycle_inv (log_claim r None (lr_lifecycle r))"
proof -
  have "cl_hasClaim (lr_lifecycle r) \<Longrightarrow> \<not> cl_retryPending (lr_lifecycle r)"
    using assms by (simp add: lifecycle_inv_def core_inv_def Let_def)
  then show "lifecycle_inv (log_claim r None ((lr_lifecycle r)\<lparr> cl_lastNowMS := now \<rparr>))"
    "lifecycle_inv (log_claim r None (lr_lifecycle r))"
    by (auto intro!: inv_keep [OF assms])
qed


text \<open>A transition begins: from a lifecycle without a transition or one whose unfinished
  transition was discarded.\<close>

lemma begin_fails: "beginTransition c tr now = (Inl e, c') \<Longrightarrow> c' = c"
  by (auto simp: beginTransition_def allocateTransitionEpoch_def Let_def
      split: if_splits prod.splits sum.splits)

lemma begin_succeeds:
  assumes "beginTransition c tr now = (Inr claim, c')"
  obtains c0 where "claimCurrentAction c0 now False = (claim, c')" "cl_core c0 = cl_core c"
    "cl_pendingTransition c0" "cl_transition c0 = tr" "cl_actionCursor c0 = 0"
    "\<not> cl_retryPending c0"
    "cl_nextMetadataTransferGeneration c0 = (if fst (decision_Action (tr_decision tr) 0) = BeginMetadata
       then co_metadataTransferGeneration (tr_target tr) else cl_nextMetadataTransferGeneration c)"
    "fst (decision_Action (tr_decision tr) 0) = BeginMetadata \<Longrightarrow>
       cl_nextMetadataTransferGeneration c \<noteq> NOT 0 \<and> co_metadataTransferGeneration (tr_target tr) =
         cl_nextMetadataTransferGeneration c + 1"
proof -
  let ?meta = "fst (decision_Action (tr_decision tr) 0) = BeginMetadata"
  let ?n = "co_metadataTransferGeneration (tr_target tr)"
  let ?e = "cl_nextTransitionEpoch c + 1"
  define c0 where "c0 = (if ?meta \<and> ?n \<noteq> 0
      then c\<lparr> cl_nextTransitionEpoch := ?e, cl_nextMetadataTransferGeneration := ?n \<rparr>
      else c\<lparr> cl_nextTransitionEpoch := ?e \<rparr>)
      \<lparr> cl_pendingTransition := True, cl_transitionEpoch := ?e, cl_transition := tr,
        cl_actionCursor := 0, cl_actionSelectedAtMS := 0, cl_retryPending := False \<rparr>"
  have guard: "?meta \<Longrightarrow> cl_nextMetadataTransferGeneration c \<noteq> NOT 0 \<and>
      ?n = cl_nextMetadataTransferGeneration c + 1"
    using assms by (auto simp: beginTransition_def Let_def split: if_splits)
  have n0: "?meta \<Longrightarrow> ?n \<noteq> 0" using guard by (auto simp: add_eq_0_iff2)
  have "claimCurrentAction c0 now False = (claim, c')"
    using assms guard n0
    by (auto simp: beginTransition_def allocateTransitionEpoch_def Let_def c0_def
        split: if_splits prod.splits)
  then show thesis
  proof (rule that)
  qed (use guard n0 in \<open>auto simp: c0_def\<close>)
qed

lemma inv_begin:
  assumes inv: "lifecycle_inv r" and core: "cl_core c = cl_core (lr_lifecycle r)"
    and plan: "plan_ok c tr (if tr_decision tr = [BeginMetadata]
        then cl_nextMetadataTransferGeneration c + 1 else cl_nextMetadataTransferGeneration c)"
    and alloc: "cl_nextMetadataTransferGeneration c = cl_nextMetadataTransferGeneration (lr_lifecycle r)"
    and gate: "hd (tr_decision tr) = GateNormalUpstream \<or> \<not> cl_pendingTransition (lr_lifecycle r)"
    and start: "beginTransition c tr now = (Inr claim, c')"
  shows "lifecycle_inv (log_claim r (Some claim) c')"
proof -
  let ?r = "lr_lifecycle r"
  have edge: "lifecycle_edge (lstate c) (tr_decision tr) (co_state (tr_target tr))"
    using plan by (simp add: plan_ok_def)
  have first: "fst (decision_Action (tr_decision tr) 0) = BeginMetadata \<longleftrightarrow> tr_decision tr = [BeginMetadata]"
    using edge by (auto simp: decision_Action_def lifecycle_edge_def)
  obtain c0 where c0: "claimCurrentAction c0 now False = (claim, c')" "cl_core c0 = cl_core c"
    "cl_pendingTransition c0" "cl_transition c0 = tr" "cl_actionCursor c0 = 0"
    "\<not> cl_retryPending c0"
    "cl_nextMetadataTransferGeneration c0 = (if tr_decision tr = [BeginMetadata]
       then co_metadataTransferGeneration (tr_target tr) else cl_nextMetadataTransferGeneration c)"
    "tr_decision tr = [BeginMetadata] \<Longrightarrow>
       cl_nextMetadataTransferGeneration c \<noteq> NOT 0 \<and> co_metadataTransferGeneration (tr_target tr) =
         cl_nextMetadataTransferGeneration c + 1"
    using begin_succeeds [OF start] unfolding first by metis
  note cc = claim_current [OF c0(1)]
  note f = cc(1) [unfolded same_plan_def]
  have act: "currentAction c0 = hd (tr_decision tr)"
    using current_nth [of c0] c0(4,5) edge_plan(1) [OF edge] by (simp add: hd_conv_nth)
  have meta: "hd (tr_decision tr) = BeginMetadata \<longleftrightarrow> tr_decision tr = [BeginMetadata]"
    using edge by (auto simp: lifecycle_edge_def)
  have init: "lstate ?r \<noteq> LifecycleUninitialized" "co_generation (cl_core ?r) \<noteq> 0"
    using inv by (simp_all add: lifecycle_inv_def core_inv_def Let_def)
  have "plan_ok c' tr (cl_nextMetadataTransferGeneration c')"
    using plan plan_ok_same [of c' c] f c0(2,7,8) by (cases "tr_decision tr = [BeginMetadata]") simp_all
  then have "core_inv (log_claim r (Some claim) c')"
    using init core c0(2-6) f cc(5) cc(9) edge_plan(1) [OF edge]
    unfolding core_inv_def Let_def by simp
  moreover have "upstream_inv (log_claim r (Some claim) c')"
    using inv gate f c0(2,3,4) core unfolding lifecycle_inv_def upstream_inv_def Let_def by auto
  moreover have "fence_inv (log_claim r (Some claim) c')"
    using f c0 core cc(6-8) act meta init(2)
    by (auto simp: fence_inv_def Let_def claim_MetadataTransferFence_def add_eq_0_iff2)
  ultimately show ?thesis by (simp add: lifecycle_inv_def)
qed


abbreviation planned :: "ControllerLifecycle \<Rightarrow> controllerLifecycleTransition \<Rightarrow> bool" where
  "planned c tr \<equiv> plan_ok c tr (if tr_decision tr = [BeginMetadata]
     then cl_nextMetadataTransferGeneration c + 1 else cl_nextMetadataTransferGeneration c)"

lemma begin_required_inv:
  assumes "lifecycle_inv r" "planned c tr" "cl_core c = cl_core (lr_lifecycle r)"
    "cl_nextMetadataTransferGeneration c = cl_nextMetadataTransferGeneration (lr_lifecycle r)"
    "hd (tr_decision tr) = GateNormalUpstream \<or> \<not> cl_pendingTransition (lr_lifecycle r)"
    "fst (beginTransition c tr now) = Inr claim \<or> c = lr_lifecycle r"
  shows "lifecycle_inv (log_required r (beginTransition c tr now))"
proof (cases "beginTransition c tr now")
  case (Pair res c')
  show ?thesis
  proof (cases res)
    case (Inl e)
    then have "c' = lr_lifecycle r" using begin_fails [of c tr now e c'] Pair assms(6) by auto
    then show ?thesis using inv_clock(2) [OF assms(1)] Pair Inl by (simp add: log_required_def)
  next
    case (Inr x)
    then show ?thesis
      using inv_begin [OF assms(1,3,2,4,5)] Pair by (simp add: log_required_def)
  qed
qed

lemma begin_present_inv:
  assumes "lifecycle_inv r" "planned (lr_lifecycle r) tr" "\<not> cl_pendingTransition (lr_lifecycle r)"
  shows "lifecycle_inv (log_optional r (begin_present (lr_lifecycle r) tr now))"
proof -
  have "log_optional r (begin_present (lr_lifecycle r) tr now) =
      log_required r (beginTransition (lr_lifecycle r) tr now)"
    by (simp add: log_optional_def log_required_def begin_present_def split: prod.split sum.split)
  then show ?thesis using begin_required_inv [OF assms(1,2)] assms(3) by simp
qed

lemma select_planned:
  assumes "selectHostCommand c command = Inr (Some tr)" "co_generation (cl_core c) \<noteq> 0"
  shows "planned c tr"
  using assms
  by (auto simp: selectHostCommand_def some_metadataTransition_def metadataTransition_def
      startTransition_def terminationTransition_def plan_ok_def lifecycle_edge_def Let_def
      zero_transition_def
      split: if_splits ControllerLifecycleState.splits sum.splits option.splits)

lemma optional_error: "lifecycle_inv r \<Longrightarrow> lifecycle_inv (log_optional r (Inl e, lr_lifecycle r))"
  by (simp add: log_optional_def inv_clock)

lemma optional_none:
  "lifecycle_inv r \<Longrightarrow> lifecycle_inv (log_optional r (Inr None, (lr_lifecycle r)\<lparr> cl_lastNowMS := now \<rparr>))"
  by (simp add: log_optional_def inv_clock)

lemma no_transition:
  "lifecycle_validateNoTransition c now = None \<Longrightarrow>
     \<not> cl_pendingTransition c \<and> co_generation (cl_core c) \<noteq> 0 \<and> cl_lastNowMS c \<le> now"
  by (auto simp: lifecycle_validateNoTransition_def lifecycle_validateInitialized_def
      lifecycle_validateClock_def split: option.splits if_splits)

lemma ClaimHostCommand_inv:
  assumes "lifecycle_inv r"
  shows "lifecycle_inv (log_optional r (ClaimHostCommand (lr_lifecycle r) now command))"
  using assms no_transition [of "lr_lifecycle r" now] select_planned [of "lr_lifecycle r" command]
  by (auto simp: ClaimHostCommand_def intro!: optional_error optional_none begin_present_inv
      split: option.split sum.split)

lemma ClaimHostWire_inv:
  "lifecycle_inv r \<Longrightarrow> lifecycle_inv (log_optional r (ClaimHostWire (lr_lifecycle r) now wire))"
  by (simp add: ClaimHostWire_def ClaimHostCommand_inv optional_error split: sum.split)

lemma ClaimPoll_inv:
  assumes "lifecycle_inv r"
  shows "lifecycle_inv (log_optional r (ClaimPoll (lr_lifecycle r) now))"
  using assms no_transition [of "lr_lifecycle r" now]
  by (auto simp: ClaimPoll_def Let_def plan_ok_def lifecycle_edge_def zero_transition_def
      intro!: optional_error optional_none begin_present_inv
      split: option.split ControllerLifecycleState.split)

lemma required_error: "lifecycle_inv r \<Longrightarrow> lifecycle_inv (log_required r (Inl e, lr_lifecycle r))"
  by (simp add: log_required_def inv_clock)

lemma ClaimMetadataTransferFailed_inv:
  assumes "lifecycle_inv r"
  shows "lifecycle_inv (log_required r (ClaimMetadataTransferFailed (lr_lifecycle r) now fence))"
  using assms no_transition [of "lr_lifecycle r" now]
  by (auto simp: ClaimMetadataTransferFailed_def plan_ok_def lifecycle_edge_def
      intro!: required_error begin_required_inv split: option.split)

lemma begin_epoch:
  assumes "cl_nextTransitionEpoch c \<noteq> NOT 0" "hd (tr_decision tr) \<noteq> BeginMetadata" "tr_decision tr \<noteq> []"
  shows "\<exists>claim. fst (beginTransition c tr now) = Inr claim"
  using assms
  by (auto simp: beginTransition_def allocateTransitionEpoch_def decision_Action_def hd_conv_nth Let_def
      split: prod.split)

lemma ClaimRestartAfterUSBReset_inv:
  assumes "lifecycle_inv r"
  shows "lifecycle_inv (log_required r (ClaimRestartAfterUSBReset (lr_lifecycle r) now))"
proof -
  define c where "c = clearPendingTransition (lr_lifecycle r)"
  define tr where "tr = \<lparr> tr_decision = [GateNormalUpstream, ClearOutputs, SendHello],
    tr_target = (cl_core c)\<lparr> co_state := LifecycleArrival,
      co_generation := co_generation (cl_core c) + 1, co_terminationMS := 0 \<rparr>,
    tr_deadline = HelloAfterDelivery \<rparr>"
  have c: "cl_core c = cl_core (lr_lifecycle r)"
    "cl_nextMetadataTransferGeneration c = cl_nextMetadataTransferGeneration (lr_lifecycle r)"
    "cl_nextTransitionEpoch c = cl_nextTransitionEpoch (lr_lifecycle r)"
    by (simp_all add: c_def clearPendingTransition_def)
  have "planned c tr" if "co_generation (cl_core c) \<noteq> NOT 0"
    using that assms unfolding lifecycle_inv_def core_inv_def Let_def
    by (auto simp: plan_ok_def lifecycle_edge_def tr_def c(1) add_eq_0_iff2)
  moreover have "\<exists>claim. fst (beginTransition c tr now) = Inr claim"
    if "cl_nextTransitionEpoch (lr_lifecycle r) \<noteq> NOT 0"
    using that begin_epoch [of c tr now] c(3) by (simp add: tr_def)
  moreover have "hd (tr_decision tr) = GateNormalUpstream" by (simp add: tr_def)
  ultimately have main: "lifecycle_inv (log_required r (beginTransition c tr now))"
    if "co_generation (cl_core (lr_lifecycle r)) \<noteq> NOT 0" "cl_nextTransitionEpoch (lr_lifecycle r) \<noteq> NOT 0"
    using that begin_required_inv [OF assms _ c(1,2)] c(1) by metis
  show ?thesis
    unfolding ClaimRestartAfterUSBReset_def Let_def c_def [symmetric] tr_def [symmetric]
    using main required_error [OF assms] by (simp split: option.split)
qed


lemma ClaimNextAction_inv:
  assumes inv: "lifecycle_inv r"
  shows "lifecycle_inv (log_required r (ClaimNextAction (lr_lifecycle r) now))"
proof -
  let ?c = "lr_lifecycle r"
  obtain claim c' where cc: "claimCurrentAction ?c now False = (claim, c')" by fastforce
  have "lifecycle_inv (log_claim r (Some claim) c')" if "cl_pendingTransition ?c" "\<not> cl_retryPending ?c"
    using that claim_current [OF cc] inv
    by (intro inv_reclaim) (auto simp: same_plan_def)
  then show ?thesis
    using required_error [OF inv] cc
    by (auto simp: ClaimNextAction_def log_required_def split: option.split)
qed

lemma ClaimRetry_inv:
  assumes inv: "lifecycle_inv r"
  shows "lifecycle_inv (log_required r (lifecycle_ClaimRetry (lr_lifecycle r) now))"
proof -
  let ?c = "lr_lifecycle r"
  obtain claim c' where cc: "claimCurrentAction ?c now True = (claim, c')" by fastforce
  have "lifecycle_inv (log_claim r (Some claim) (c'\<lparr> cl_retryPending := False \<rparr>))"
    if "cl_pendingTransition ?c"
    using that claim_current [OF cc] inv
    by (intro inv_reclaim) (auto simp: same_plan_def)
  then show ?thesis
    using required_error [OF inv] cc
    by (auto simp: lifecycle_ClaimRetry_def log_required_def split: option.split)
qed

lemma log_none: "r\<lparr> lr_lifecycle := c \<rparr> = log_claim r None c"
  by (simp add: log_claim_def)

lemma Admit_inv:
  assumes inv: "lifecycle_inv r"
  shows "lifecycle_inv (r\<lparr> lr_lifecycle := snd (lifecycle_Admit (lr_lifecycle r) claim now) \<rparr>)"
proof -
  let ?c = "(lr_lifecycle r)\<lparr> cl_lastNowMS := now, cl_claimAdmitted := True \<rparr>"
  have v: "lifecycle_validateClaim ?c = lifecycle_validateClaim (lr_lifecycle r)"
    by (rule ext) (simp add: lifecycle_validateClaim_def currentAction_def)
  have "cl_hasClaim (lr_lifecycle r) \<Longrightarrow> \<not> cl_retryPending (lr_lifecycle r)"
    using inv by (simp add: lifecycle_inv_def core_inv_def Let_def)
  then have "lifecycle_inv (log_claim r None ?c)"
    using v by (intro inv_keep [OF inv]) (simp_all add: same_plan_def)
  then show ?thesis
    unfolding log_none using inv_clock(2) [OF inv] by (auto simp: lifecycle_Admit_def split: option.split)
qed

lemma MetadataTransferSucceeded_inv:
  assumes inv: "lifecycle_inv r"
  shows "lifecycle_inv (r\<lparr> lr_lifecycle := snd (MetadataTransferSucceeded (lr_lifecycle r) now fence) \<rparr>)"
proof -
  let ?c = "(lr_lifecycle r)\<lparr> cl_lastNowMS := now,
    cl_core := (cl_core (lr_lifecycle r))\<lparr> co_state := LifecycleIdle \<rparr> \<rparr>"
  have "lifecycle_inv (log_claim r None ?c)"
    if "\<not> cl_pendingTransition (lr_lifecycle r)" "lstate (lr_lifecycle r) = LifecycleMetadata"
    using that inv
    by (auto simp: lifecycle_inv_def core_inv_def upstream_inv_def fence_inv_def Let_def)
  then show ?thesis
    unfolding log_none using inv_clock(2) [OF inv] no_transition [of "lr_lifecycle r" now]
    by (auto simp: MetadataTransferSucceeded_def split: option.split)
qed

section \<open>Delivery\<close>

lemma committed_target_fields [simp]:
  "co_state (committed_target tr now) = co_state (tr_target tr)"
  "co_generation (committed_target tr now) = co_generation (tr_target tr)"
  "co_metadataTransferGeneration (committed_target tr now) = co_metadataTransferGeneration (tr_target tr)"
  by (simp_all add: committed_target_def split: lifecycleDeadlinePolicy.split)

lemma cursor_more:
  assumes "unat (cl_actionCursor c) < length (plan c)" "length (plan c) \<le> 3"
  shows "cl_actionCursor c + 1 < decision_Len (plan c) \<longleftrightarrow> Suc (unat (cl_actionCursor c)) < length (plan c)"
    "unat (cl_actionCursor c + 1) = Suc (unat (cl_actionCursor c))"
proof -
  show s: "unat (cl_actionCursor c + 1) = Suc (unat (cl_actionCursor c))"
    using assms unat_plus_simple [of "cl_actionCursor c" 1] no_olen_add_nat [of "cl_actionCursor c" 1]
    by simp
  have "unat (decision_Len (plan c)) = length (plan c)"
    unfolding decision_Len_def using assms by (intro unat_of_nat_less) simp
  then show "cl_actionCursor c + 1 < decision_Len (plan c) \<longleftrightarrow>
      Suc (unat (cl_actionCursor c)) < length (plan c)"
    using s by (simp add: word_less_nat_alt)
qed


text \<open>The three ways a resolution ends.\<close>

lemma resolve_cases:
  assumes "lifecycle_Resolve c claim outcome now = (err, c')"
  obtains (rejected) e where "err = Some e" "c' = c"
  | (undelivered) now' where "err = None" "outcome \<noteq> LifecycleDelivered"
      "lifecycle_validateClaim c claim = None"
      "c' = c\<lparr> cl_lastNowMS := now', cl_hasClaim := False, cl_claimAdmitted := False,
               cl_claimToken := 0, cl_retryPending := True \<rparr>"
  | (advanced) now' where "err = None" "outcome = LifecycleDelivered"
      "lifecycle_validateClaim c claim = None" "cl_claimAdmitted c"
      "cl_actionCursor c + 1 < decision_Len (plan c)"
      "c' = c\<lparr> cl_lastNowMS := now', cl_hasClaim := False, cl_claimAdmitted := False,
               cl_claimToken := 0, cl_retryPending := False,
               cl_actionCursor := cl_actionCursor c + 1, cl_actionSelectedAtMS := 0 \<rparr>"
  | (committed) now' where "err = None" "outcome = LifecycleDelivered"
      "lifecycle_validateClaim c claim = None" "cl_claimAdmitted c"
      "\<not> cl_actionCursor c + 1 < decision_Len (plan c)"
      "cl_core c' = committed_target (cl_transition c) now'" "\<not> cl_pendingTransition c'"
      "\<not> cl_hasClaim c'" "\<not> cl_retryPending c'" "cl_lastNowMS c' = now'"
      "cl_nextMetadataTransferGeneration c' = cl_nextMetadataTransferGeneration c"
proof -
  define now' where "now' = (if now < cl_lastNowMS c then cl_lastNowMS c else now)"
  note res = assms [unfolded lifecycle_Resolve_def Let_def now'_def [symmetric]]
  show thesis
  proof (cases err)
    case (Some e)
    then show ?thesis using res that(1) by (auto split: option.splits if_splits)
  next
    case None
    then have v: "lifecycle_validateClaim c claim = None"
      using res by (auto split: option.splits)
    consider "outcome \<noteq> LifecycleDelivered"
      | "outcome = LifecycleDelivered" "cl_actionCursor c + 1 < decision_Len (plan c)"
      | "outcome = LifecycleDelivered" "\<not> cl_actionCursor c + 1 < decision_Len (plan c)" by blast
    then show ?thesis
    proof cases
      case 1
      then show ?thesis by (intro that(2) [of now']) (use res None v in \<open>auto split: if_splits\<close>)
    next
      case 2
      then show ?thesis by (intro that(3) [of now']) (use res None v in \<open>auto split: if_splits\<close>)
    next
      case 3
      then show ?thesis
        by (intro that(4) [of now'])
           (use res None v in \<open>auto simp: clearPendingTransition_def split: if_splits\<close>)
    qed
  qed
qed

lemma valid_claim_action:
  "lifecycle_validateClaim c claim = None \<Longrightarrow>
     lcm_action claim = currentAction c \<and> cl_pendingTransition c \<and> cl_hasClaim c"
  by (simp add: lifecycle_validateClaim_def split: if_splits)

text \<open>What the delivery of the action at the cursor of an edge does to the upstream gate and the
  outputs.\<close>

lemma edge_advance:
  assumes "lifecycle_edge s acts s'" "Suc i < length acts"
  shows "acts ! i \<noteq> PermitNormalUpstream" "acts ! i = GateNormalUpstream \<Longrightarrow> hd acts = GateNormalUpstream"
    "hd acts = ClearOutputs \<Longrightarrow> acts = [ClearOutputs]"
  using assms by (auto simp: lifecycle_edge_def nth_Cons less_Suc_eq split: nat.splits)

lemma edge_commit:
  assumes "lifecycle_edge s acts s'" "Suc i = length acts" "log = prev @ take i acts"
    "upstream_open log \<longrightarrow> s = LifecycleActive"
    "s = LifecycleActive \<and> \<not> upstream_open log \<longrightarrow> hd acts = GateNormalUpstream"
    "s \<noteq> LifecycleActive \<longrightarrow> outputs_quiet log"
  shows "upstream_open (log @ [acts ! i]) \<longleftrightarrow> s' = LifecycleActive"
    "s' \<noteq> LifecycleActive \<Longrightarrow> outputs_quiet (log @ [acts ! i])"
proof -
  have g: "\<not> upstream_open (prev @ [GateNormalUpstream, ClearOutputs])"
    "\<not> upstream_open (prev @ [GateNormalUpstream])"
    "outputs_quiet (prev @ [GateNormalUpstream, ClearOutputs])"
    using upstream_open_simps(2) [of "prev @ [GateNormalUpstream]" ClearOutputs]
      outputs_quiet_simps(2) [of "prev @ [GateNormalUpstream]" ClearOutputs] by simp_all
  show "upstream_open (log @ [acts ! i]) \<longleftrightarrow> s' = LifecycleActive"
    unfolding upstream_open_simps(2) using assms g by (auto simp: lifecycle_edge_def)
  show "outputs_quiet (log @ [acts ! i])" if "s' \<noteq> LifecycleActive"
    unfolding outputs_quiet_simps(2) using that assms g by (auto simp: lifecycle_edge_def)
qed


lemma pending_facts:
  assumes "lifecycle_inv r" "cl_pendingTransition (lr_lifecycle r)"
  obtains prev where
    "plan_ok (lr_lifecycle r) (cl_transition (lr_lifecycle r))
       (cl_nextMetadataTransferGeneration (lr_lifecycle r))"
    "lifecycle_edge (lstate (lr_lifecycle r)) (plan (lr_lifecycle r))
       (co_state (tr_target (cl_transition (lr_lifecycle r))))"
    "unat (cl_actionCursor (lr_lifecycle r)) < length (plan (lr_lifecycle r))"
    "length (plan (lr_lifecycle r)) \<le> 3"
    "lr_delivered r = prev @ take (unat (cl_actionCursor (lr_lifecycle r))) (plan (lr_lifecycle r))"
proof -
  have p: "plan_ok (lr_lifecycle r) (cl_transition (lr_lifecycle r))
      (cl_nextMetadataTransferGeneration (lr_lifecycle r))"
    "unat (cl_actionCursor (lr_lifecycle r)) < length (plan (lr_lifecycle r))"
    "\<exists>prev. lr_delivered r = prev @ take (unat (cl_actionCursor (lr_lifecycle r))) (plan (lr_lifecycle r))"
    using assms by (simp_all add: lifecycle_inv_def core_inv_def Let_def)
  then have e: "lifecycle_edge (lstate (lr_lifecycle r)) (plan (lr_lifecycle r))
      (co_state (tr_target (cl_transition (lr_lifecycle r))))" by (simp add: plan_ok_def)
  show thesis using that p e edge_plan(2) [OF e] by blast
qed

lemma log_delivery_fields [simp]:
  "lr_lifecycle (r\<lparr> lr_lifecycle := c, lr_delivered := log \<rparr>) = c"
  "lr_delivered (r\<lparr> lr_lifecycle := c, lr_delivered := log \<rparr>) = log"
  "lr_issued (r\<lparr> lr_lifecycle := c, lr_delivered := log \<rparr>) = lr_issued r"
  by simp_all

lemma advanced_inv:
  assumes inv: "lifecycle_inv r" and pend: "cl_pendingTransition (lr_lifecycle r)"
    and more: "cl_actionCursor (lr_lifecycle r) + 1 < decision_Len (plan (lr_lifecycle r))"
    and c': "c' = (lr_lifecycle r)\<lparr> cl_lastNowMS := now', cl_hasClaim := False,
      cl_claimAdmitted := False, cl_claimToken := 0, cl_retryPending := False,
      cl_actionCursor := cl_actionCursor (lr_lifecycle r) + 1, cl_actionSelectedAtMS := 0 \<rparr>"
  shows "lifecycle_inv (r\<lparr> lr_lifecycle := c',
    lr_delivered := lr_delivered r @ [currentAction (lr_lifecycle r)] \<rparr>)"
proof -
  let ?c = "lr_lifecycle r" and ?i = "unat (cl_actionCursor (lr_lifecycle r))"
  obtain prev where p: "plan_ok ?c (cl_transition ?c) (cl_nextMetadataTransferGeneration ?c)"
    "lifecycle_edge (lstate ?c) (plan ?c) (co_state (tr_target (cl_transition ?c)))"
    "?i < length (plan ?c)" "length (plan ?c) \<le> 3" "lr_delivered r = prev @ take ?i (plan ?c)"
    using pending_facts [OF inv pend] by blast
  have i: "Suc ?i < length (plan ?c)" "unat (cl_actionCursor ?c + 1) = Suc ?i"
    using cursor_more [OF p(3,4)] more by simp_all
  have act: "currentAction ?c = plan ?c ! ?i" by (rule current_nth) (fact p(3))
  note adv = edge_advance [OF p(2) i(1), folded act]
  have "lr_delivered r @ [currentAction ?c] = prev @ take (Suc ?i) (plan ?c)"
    using p(3,5) act by (simp add: take_Suc_conv_app_nth)
  then have "core_inv (r\<lparr> lr_lifecycle := c', lr_delivered := lr_delivered r @ [currentAction ?c] \<rparr>)"
    using inv p(1) i pend plan_ok_same [of c' ?c]
    unfolding lifecycle_inv_def core_inv_def Let_def c' log_delivery_fields by simp
  moreover have "upstream_inv (r\<lparr> lr_lifecycle := c', lr_delivered := lr_delivered r @ [currentAction ?c] \<rparr>)"
    using inv pend adv unfolding lifecycle_inv_def upstream_inv_def Let_def c' log_delivery_fields
    by auto
  moreover have "fence_inv (r\<lparr> lr_lifecycle := c', lr_delivered := lr_delivered r @ [currentAction ?c] \<rparr>)"
    using inv unfolding lifecycle_inv_def fence_inv_def Let_def c' log_delivery_fields by simp
  ultimately show ?thesis by (simp add: lifecycle_inv_def)
qed

lemma committed_inv:
  assumes inv: "lifecycle_inv r" and pend: "cl_pendingTransition (lr_lifecycle r)"
    and final: "\<not> cl_actionCursor (lr_lifecycle r) + 1 < decision_Len (plan (lr_lifecycle r))"
    and c': "cl_core c' = committed_target (cl_transition (lr_lifecycle r)) now'"
      "\<not> cl_pendingTransition c'" "\<not> cl_hasClaim c'"
      "cl_nextMetadataTransferGeneration c' = cl_nextMetadataTransferGeneration (lr_lifecycle r)"
  shows "lifecycle_inv (r\<lparr> lr_lifecycle := c',
    lr_delivered := lr_delivered r @ [currentAction (lr_lifecycle r)] \<rparr>)"
    "\<exists>prev. lr_delivered r @ [currentAction (lr_lifecycle r)] = prev @ plan (lr_lifecycle r)"
proof -
  let ?c = "lr_lifecycle r" and ?i = "unat (cl_actionCursor (lr_lifecycle r))"
  obtain prev where p: "plan_ok ?c (cl_transition ?c) (cl_nextMetadataTransferGeneration ?c)"
    "lifecycle_edge (lstate ?c) (plan ?c) (co_state (tr_target (cl_transition ?c)))"
    "?i < length (plan ?c)" "length (plan ?c) \<le> 3" "lr_delivered r = prev @ take ?i (plan ?c)"
    using pending_facts [OF inv pend] by blast
  have i: "Suc ?i = length (plan ?c)" using cursor_more [OF p(3,4)] final p(3) by simp
  have act: "currentAction ?c = plan ?c ! ?i" by (rule current_nth) (fact p(3))
  have "lr_delivered r @ [currentAction ?c] = prev @ take (Suc ?i) (plan ?c)"
    using p(3,5) act by (simp add: take_Suc_conv_app_nth)
  then show "\<exists>prev. lr_delivered r @ [currentAction ?c] = prev @ plan ?c" using i by auto
  have up: "upstream_open (lr_delivered r) \<longrightarrow> lstate ?c = LifecycleActive"
    "lstate ?c = LifecycleActive \<and> \<not> upstream_open (lr_delivered r) \<longrightarrow> hd (plan ?c) = GateNormalUpstream"
    "lstate ?c \<noteq> LifecycleActive \<longrightarrow> outputs_quiet (lr_delivered r)"
    using inv by (simp_all add: lifecycle_inv_def upstream_inv_def Let_def)
  note commit = edge_commit [OF p(2) i p(5) up, folded act]
  let ?r = "r\<lparr> lr_lifecycle := c', lr_delivered := lr_delivered r @ [currentAction ?c] \<rparr>"
  have core: "co_state (cl_core c') = co_state (tr_target (cl_transition ?c))"
    "co_generation (cl_core c') = co_generation (tr_target (cl_transition ?c))"
    "co_metadataTransferGeneration (cl_core c') =
       co_metadataTransferGeneration (tr_target (cl_transition ?c))" by (simp_all add: c'(1))
  have "co_state (cl_core c') \<noteq> LifecycleUninitialized"
    using p(2) core(1) by (auto simp: lifecycle_edge_def)
  moreover have "co_generation (cl_core c') \<noteq> 0"
    using p(1) unfolding core(2) plan_ok_def by blast
  ultimately have "core_inv ?r"
    using c'(2,3) unfolding core_inv_def Let_def log_delivery_fields by simp
  moreover have "upstream_inv ?r"
    unfolding upstream_inv_def Let_def log_delivery_fields core(1) using commit by simp
  moreover have "fence_inv ?r"
  proof (cases "plan ?c = [BeginMetadata]")
    case True
    then show ?thesis
      using inv p(1) pend c'(2,4) core
      unfolding fence_inv_def lifecycle_inv_def plan_ok_def Let_def log_delivery_fields by simp
  next
    case False
    then have "co_state (cl_core c') \<noteq> LifecycleMetadata"
      using p(2) core(1) by (auto simp: lifecycle_edge_def)
    then show ?thesis using c'(2) unfolding fence_inv_def Let_def log_delivery_fields by simp
  qed
  ultimately show "lifecycle_inv ?r" by (simp add: lifecycle_inv_def)
qed


lemma Resolve_inv:
  assumes inv: "lifecycle_inv r"
  shows "lifecycle_inv (lifecycle_step (OpResolveAction claim outcome now) r)"
proof -
  let ?c = "lr_lifecycle r"
  obtain err c' where res: "lifecycle_Resolve ?c claim outcome now = (err, c')" by fastforce
  from res show ?thesis
  proof (cases rule: resolve_cases)
    case (rejected e)
    then show ?thesis using res inv by simp
  next
    case (undelivered now')
    then have "lifecycle_inv (log_claim r None c')"
      by (intro inv_keep [OF inv]) (simp_all add: same_plan_def)
    moreover have "log_claim r None c' = r\<lparr> lr_lifecycle := c', lr_delivered := lr_delivered r \<rparr>"
      by (simp add: log_claim_def)
    ultimately show ?thesis using res undelivered(1,2) by simp
  next
    case (advanced now')
    note v = valid_claim_action [OF advanced(3)]
    have "lifecycle_inv (r\<lparr> lr_lifecycle := c', lr_delivered := lr_delivered r @ [currentAction ?c] \<rparr>)"
      using advanced_inv [OF inv _ advanced(5,6)] v by blast
    then show ?thesis using res advanced(1,2) v by simp
  next
    case (committed now')
    note v = valid_claim_action [OF committed(3)]
    have "lifecycle_inv (r\<lparr> lr_lifecycle := c', lr_delivered := lr_delivered r @ [currentAction ?c] \<rparr>)"
      using committed_inv(1) [OF inv _ committed(5,6,7,8,11)] v by blast
    then show ?thesis using res committed(1,2) v by simp
  qed
qed

lemma lifecycle_step_inv: "lifecycle_inv r \<Longrightarrow> lifecycle_inv (lifecycle_step op r)"
  using Resolve_inv
  by (cases op)
     (simp_all add: ClaimPoll_inv ClaimHostCommand_inv ClaimHostWire_inv MetadataTransferSucceeded_inv
       ClaimMetadataTransferFailed_inv ClaimRestartAfterUSBReset_inv ClaimNextAction_inv ClaimRetry_inv
       Admit_inv del: lifecycle_step.simps(10))

lemma lifecycle_start_inv: "lifecycle_inv (lifecycle_start self now)"
  by (simp add: lifecycle_inv_def core_inv_def upstream_inv_def fence_inv_def lifecycle_start_def
      NewControllerLifecycle_def zero_core_def Let_def)

interpretation lifecycle_machine: op_machine lifecycle_step lifecycle_inv "lifecycle_start self now"
  for self now
  by unfold_locales (erule lifecycle_step_inv, rule lifecycle_start_inv)

definition lifecycle_runs :: "lifecycle_op list \<Rightarrow> nat \<Rightarrow> u64 \<Rightarrow> lifecycle_run" where
  "lifecycle_runs ops self now = fold lifecycle_step ops (lifecycle_start self now)"

lemma lifecycle_runs_inv: "lifecycle_inv (lifecycle_runs ops self now)"
  unfolding lifecycle_runs_def by (rule lifecycle_machine.inv_run)


end
