(* ===== verification/Gip_Lifecycle_Safety.thy ===== *)
theory Gip_Lifecycle_Safety
  imports Gip_Lifecycle_Runs
begin

text \<open>
  The properties of the controller lifecycle: it refines its state diagram, normal input and the
  outputs follow the state, metadata results are bound to their request, and every transition can
  be finished.
\<close>

section \<open>Refinement of the state diagram\<close>

lemma claim_core: "claimCurrentAction c now keep = (claim, c') \<Longrightarrow> cl_core c' = cl_core c"
  using claim_current(1) by (simp add: same_plan_def)

lemma begin_core: "cl_core (snd (beginTransition c tr now)) = cl_core c"
proof (cases "beginTransition c tr now")
  case (Pair res c')
  then show ?thesis
  proof (cases res)
    case (Inl e)
    then show ?thesis using Pair begin_fails by fastforce
  next
    case (Inr claim)
    then obtain c0 where "claimCurrentAction c0 now False = (claim, c')" "cl_core c0 = cl_core c"
      using begin_succeeds Pair by blast
    then show ?thesis using claim_core Pair by fastforce
  qed
qed

lemma present_core: "cl_core (snd (begin_present c tr now)) = cl_core c"
  using begin_core [of c tr now] by (auto simp: begin_present_def split: prod.split sum.split)

lemma command_core: "cl_core (snd (ClaimHostCommand c now command)) = cl_core c"
  by (simp add: ClaimHostCommand_def present_core split: option.split sum.split)

lemma log_lifecycle [simp]:
  "lr_lifecycle (log_optional r res) = snd res" "lr_lifecycle (log_required r res') = snd res'"
  by (simp_all add: log_optional_def log_required_def)

lemma step_core:
  assumes "\<nexists>now fence. op = OpMetadataSucceeded now fence" "\<nexists>claim outcome now. op = OpResolveAction claim outcome now"
  shows "cl_core (lr_lifecycle (lifecycle_step op r)) = cl_core (lr_lifecycle r)"
  using assms
  by (cases op)
     (auto dest!: claim_core simp: begin_core ClaimPoll_def command_core ClaimHostWire_def ClaimMetadataTransferFailed_def
       ClaimRestartAfterUSBReset_def clearPendingTransition_def ClaimNextAction_def
       lifecycle_ClaimRetry_def lifecycle_Admit_def present_core Let_def
       split: option.split sum.split ControllerLifecycleState.split prod.split)

text \<open>C14: the lifecycle follows its state diagram. Whatever operations ran before, an operation
  leaves the committed state alone, or ends the metadata phase in Idle on a success report, or is
  the delivery of the last action of an edge of the diagram: then the actions delivered last are
  exactly the actions of that edge in their order, the state is the one the edge leads to, and the
  transport generation has advanced by one after a USB reset and not otherwise.\<close>

theorem lifecycle_follows_diagram:
  "let r = lifecycle_runs ops self now; r' = lifecycle_step op r;
       core = cl_core (lr_lifecycle r); core' = cl_core (lr_lifecycle r')
   in core' = core \<or>
      (\<exists>t fence. op = OpMetadataSucceeded t fence \<and> co_state core = LifecycleMetadata \<and>
         core' = core\<lparr> co_state := LifecycleIdle \<rparr>) \<or>
      (\<exists>claim t acts prev. op = OpResolveAction claim LifecycleDelivered t \<and>
         lifecycle_edge (co_state core) acts (co_state core') \<and>
         lr_delivered r' = prev @ acts \<and>
         co_generation core' = co_generation core +
           (if acts = [GateNormalUpstream, ClearOutputs, SendHello] then 1 else 0))"
proof -
  define r where "r = lifecycle_runs ops self now"
  let ?c = "lr_lifecycle r" and ?c' = "lr_lifecycle (lifecycle_step op r)"
  have inv: "lifecycle_inv r" unfolding r_def by (rule lifecycle_runs_inv)
  consider t fence where "op = OpMetadataSucceeded t fence"
    | claim outcome t where "op = OpResolveAction claim outcome t"
    | "cl_core ?c' = cl_core ?c" using step_core [of op r] by blast
  then have "cl_core ?c' = cl_core ?c \<or>
      (\<exists>t fence. op = OpMetadataSucceeded t fence \<and> lstate ?c = LifecycleMetadata \<and>
         cl_core ?c' = (cl_core ?c)\<lparr> co_state := LifecycleIdle \<rparr>) \<or>
      (\<exists>claim t acts prev. op = OpResolveAction claim LifecycleDelivered t \<and>
         lifecycle_edge (lstate ?c) acts (lstate ?c') \<and>
         lr_delivered (lifecycle_step op r) = prev @ acts \<and>
         co_generation (cl_core ?c') = co_generation (cl_core ?c) +
           (if acts = [GateNormalUpstream, ClearOutputs, SendHello] then 1 else 0))"
  proof cases
    case 1
    then show ?thesis by (auto simp: MetadataTransferSucceeded_def split: option.split)
  next
    case 2
    obtain err c' where res: "lifecycle_Resolve ?c claim outcome t = (err, c')" by fastforce
    then have c': "?c' = c'" using 2 by simp
    from res show ?thesis
    proof (cases rule: resolve_cases)
      case (committed now')
      note v = valid_claim_action [OF committed(3)]
      then have pend: "cl_pendingTransition ?c" by blast
      obtain prev where "lr_delivered r @ [currentAction ?c] = prev @ plan ?c"
        using committed_inv(2) [OF inv pend committed(5,6,7,8,11)] by blast
      then have log: "lr_delivered (lifecycle_step op r) = prev @ plan ?c"
        using 2 res v committed(1,2) by simp
      have "plan_ok ?c (cl_transition ?c) (cl_nextMetadataTransferGeneration ?c)"
        using pending_facts [OF inv pend] by blast
      then have "lifecycle_edge (lstate ?c) (plan ?c) (lstate ?c')"
        "co_generation (cl_core ?c') = co_generation (cl_core ?c) +
           (if plan ?c = [GateNormalUpstream, ClearOutputs, SendHello] then 1 else 0)"
        using committed(6) c' unfolding plan_ok_def by simp_all
      then show ?thesis using log 2 committed(2) by blast
    qed (simp_all add: c')
  qed simp
  then show ?thesis unfolding r_def Let_def .
qed


section \<open>Normal input and outputs follow the state\<close>

text \<open>C15: in every run, normal upstream input is open only while the committed state is Active;
  when no transition is pending it is open exactly then; and while the state is not Active the
  outputs have been cleared since input was last permitted.\<close>

theorem upstream_follows_state:
  "let r = lifecycle_runs ops self now; c = lr_lifecycle r; log = lr_delivered r in
     (upstream_open log \<longrightarrow> co_state (cl_core c) = LifecycleActive) \<and>
     (\<not> cl_pendingTransition c \<longrightarrow> upstream_open log = (co_state (cl_core c) = LifecycleActive)) \<and>
     (co_state (cl_core c) \<noteq> LifecycleActive \<longrightarrow> outputs_quiet log)"
  using lifecycle_runs_inv [of ops self now]
  unfolding lifecycle_inv_def upstream_inv_def Let_def by auto

text \<open>A controller that the host starts: three actions are claimed, admitted and delivered.\<close>

definition start_claim :: "nat \<Rightarrow> ControllerLifecycleClaim" where
  "start_claim i = \<lparr> lcm_owner = Some 3, lcm_token = of_nat (i + 1), lcm_generation = 1,
     lcm_transitionEpoch = 1, lcm_metadataTransferGeneration = 0,
     lcm_action = [SendCurrentStatus, SendInitialInput, PermitNormalUpstream] ! i,
     lcm_cursor = of_nat i, lcm_totalActions = 3, lcm_selectedAtMS = 20 \<rparr>"

definition start_ops :: "lifecycle_op list" where
  "start_ops =
     [OpCommand 20 \<lparr> hc_Kind = 2, hc_Sequence = 1, hc_State = 0 \<rparr>,
      OpAdmitAction (start_claim 0) 20, OpResolveAction (start_claim 0) LifecycleDelivered 20,
      OpNextAction 20,
      OpAdmitAction (start_claim 1) 20, OpResolveAction (start_claim 1) LifecycleDelivered 20,
      OpNextAction 20,
      OpAdmitAction (start_claim 2) 20, OpResolveAction (start_claim 2) LifecycleDelivered 20]"

theorem upstream_follows_state_witness:
  "\<not> cl_pendingTransition (lr_lifecycle (lifecycle_runs start_ops 3 10)) \<and>
   lstate (lr_lifecycle (lifecycle_runs start_ops 3 10)) = LifecycleActive \<and>
   upstream_open (lr_delivered (lifecycle_runs start_ops 3 10))"
proof -
  have "\<not> cl_pendingTransition (lr_lifecycle (lifecycle_runs start_ops 3 10)) \<and>
      lstate (lr_lifecycle (lifecycle_runs start_ops 3 10)) = LifecycleActive"
    by code_simp
  then show ?thesis using upstream_follows_state [of start_ops 3 10] by (simp add: Let_def)
qed


section \<open>Metadata results are bound to their request\<close>

lemma claim_epoch:
  assumes "claimCurrentAction c now keep = (claim, c')"
  shows "lcm_transitionEpoch claim = cl_transitionEpoch c" "cl_transitionEpoch c' = cl_transitionEpoch c"
  using assms by (auto simp: claimCurrentAction_def lifecycle_nextClaimToken_def Let_def split: if_splits)

text \<open>The three ways an operation changes what is issued: nothing is issued, the current action is
  claimed again, or a transition begins.\<close>

definition issues_none :: "lifecycle_run \<Rightarrow> lifecycle_run \<Rightarrow> bool" where
  "issues_none r r' \<longleftrightarrow> (let c = lr_lifecycle r; c' = lr_lifecycle r' in
     lr_issued r' = lr_issued r \<and>
     cl_nextMetadataTransferGeneration c' = cl_nextMetadataTransferGeneration c \<and>
     (cl_pendingTransition c' \<longrightarrow> cl_pendingTransition c \<and> cl_transition c' = cl_transition c \<and>
        cl_transitionEpoch c' = cl_transitionEpoch c))"

definition issues_again :: "lifecycle_run \<Rightarrow> lifecycle_run \<Rightarrow> bool" where
  "issues_again r r' \<longleftrightarrow> (let c = lr_lifecycle r; c' = lr_lifecycle r' in
     \<exists>claim. lr_issued r' = lr_issued r @ [claim] \<and> cl_pendingTransition c \<and>
       cl_nextMetadataTransferGeneration c' = cl_nextMetadataTransferGeneration c \<and>
       cl_transition c' = cl_transition c \<and> cl_transitionEpoch c' = cl_transitionEpoch c \<and>
       lcm_transitionEpoch claim = cl_transitionEpoch c \<and> lcm_action claim = currentAction c \<and>
       (currentAction c = BeginMetadata \<longrightarrow> lcm_metadataTransferGeneration claim =
          co_metadataTransferGeneration (tr_target (cl_transition c))))"

definition issues_fresh :: "lifecycle_run \<Rightarrow> lifecycle_run \<Rightarrow> bool" where
  "issues_fresh r r' \<longleftrightarrow> (let c = lr_lifecycle r; c' = lr_lifecycle r' in
     \<exists>claim. lr_issued r' = lr_issued r @ [claim] \<and>
       (if lcm_action claim = BeginMetadata
        then cl_nextMetadataTransferGeneration c \<noteq> NOT 0 \<and>
          cl_nextMetadataTransferGeneration c' = cl_nextMetadataTransferGeneration c + 1 \<and>
          lcm_metadataTransferGeneration claim = cl_nextMetadataTransferGeneration c + 1 \<and>
          lcm_transitionEpoch claim = cl_transitionEpoch c'
        else cl_nextMetadataTransferGeneration c' = cl_nextMetadataTransferGeneration c \<and>
          plan c' \<noteq> [BeginMetadata]))"

definition issues :: "lifecycle_run \<Rightarrow> lifecycle_run \<Rightarrow> bool" where
  "issues r r' \<longleftrightarrow> issues_none r r' \<or> issues_again r r' \<or> issues_fresh r r'"

lemma issues_begin:
  assumes "cl_nextMetadataTransferGeneration c = cl_nextMetadataTransferGeneration (lr_lifecycle r)"
    "fst (beginTransition c tr now) = Inr claim \<or> c = lr_lifecycle r"
  shows "issues r (log_required r (beginTransition c tr now))"
proof (cases "beginTransition c tr now")
  case (Pair res c')
  show ?thesis
  proof (cases res)
    case (Inl e)
    then have "c' = lr_lifecycle r" using begin_fails [of c tr now e c'] Pair assms(2) by auto
    then show ?thesis
      using Pair Inl by (simp add: issues_def issues_none_def log_required_def Let_def)
  next
    case (Inr x)
    let ?meta = "fst (decision_Action (tr_decision tr) 0) = BeginMetadata"
    obtain c0 where c0: "claimCurrentAction c0 now False = (x, c')" "cl_transition c0 = tr"
      "cl_actionCursor c0 = 0"
      "cl_nextMetadataTransferGeneration c0 = (if ?meta
         then co_metadataTransferGeneration (tr_target tr) else cl_nextMetadataTransferGeneration c)"
      "?meta \<Longrightarrow> cl_nextMetadataTransferGeneration c \<noteq> NOT 0 \<and>
         co_metadataTransferGeneration (tr_target tr) = cl_nextMetadataTransferGeneration c + 1"
      using begin_succeeds Pair Inr by blast
    note cc = claim_current [OF c0(1)]
    have act: "lcm_action x = fst (decision_Action (tr_decision tr) 0)"
      using cc(6) c0(2,3) by (simp add: currentAction_def)
    have "tr_decision tr \<noteq> [BeginMetadata]" if "\<not> ?meta" using that by (auto simp: decision_Action_def)
    then have "issues_fresh r (log_required r (beginTransition c tr now))"
      using Pair Inr act cc(1,6,8) c0(2,4,5) claim_epoch [OF c0(1)] assms(1)
      by (auto simp: issues_fresh_def log_required_def same_plan_def Let_def)
    then show ?thesis by (simp add: issues_def)
  qed
qed


lemma issues_none_log:
  "issues r (log_optional r (Inl e, lr_lifecycle r))"
  "issues r (log_required r (Inl e, lr_lifecycle r))"
  "issues r (log_optional r (Inr None, (lr_lifecycle r)\<lparr> cl_lastNowMS := now \<rparr>))"
  by (simp_all add: issues_def issues_none_def log_optional_def log_required_def Let_def)

lemma issues_present: "issues r (log_optional r (begin_present (lr_lifecycle r) tr now))"
proof -
  have "log_optional r (begin_present (lr_lifecycle r) tr now) =
      log_required r (beginTransition (lr_lifecycle r) tr now)"
    by (simp add: log_optional_def log_required_def begin_present_def split: prod.split sum.split)
  then show ?thesis by (simp add: issues_begin)
qed

lemma issues_command: "issues r (log_optional r (ClaimHostCommand (lr_lifecycle r) now command))"
  by (simp add: ClaimHostCommand_def issues_none_log issues_present split: option.split sum.split)

lemma issues_reset:
  "issues r (log_required r (ClaimRestartAfterUSBReset (lr_lifecycle r) now))"
proof -
  define c where "c = clearPendingTransition (lr_lifecycle r)"
  define tr where "tr = \<lparr> tr_decision = [GateNormalUpstream, ClearOutputs, SendHello],
    tr_target = (cl_core c)\<lparr> co_state := LifecycleArrival,
      co_generation := co_generation (cl_core c) + 1, co_terminationMS := 0 \<rparr>,
    tr_deadline = HelloAfterDelivery \<rparr>"
  have c: "cl_nextMetadataTransferGeneration c = cl_nextMetadataTransferGeneration (lr_lifecycle r)"
    "cl_nextTransitionEpoch c = cl_nextTransitionEpoch (lr_lifecycle r)"
    by (simp_all add: c_def clearPendingTransition_def)
  have "\<exists>claim. fst (beginTransition c tr now) = Inr claim"
    if "cl_nextTransitionEpoch (lr_lifecycle r) \<noteq> NOT 0"
    using that begin_epoch [of c tr now] c(2) by (simp add: tr_def)
  then have "issues r (log_required r (beginTransition c tr now))"
    if "cl_nextTransitionEpoch (lr_lifecycle r) \<noteq> NOT 0"
    using that issues_begin [OF c(1)] by blast
  then show ?thesis
    unfolding ClaimRestartAfterUSBReset_def Let_def c_def [symmetric] tr_def [symmetric]
    by (simp add: issues_none_log split: option.split)
qed

lemma issues_claim:
  assumes "cl_pendingTransition (lr_lifecycle r)" "claimCurrentAction (lr_lifecycle r) now keep = (claim, c')"
  shows "issues r (log_required r (Inr claim, c'))"
    "issues r (log_required r (Inr claim, c'\<lparr> cl_retryPending := False \<rparr>))"
  using assms(1) claim_current(1,6,8) [OF assms(2)] claim_epoch [OF assms(2)]
  by (simp_all add: issues_def issues_again_def log_required_def same_plan_def Let_def)

lemma issues_resolve: "issues r (lifecycle_step (OpResolveAction claim outcome now) r)"
proof -
  obtain err c' where res: "lifecycle_Resolve (lr_lifecycle r) claim outcome now = (err, c')"
    by fastforce
  then have step: "lr_lifecycle (lifecycle_step (OpResolveAction claim outcome now) r) = c'"
    "lr_issued (lifecycle_step (OpResolveAction claim outcome now) r) = lr_issued r"
    by simp_all
  from res have "issues_none r (lifecycle_step (OpResolveAction claim outcome now) r)"
    unfolding issues_none_def Let_def step by (cases rule: resolve_cases) simp_all
  then show ?thesis unfolding issues_def by blast
qed

lemma issues_unlogged:
  "issues r (r\<lparr> lr_lifecycle := snd (lifecycle_Admit (lr_lifecycle r) claim now) \<rparr>)"
  "issues r (r\<lparr> lr_lifecycle := snd (MetadataTransferSucceeded (lr_lifecycle r) now fence) \<rparr>)"
  by (simp_all add: issues_def issues_none_def lifecycle_Admit_def MetadataTransferSucceeded_def Let_def
      split: option.split)

lemma step_issues: "issues r (lifecycle_step op r)"
proof (cases op)
  case (OpResolveAction claim outcome now)
  then show ?thesis by (simp only: issues_resolve)
qed (auto simp: ClaimPoll_def ClaimHostWire_def ClaimMetadataTransferFailed_def ClaimNextAction_def
      lifecycle_ClaimRetry_def issues_none_log issues_present issues_command issues_reset issues_begin
      issues_unlogged Let_def intro: issues_claim
      split: option.split sum.split ControllerLifecycleState.split prod.split)

text \<open>Claims of a metadata request: a request never shares its transfer generation with another
  transition.\<close>

definition request :: "lifecycle_run \<Rightarrow> ControllerLifecycleClaim \<Rightarrow> bool" where
  "request r x \<longleftrightarrow> x \<in> set (lr_issued r) \<and> lcm_action x = BeginMetadata"

definition request_inv :: "lifecycle_run \<Rightarrow> bool" where
  "request_inv r \<longleftrightarrow>
     (\<forall>x. request r x \<longrightarrow>
        lcm_metadataTransferGeneration x \<le> cl_nextMetadataTransferGeneration (lr_lifecycle r)) \<and>
     (cl_pendingTransition (lr_lifecycle r) \<and> plan (lr_lifecycle r) = [BeginMetadata] \<longrightarrow>
        (\<forall>x. request r x \<and> lcm_metadataTransferGeneration x =
             cl_nextMetadataTransferGeneration (lr_lifecycle r) \<longrightarrow>
           lcm_transitionEpoch x = cl_transitionEpoch (lr_lifecycle r))) \<and>
     (\<forall>x y. request r x \<and> request r y \<and>
        lcm_metadataTransferGeneration x = lcm_metadataTransferGeneration y \<longrightarrow>
        lcm_transitionEpoch x = lcm_transitionEpoch y)"

lemma request_invI:
  assumes "\<And>x. request r x \<Longrightarrow>
      lcm_metadataTransferGeneration x \<le> cl_nextMetadataTransferGeneration (lr_lifecycle r)"
    "\<And>x. cl_pendingTransition (lr_lifecycle r) \<Longrightarrow> plan (lr_lifecycle r) = [BeginMetadata] \<Longrightarrow> request r x \<Longrightarrow>
      lcm_metadataTransferGeneration x = cl_nextMetadataTransferGeneration (lr_lifecycle r) \<Longrightarrow>
      lcm_transitionEpoch x = cl_transitionEpoch (lr_lifecycle r)"
    "\<And>x y. request r x \<Longrightarrow> request r y \<Longrightarrow>
      lcm_metadataTransferGeneration x = lcm_metadataTransferGeneration y \<Longrightarrow>
      lcm_transitionEpoch x = lcm_transitionEpoch y"
  shows "request_inv r"
  unfolding request_inv_def using assms by blast

lemma request_invD:
  assumes "request_inv r"
  shows "request r x \<Longrightarrow>
      lcm_metadataTransferGeneration x \<le> cl_nextMetadataTransferGeneration (lr_lifecycle r)"
    "cl_pendingTransition (lr_lifecycle r) \<Longrightarrow> plan (lr_lifecycle r) = [BeginMetadata] \<Longrightarrow> request r x \<Longrightarrow>
      lcm_metadataTransferGeneration x = cl_nextMetadataTransferGeneration (lr_lifecycle r) \<Longrightarrow>
      lcm_transitionEpoch x = cl_transitionEpoch (lr_lifecycle r)"
    "request r x \<Longrightarrow> request r y \<Longrightarrow>
      lcm_metadataTransferGeneration x = lcm_metadataTransferGeneration y \<Longrightarrow>
      lcm_transitionEpoch x = lcm_transitionEpoch y"
  using assms unfolding request_inv_def by blast+

lemma request_append: "lr_issued r' = lr_issued r @ [claim] \<Longrightarrow>
    request r' x \<longleftrightarrow> request r x \<or> x = claim \<and> lcm_action claim = BeginMetadata"
  by (auto simp: request_def)

lemma request_same: "lr_issued r' = lr_issued r \<Longrightarrow> request r' = request r"
  by (simp add: request_def fun_eq_iff)

lemma request_inv_cong:
  assumes "request_inv r" "request r' = request r"
    "cl_nextMetadataTransferGeneration (lr_lifecycle r') = cl_nextMetadataTransferGeneration (lr_lifecycle r)"
    "cl_pendingTransition (lr_lifecycle r') \<Longrightarrow> plan (lr_lifecycle r') = [BeginMetadata] \<Longrightarrow>
       cl_pendingTransition (lr_lifecycle r) \<and> plan (lr_lifecycle r) = [BeginMetadata] \<and>
       cl_transitionEpoch (lr_lifecycle r') = cl_transitionEpoch (lr_lifecycle r)"
  shows "request_inv r'"
  using assms(1,4) unfolding request_inv_def assms(2,3) by metis

lemma begin_metadata_current:
  assumes "lifecycle_inv r" "cl_pendingTransition (lr_lifecycle r)"
    "currentAction (lr_lifecycle r) = BeginMetadata"
  shows "plan (lr_lifecycle r) = [BeginMetadata]"
    "co_metadataTransferGeneration (tr_target (cl_transition (lr_lifecycle r))) =
       cl_nextMetadataTransferGeneration (lr_lifecycle r)"
proof -
  obtain prev where p: "plan_ok (lr_lifecycle r) (cl_transition (lr_lifecycle r))
       (cl_nextMetadataTransferGeneration (lr_lifecycle r))"
    "lifecycle_edge (lstate (lr_lifecycle r)) (plan (lr_lifecycle r))
       (co_state (tr_target (cl_transition (lr_lifecycle r))))"
    "unat (cl_actionCursor (lr_lifecycle r)) < length (plan (lr_lifecycle r))"
    using pending_facts [OF assms(1,2)] by blast
  show "plan (lr_lifecycle r) = [BeginMetadata]"
    using edge_plan(4) [OF p(2,3)] current_nth [OF p(3)] assms(3) by simp
  then show "co_metadataTransferGeneration (tr_target (cl_transition (lr_lifecycle r))) =
      cl_nextMetadataTransferGeneration (lr_lifecycle r)" using p(1) by (simp add: plan_ok_def)
qed

lemma less_next:
  fixes n x :: u64
  assumes "n \<noteq> NOT 0" "x \<le> n"
  shows "x < n + 1"
proof -
  have "unat (1 + n) = Suc (unat n)" using assms(1) by (intro unatSuc) (auto simp: add_eq_0_iff)
  then show ?thesis using assms(2) by (simp add: word_less_nat_alt word_le_nat_alt add.commute)
qed

lemma request_step:
  assumes inv: "lifecycle_inv r" and req: "request_inv r" and iss: "issues r r'"
  shows "request_inv r'"
  using iss unfolding issues_def
proof (elim disjE)
  assume a: "issues_none r r'"
  note a = a [unfolded issues_none_def Let_def]
  show ?thesis
    by (rule request_inv_cong [OF req request_same]) (use a in \<open>simp_all\<close>)
next
  assume "issues_again r r'"
  then obtain claim where claim: "lr_issued r' = lr_issued r @ [claim]" "cl_pendingTransition (lr_lifecycle r)"
    "cl_nextMetadataTransferGeneration (lr_lifecycle r') = cl_nextMetadataTransferGeneration (lr_lifecycle r)"
    "cl_transition (lr_lifecycle r') = cl_transition (lr_lifecycle r)"
    "cl_transitionEpoch (lr_lifecycle r') = cl_transitionEpoch (lr_lifecycle r)"
    "lcm_transitionEpoch claim = cl_transitionEpoch (lr_lifecycle r)"
    "lcm_action claim = currentAction (lr_lifecycle r)"
    "lcm_action claim = BeginMetadata \<longrightarrow> lcm_metadataTransferGeneration claim =
       co_metadataTransferGeneration (tr_target (cl_transition (lr_lifecycle r)))"
    unfolding issues_again_def Let_def by metis
  note app = request_append [OF claim(1)]
  show ?thesis
  proof (cases "lcm_action claim = BeginMetadata")
    case True
    note m = begin_metadata_current [OF inv claim(2), folded claim(7), OF True]
    have new: "lcm_metadataTransferGeneration claim = cl_nextMetadataTransferGeneration (lr_lifecycle r)"
      using claim(8) True m(2) by simp
    show ?thesis
    proof (rule request_invI)
      fix x assume "request r' x"
      then show "lcm_metadataTransferGeneration x \<le> cl_nextMetadataTransferGeneration (lr_lifecycle r')"
        using app new claim(3) request_invD(1) [OF req, of x] by auto
    next
      fix x assume "request r' x"
        "lcm_metadataTransferGeneration x = cl_nextMetadataTransferGeneration (lr_lifecycle r')"
      then show "lcm_transitionEpoch x = cl_transitionEpoch (lr_lifecycle r')"
        using app claim(2,3,5,6) m(1) request_invD(2) [OF req, of x] by auto
    next
      fix x y assume a: "request r' x" "request r' y"
        "lcm_metadataTransferGeneration x = lcm_metadataTransferGeneration y"
      have "lcm_transitionEpoch z = cl_transitionEpoch (lr_lifecycle r)"
        if "request r z" "lcm_metadataTransferGeneration z = lcm_metadataTransferGeneration claim" for z
        using that new m(1) claim(2) request_invD(2) [OF req, of z] by simp
      then show "lcm_transitionEpoch x = lcm_transitionEpoch y"
        using a app claim(6) request_invD(3) [OF req, of x y] by metis
    qed
  next
    case False
    then have same: "request r' = request r" using app by (simp add: fun_eq_iff)
    show ?thesis
      by (rule request_inv_cong [OF req same]) (use claim(2-5) in \<open>simp_all\<close>)
  qed
next
  assume "issues_fresh r r'"
  then obtain claim where claim: "lr_issued r' = lr_issued r @ [claim]"
    and n: "if lcm_action claim = BeginMetadata
        then cl_nextMetadataTransferGeneration (lr_lifecycle r) \<noteq> NOT 0 \<and>
          cl_nextMetadataTransferGeneration (lr_lifecycle r') =
            cl_nextMetadataTransferGeneration (lr_lifecycle r) + 1 \<and>
          lcm_metadataTransferGeneration claim = cl_nextMetadataTransferGeneration (lr_lifecycle r) + 1 \<and>
          lcm_transitionEpoch claim = cl_transitionEpoch (lr_lifecycle r')
        else cl_nextMetadataTransferGeneration (lr_lifecycle r') =
            cl_nextMetadataTransferGeneration (lr_lifecycle r) \<and> plan (lr_lifecycle r') \<noteq> [BeginMetadata]"
    unfolding issues_fresh_def Let_def by blast
  note app = request_append [OF claim]
  show ?thesis
  proof (cases "lcm_action claim = BeginMetadata")
    case True
    have new: "lcm_metadataTransferGeneration claim = cl_nextMetadataTransferGeneration (lr_lifecycle r')"
      "lcm_transitionEpoch claim = cl_transitionEpoch (lr_lifecycle r')" using n True by simp_all
    have old: "lcm_metadataTransferGeneration x < cl_nextMetadataTransferGeneration (lr_lifecycle r')"
      if "request r x" for x
    proof -
      have "lcm_metadataTransferGeneration x \<le> cl_nextMetadataTransferGeneration (lr_lifecycle r)"
        using req that unfolding request_inv_def by blast
      then show ?thesis using n True less_next by simp
    qed
    show ?thesis
    proof (rule request_invI)
      fix x assume "request r' x"
      then show "lcm_metadataTransferGeneration x \<le> cl_nextMetadataTransferGeneration (lr_lifecycle r')"
        using app old new(1) by (auto intro: less_imp_le)
    next
      fix x assume "request r' x"
        "lcm_metadataTransferGeneration x = cl_nextMetadataTransferGeneration (lr_lifecycle r')"
      then show "lcm_transitionEpoch x = cl_transitionEpoch (lr_lifecycle r')"
        using app old new(2) by fastforce
    next
      fix x y assume "request r' x" "request r' y"
        "lcm_metadataTransferGeneration x = lcm_metadataTransferGeneration y"
      then show "lcm_transitionEpoch x = lcm_transitionEpoch y"
        using app old new(1) request_invD(3) [OF req] by (metis less_irrefl)
    qed
  next
    case False
    then have same: "request r' = request r" using app by (simp add: fun_eq_iff)
    show ?thesis
      by (rule request_inv_cong [OF req same]) (use n False in \<open>simp_all\<close>)
  qed
qed

interpretation request_machine: op_machine lifecycle_step "\<lambda>r. lifecycle_inv r \<and> request_inv r"
    "lifecycle_start self now" for self now
  by unfold_locales
    (use lifecycle_step_inv request_step step_issues in \<open>blast\<close>,
     simp add: lifecycle_start_inv request_inv_def request_def, simp add: lifecycle_start_def)


lemma newest_request:
  assumes "newest_fence (lr_issued r) = Some fence"
  obtains x where "request r x" "claim_MetadataTransferFence x = Some fence"
proof -
  let ?w = "filter (\<lambda>x. lcm_action x = BeginMetadata) (lr_issued r)"
  have "?w \<noteq> []" "claim_MetadataTransferFence (last ?w) = Some fence"
    using assms by (auto simp: newest_fence_def Let_def split: if_splits)
  moreover from this have "last ?w \<in> set ?w" by (intro last_in_set)
  ultimately show thesis using that [of "last ?w"] by (simp add: request_def)
qed

text \<open>C16: a metadata result, success or failure, is accepted only for the newest metadata request.
  The accepted fence is the one that a claim of this request carried, and every claim of another
  request, whether it was delivered or discarded by a reset, names a smaller transfer generation,
  so its result is never taken for this one.\<close>

theorem metadata_result_newest:
  assumes "r = lifecycle_runs ops self now"
    and "fst (MetadataTransferSucceeded (lr_lifecycle r) t fence) = None \<or>
         (\<exists>claim. fst (ClaimMetadataTransferFailed (lr_lifecycle r) t fence) = Inr claim)"
  shows "\<exists>x. request r x \<and> claim_MetadataTransferFence x = Some fence \<and>
    (\<forall>y. request r y \<and> lcm_transitionEpoch y \<noteq> lcm_transitionEpoch x \<longrightarrow>
       lcm_metadataTransferGeneration y < mf_TransferGeneration fence)"
proof -
  let ?c = "lr_lifecycle r"
  have inv: "lifecycle_inv r" "request_inv r"
    using request_machine.inv_run [of ops self now] assms(1) by (simp_all add: lifecycle_runs_def)
  have acc: "\<not> cl_pendingTransition ?c" "lstate ?c = LifecycleMetadata" "\<not> stale_fence ?c fence"
    using assms(2) no_transition [of ?c t]
    by (auto simp: MetadataTransferSucceeded_def ClaimMetadataTransferFailed_def
        split: option.splits if_splits)
  then have "newest_fence (lr_issued r) = Some fence"
    and gen: "mf_TransferGeneration fence = cl_nextMetadataTransferGeneration ?c"
    using inv(1) by (simp_all add: lifecycle_inv_def fence_inv_def stale_fence_def Let_def)
  then obtain x where x: "request r x" "claim_MetadataTransferFence x = Some fence"
    using newest_request by blast
  then have "lcm_metadataTransferGeneration x = mf_TransferGeneration fence"
    by (auto simp: claim_MetadataTransferFence_def split: if_splits)
  then show ?thesis
    using x gen request_invD(1,3) [OF inv(2)] by (metis order_le_less)
qed

text \<open>A metadata request whose action is delivered, and its success report.\<close>

definition request_claim :: ControllerLifecycleClaim where
  "request_claim = \<lparr> lcm_owner = Some 3, lcm_token = 1, lcm_generation = 1,
     lcm_transitionEpoch = 1, lcm_metadataTransferGeneration = 1, lcm_action = BeginMetadata,
     lcm_cursor = 0, lcm_totalActions = 1, lcm_selectedAtMS = 20 \<rparr>"

definition request_ops :: "lifecycle_op list" where
  "request_ops = [OpCommand 20 \<lparr> hc_Kind = 1, hc_Sequence = 1, hc_State = 0 \<rparr>,
     OpAdmitAction request_claim 20, OpResolveAction request_claim LifecycleDelivered 20]"

theorem metadata_result_newest_witness:
  "fst (MetadataTransferSucceeded (lr_lifecycle (lifecycle_runs request_ops 3 10)) 30
      \<lparr> mf_TransportGeneration = 1, mf_TransferGeneration = 1 \<rparr>) = None \<and>
   (\<exists>x. request (lifecycle_runs request_ops 3 10) x \<and> claim_MetadataTransferFence x =
      Some \<lparr> mf_TransportGeneration = 1, mf_TransferGeneration = 1 \<rparr>)"
proof -
  have a: "fst (MetadataTransferSucceeded (lr_lifecycle (lifecycle_runs request_ops 3 10)) 30
      \<lparr> mf_TransportGeneration = 1, mf_TransferGeneration = 1 \<rparr>) = None" by code_simp
  then show ?thesis using metadata_result_newest [OF refl disjI1 [OF a]] by blast
qed

section \<open>Every transition can be finished\<close>

text \<open>One round of a cooperative executor: the current action is claimed unless a claim is out,
  admitted unless it is admitted already, and reported as delivered.\<close>

definition lifecycle_round :: "u64 \<Rightarrow> lifecycle_run \<Rightarrow> lifecycle_run" where
  "lifecycle_round t r =
     (let c = lr_lifecycle r;
          r1 = (if cl_hasClaim c then r
                else if cl_retryPending c then lifecycle_step (OpRetryAction t) r
                else lifecycle_step (OpNextAction t) r);
          claim = last (lr_issued r1);
          r2 = (if cl_claimAdmitted (lr_lifecycle r1) then r1
                else lifecycle_step (OpAdmitAction claim t) r1)
      in lifecycle_step (OpResolveAction claim LifecycleDelivered t) r2)"


text \<open>The claim of a round: the run with a claim out for the current action.\<close>

lemma round_claimed:
  assumes inv: "lifecycle_inv r" and pend: "cl_pendingTransition (lr_lifecycle r)"
    and now: "cl_lastNowMS (lr_lifecycle r) \<le> t" and none: "\<not> cl_hasClaim (lr_lifecycle r)"
  defines "r1 \<equiv> (if cl_retryPending (lr_lifecycle r) then lifecycle_step (OpRetryAction t) r
      else lifecycle_step (OpNextAction t) r)"
  shows "same_plan (lr_lifecycle r) (lr_lifecycle r1)" "cl_hasClaim (lr_lifecycle r1)"
    "cl_lastNowMS (lr_lifecycle r1) \<le> t"
proof -
  let ?c = "lr_lifecycle r"
  obtain claim c' where cc: "claimCurrentAction ?c t (cl_retryPending ?c) = (claim, c')" by fastforce
  have "lifecycle_validateClock ?c t = None" using now by (simp add: lifecycle_validateClock_def)
  then have "lr_lifecycle r1 = c' \<or> lr_lifecycle r1 = c'\<lparr> cl_retryPending := False \<rparr>"
    using inv_init [OF inv] pend none cc
    by (auto simp: r1_def ClaimNextAction_def lifecycle_ClaimRetry_def)
  then show "same_plan ?c (lr_lifecycle r1)" "cl_hasClaim (lr_lifecycle r1)"
    "cl_lastNowMS (lr_lifecycle r1) \<le> t"
    using claim_current(1,2,4) [OF cc] by (auto simp: same_plan_def)
qed

lemma admit_valid:
  assumes "lifecycle_validateClaim c claim = None" "\<not> cl_claimAdmitted c" "cl_lastNowMS c \<le> t"
  shows "lifecycle_Admit c claim t = (Inr True, c\<lparr> cl_lastNowMS := t, cl_claimAdmitted := True \<rparr>)"
  using assms by (simp add: lifecycle_Admit_def lifecycle_validateClock_def not_less)

lemma validateClaim_admitted [simp]:
  "lifecycle_validateClaim (c\<lparr> cl_lastNowMS := t, cl_claimAdmitted := b \<rparr>) = lifecycle_validateClaim c"
  by (rule ext) (simp add: lifecycle_validateClaim_def currentAction_def)

lemma resolve_valid:
  assumes "lifecycle_validateClaim c claim = None" "cl_claimAdmitted c" "cl_lastNowMS c \<le> t"
  shows "cl_lastNowMS (snd (lifecycle_Resolve c claim LifecycleDelivered t)) = t"
    "if cl_actionCursor c + 1 < decision_Len (plan c)
     then cl_pendingTransition (snd (lifecycle_Resolve c claim LifecycleDelivered t)) = cl_pendingTransition c \<and>
       cl_transition (snd (lifecycle_Resolve c claim LifecycleDelivered t)) = cl_transition c \<and>
       cl_actionCursor (snd (lifecycle_Resolve c claim LifecycleDelivered t)) = cl_actionCursor c + 1
     else \<not> cl_pendingTransition (snd (lifecycle_Resolve c claim LifecycleDelivered t)) \<and>
       lstate (snd (lifecycle_Resolve c claim LifecycleDelivered t)) = co_state (tr_target (cl_transition c))"
  using assms leD [OF assms(3)]
  by (simp_all add: lifecycle_Resolve_def clearPendingTransition_def Let_def)

lemma round_inv: "lifecycle_inv r \<Longrightarrow> lifecycle_inv (lifecycle_round t r)"
  by (simp add: lifecycle_round_def Let_def lifecycle_step_inv del: lifecycle_step.simps)

lemma resolve_step:
  "lr_lifecycle (lifecycle_step (OpResolveAction claim outcome t) r) =
     snd (lifecycle_Resolve (lr_lifecycle r) claim outcome t)"
  by (simp split: prod.split)

lemma round_progress:
  assumes inv: "lifecycle_inv r" and pend: "cl_pendingTransition (lr_lifecycle r)"
    and now: "cl_lastNowMS (lr_lifecycle r) \<le> t"
  defines "c \<equiv> lr_lifecycle r" and "c' \<equiv> lr_lifecycle (lifecycle_round t r)"
  shows "cl_lastNowMS c' = t"
    "if Suc (unat (cl_actionCursor c)) < length (plan c)
     then cl_pendingTransition c' \<and> cl_transition c' = cl_transition c \<and>
       unat (cl_actionCursor c') = Suc (unat (cl_actionCursor c))
     else \<not> cl_pendingTransition c' \<and> lstate c' = co_state (tr_target (cl_transition c))"
proof -
  define r1 where "r1 = (if cl_hasClaim c then r
      else if cl_retryPending c then lifecycle_step (OpRetryAction t) r
      else lifecycle_step (OpNextAction t) r)"
  define claim where "claim = last (lr_issued r1)"
  define r2 where "r2 = (if cl_claimAdmitted (lr_lifecycle r1) then r1
      else lifecycle_step (OpAdmitAction claim t) r1)"
  have r1: "lifecycle_inv r1" "same_plan c (lr_lifecycle r1)" "cl_hasClaim (lr_lifecycle r1)"
    "cl_lastNowMS (lr_lifecycle r1) \<le> t"
    using inv now round_claimed [OF inv pend now] lifecycle_step_inv
    by (auto simp: r1_def c_def simp del: lifecycle_step.simps)
  then have v1: "lifecycle_validateClaim (lr_lifecycle r1) claim = None"
    by (simp add: lifecycle_inv_def core_inv_def claim_def Let_def)
  have r2: "lifecycle_validateClaim (lr_lifecycle r2) claim = None" "cl_claimAdmitted (lr_lifecycle r2)"
    "cl_lastNowMS (lr_lifecycle r2) \<le> t" "same_plan c (lr_lifecycle r2)"
    using v1 r1 admit_valid [OF v1] by (auto simp: r2_def same_plan_def)
  have c': "c' = snd (lifecycle_Resolve (lr_lifecycle r2) claim LifecycleDelivered t)"
    unfolding c'_def lifecycle_round_def Let_def r1_def [folded c_def, symmetric]
      claim_def [symmetric] r2_def [symmetric] c_def [symmetric] resolve_step ..
  obtain prev where "unat (cl_actionCursor c) < length (plan c)" "length (plan c) \<le> 3"
    using pending_facts [OF inv pend] unfolding c_def by blast
  note m = cursor_more [OF this]
  show "cl_lastNowMS c' = t" unfolding c' by (rule resolve_valid(1) [OF r2(1-3)])
  show "if Suc (unat (cl_actionCursor c)) < length (plan c)
     then cl_pendingTransition c' \<and> cl_transition c' = cl_transition c \<and>
       unat (cl_actionCursor c') = Suc (unat (cl_actionCursor c))
     else \<not> cl_pendingTransition c' \<and> lstate c' = co_state (tr_target (cl_transition c))"
    using resolve_valid(2) [OF r2(1-3)] r2(4) m pend
    unfolding c' same_plan_def c_def [symmetric] by auto
qed


lemma rounds_finish:
  assumes "lifecycle_inv r" "cl_pendingTransition (lr_lifecycle r)" "cl_lastNowMS (lr_lifecycle r) \<le> t"
    "length (plan (lr_lifecycle r)) - unat (cl_actionCursor (lr_lifecycle r)) = n"
  shows "\<exists>k \<le> n. \<not> cl_pendingTransition (lr_lifecycle ((lifecycle_round t ^^ k) r)) \<and>
    lstate (lr_lifecycle ((lifecycle_round t ^^ k) r)) =
      co_state (tr_target (cl_transition (lr_lifecycle r)))"
  using assms
proof (induction n arbitrary: r)
  case 0
  then show ?case using pending_facts [OF 0(1,2)] by (metis diff_is_0_eq not_le)
next
  case (Suc n)
  let ?c = "lr_lifecycle r" and ?r = "lifecycle_round t r"
  note p = round_progress [OF Suc.prems(1-3)]
  show ?case
  proof (cases "Suc (unat (cl_actionCursor ?c)) < length (plan ?c)")
    case True
    then have q: "cl_pendingTransition (lr_lifecycle ?r)" "cl_transition (lr_lifecycle ?r) = cl_transition ?c"
      "unat (cl_actionCursor (lr_lifecycle ?r)) = Suc (unat (cl_actionCursor ?c))" using p(2) by simp_all
    then have "length (plan (lr_lifecycle ?r)) - unat (cl_actionCursor (lr_lifecycle ?r)) = n"
      using Suc.prems(4) by simp
    from Suc.IH [OF round_inv [OF Suc.prems(1)] q(1) _ this] obtain k where
      "k \<le> n" "\<not> cl_pendingTransition (lr_lifecycle ((lifecycle_round t ^^ Suc k) r))"
      "lstate (lr_lifecycle ((lifecycle_round t ^^ Suc k) r)) = co_state (tr_target (cl_transition ?c))"
      using p(1) q(2) unfolding funpow_Suc_right comp_apply by auto
    then show ?thesis by (intro exI [of _ "Suc k"]) simp
  next
    case False
    then show ?thesis using p(2) by (intro exI [of _ 1]) simp
  qed
qed

text \<open>C17: no reachable lifecycle is stuck. From every run, whatever claims are out, admitted,
  deferred or failed, at most three rounds of an executor that claims, admits and delivers finish
  the pending transition and commit its target state.\<close>

theorem lifecycle_settles:
  assumes "r = lifecycle_runs ops self now" "cl_pendingTransition (lr_lifecycle r)"
    "cl_lastNowMS (lr_lifecycle r) \<le> t"
  shows "\<exists>k \<le> 3. \<not> cl_pendingTransition (lr_lifecycle ((lifecycle_round t ^^ k) r)) \<and>
    co_state (cl_core (lr_lifecycle ((lifecycle_round t ^^ k) r))) =
      co_state (tr_target (cl_transition (lr_lifecycle r)))"
proof -
  have inv: "lifecycle_inv r" using assms(1) lifecycle_runs_inv by simp
  have "length (plan (lr_lifecycle r)) - unat (cl_actionCursor (lr_lifecycle r)) \<le> 3"
    using pending_facts [OF inv assms(2)] by (metis diff_le_self le_trans)
  then show ?thesis using rounds_finish [OF inv assms(2,3) refl] by (meson le_trans)
qed

theorem lifecycle_settles_witness:
  "let r = lifecycle_runs (take 3 start_ops) 3 10 in
   cl_pendingTransition (lr_lifecycle r) \<and>
   (\<exists>k \<le> 3. lstate (lr_lifecycle ((lifecycle_round 40 ^^ k) r)) = LifecycleActive)"
proof -
  define r where "r = lifecycle_runs (take 3 start_ops) 3 10"
  have p: "cl_pendingTransition (lr_lifecycle r)" "cl_lastNowMS (lr_lifecycle r) \<le> 40"
    "co_state (tr_target (cl_transition (lr_lifecycle r))) = LifecycleActive"
    unfolding r_def by code_simp+
  then show ?thesis
    using lifecycle_settles [OF r_def p(1,2)] unfolding r_def [symmetric] Let_def by auto
qed


end
