(* ===== verification/Spec2Isabelle.thy ===== *)
theory Spec2Isabelle
  imports Urb_Stream Microphone_Buffer Input_Channel Hid_Devices Feedback_Runtime Feedback_Clock
    Export_Identity Virtual_Bus_Safety Gip_Wire Gip_Downstream Gip_Sequence Gip_Metadata_Liveness
    Gip_Lifecycle_Safety
begin

text \<open>
  VIIPER presents virtual USB input devices to a host over USB/IP. A client sends the state of a
  controller, keyboard or mouse to a device; the device registers on a virtual bus; the server
  exports the devices of the bus by the USB/IP protocol and turns the host's transfers into calls
  of the device; feedback from games flows back through an arbitration of its own. This library
  models the parts of that program in which correctness is a matter of protocol, order or
  arithmetic. All paths below are under \<^verbatim>\<open>src/\<close>.

  \<^bold>\<open>Conventions.\<close> A Go struct is a record whose fields carry a prefix, an enumeration is a datatype
  or, where every byte of a message must be a value, a byte. Unsigned integers of \<open>n\<close> bits are
  \<open>n\<close>-bit words with their wrap-around; \<open>int\<close> is \<open>int\<close>, a length or an index a \<open>nat\<close>. A byte
  slice is a list of 8-bit words. An error is a constructor of an error datatype in \<open>Inl\<close>, or in an
  option when there is no result. A method that changes its receiver returns it; a method that
  fills a caller's slice returns the slice. A pointer is an address or an index: a claim that binds
  its owner by pointer holds the owner's address. A critical section of a mutex is one step. Time
  is an argument.

  \<^bold>\<open>The parts and their theories.\<close>

  \<^item> \<open>Go_Prelude\<close>: byte order, slices, readers, writers and the locales that the components share:
    fixed-width decoders, and machines driven by a list of operations (\<open>op_invariant\<close>,
    \<open>op_machine\<close>), which are interpreted for the feedback runtime, the sequence counter, the
    metadata transfer and the lifecycle.
  \<^item> \<open>Usbip_Wire\<close> (\<^verbatim>\<open>usbip/usbip.go\<close>): all wire structures, their \<open>Write\<close> methods over a writer that
    may fail, the isochronous descriptors, and \<^verbatim>\<open>ReadExactly\<close> and \<^verbatim>\<open>io.ReadFull\<close> over a reader that
    returns any segmentation. Shown: what a failing connection has received, and that reading ends
    with the first \<open>n\<close> bytes of the stream or with its error.
  \<^item> \<open>Urb_Stream\<close> (\<^verbatim>\<open>internal/server/usb\<close>: \<^verbatim>\<open>readIsoPacketDescriptors\<close>, \<^verbatim>\<open>decodeIsoPacketDescriptors\<close>,
    \<^verbatim>\<open>buildRetSubmitPacket\<close>): the descriptors of a submission and the packet that answers it. Shown:
    descriptors written to a connection are read back exactly, a connection that ends within them is
    an error, and the answer consists of what the \<open>Write\<close> methods write.
  \<^item> \<open>Export_Identity\<close> (\<^verbatim>\<open>usbip/export_identity.go\<close>): export names and aliases; every generated alias
    is valid, read back exactly, and different entropy gives different aliases.
  \<^item> \<open>Virtual_Bus\<close>, \<open>Virtual_Bus_Runs\<close>, \<open>Virtual_Bus_Safety\<close> (\<^verbatim>\<open>virtualbus/virtualbus.go\<close>):
    registrations, snapshots, operation leases, removal and closing, first as functions, one per
    critical section, then as a step relation over all interleavings. Shown by rule induction: a
    lease keeps its registration alive and its context uncancelled, a snapshot of a removed
    registration is powerless, addresses and names are exact and distinct, the smallest free
    address is given, a closed bus is drained, and closing can always complete.
  \<^item> \<open>Input_Channel\<close> and \<open>Hid_Devices\<close> (\<^verbatim>\<open>device/keyboard\<close>, \<^verbatim>\<open>device/mouse\<close>): the one-element channel
    between a device's client and its transfers, with its interleavings, and the two devices over
    it: state codecs, reports, LEDs, typing, stream readers. The runs of the keyboard's own
    operations are simulated by runs of the channel. Shown: reports are published states in
    order and none is lost at rest, relative motion is reported once, streams round-trip.
  \<^item> \<open>Microphone_Buffer\<close> (\<^verbatim>\<open>device/internal/microphonebuffer/buffer.go\<close>): the PCM ring buffer with its
    servo. Shown: it refines a byte queue, every byte is delivered, buffered or counted as dropped,
    and what each operation does on each branch.
  \<^item> \<open>Feedback_Frame\<close>, \<open>Feedback_Mailbox\<close>, \<open>Feedback_Runtime\<close>, \<open>Feedback_Clock\<close>
    (\<^verbatim>\<open>controllerfeedback/\<close>): the frame codec, the latest-value mailbox with its claim cursor, the
    arbitration of four publishers under one writer lease, and the clock conversion. Shown: the
    decoder accepts exactly the images of valid frames; a frame is delivered at most once, fresh
    and newest; an output that may have actuated is stopped before its successor; a due stop can
    always be delivered; where the clock conversion is exact and where it wraps.
  \<^item> \<open>Gip_Header\<close>, \<open>Gip_Input\<close>, \<open>Gip_Status\<close>, \<open>Gip_Commands\<close>, \<open>Gip_Wire\<close>, \<open>Gip_Downstream\<close>
    (\<^verbatim>\<open>device/xboxone/\<close>: \<^verbatim>\<open>header.go\<close>, \<^verbatim>\<open>model.go\<close>, \<^verbatim>\<open>input_body.go\<close>, \<^verbatim>\<open>status_body.go\<close>,
    \<^verbatim>\<open>guide_status.go\<close>, \<^verbatim>\<open>hello.go\<close>, \<^verbatim>\<open>rumble_body.go\<close>, \<^verbatim>\<open>guide_led.go\<close>, \<^verbatim>\<open>protocol_control.go\<close>,
    \<^verbatim>\<open>downstream.go\<close>): the messages of the Xbox One protocol. The locale \<open>exact_codec\<close> says what a
    codec promises and is interpreted for each message; a data packet is cut into messages in
    exactly one way, and a failing encoder leaves its destination alone.
  \<^item> \<open>Gip_Sequence\<close> (\<^verbatim>\<open>session.go\<close>): sequence pools and the authentication boundary. Delivered values
    are consecutive without zero, and after a reset no earlier claim is
    admitted or resolved.
  \<^item> \<open>Gip_Metadata\<close>, \<open>Gip_Metadata_Packets\<close>, \<open>Gip_Metadata_Runs\<close>, \<open>Gip_Metadata_Liveness\<close>
    (\<^verbatim>\<open>metadata.go\<close>): the reliable metadata transfer. A receiver that writes each delivered packet at
    the offset its header names ends up with exactly the metadata, under any operations with claims
    and acknowledgements of any origin; with a transport that delivers and a host
    that acknowledges within the deadline, at times of a moving clock, the transfer ends.
  \<^item> \<open>Gip_Lifecycle\<close>, \<open>Gip_Lifecycle_Runs\<close>, \<open>Gip_Lifecycle_Safety\<close> (\<^verbatim>\<open>lifecycle.go\<close>): the controller
    lifecycle. It refines the state diagram \<open>lifecycle_edge\<close>; normal input is open exactly in Active;
    a metadata result counts only for the newest request; every transition can be finished.

  \<^bold>\<open>Interaction.\<close> The metadata transfer builds its packets with the header codec and takes
  acknowledgements from the acknowledgement codec; the lifecycle takes the host commands that the
  message layer decodes, and its metadata fence carries the generation a transfer is started with;
  the bus uses the export identities and the export metadata of the wire format; the devices use
  the channel; the runtime uses frames and the mailbox's frame ordering.

  \<^bold>\<open>Bounds.\<close> No definition uses fuel: loops are structural recursion, or recursion on a measure with
  a termination proof (\<open>packet_loop\<close> on the remaining bytes, decimal digits on the number); the two
  read loops, which a reader without progress would keep running, are partial functions, shown to
  return on every connection. The
  liveness results count steps: a metadata transfer of \<open>n\<close> bytes needs at most
  \<open>(n + 57) div 58 + 1\<close> exchanges because a fragment carries 58 bytes, and a lifecycle transition at
  most three rounds because a plan has at most three actions.

  \<^bold>\<open>Findings.\<close> \<open>New_shares_number\<close>: two buses can share a number that a comment calls unique.
  \<open>qpcToMicroseconds_wraps\<close>: the clock conversion wraps, which a comment excludes,
  at exactly the frequencies from 3 to 999999 ticks per second.
  \<open>keyboard_full_bitmap_lost\<close>: a keyboard state with all 256 keys down does not survive its codec.

  \<^bold>\<open>Not modelled.\<close> The rest of the USB/IP server and the API server (\<^verbatim>\<open>internal/server\<close>): sockets, deadlines and
  goroutines around the modelled bus and wire format. The Xbox One persona and retained USB engine,
  which compose lifecycle, metadata and sequence pools behind the server's callbacks, with the
  descriptor images and the metadata compiler. The DualSense, DualShock 4, Switch 2 Pro and Xbox
  360 devices; the USB and HID descriptor serialisers and the descriptor literals of the modelled
  devices; the input presentation scheduler, the retained device contract and the registry of
  authorised devices. Operating-system code: the clock readers, the kernel-driver transport, the
  tray, the installers, configuration paths and logging. The traffic proxy, the client library, the
  C bindings and the code generators, which are input and output or build-time tools. In the
  modelled packages: calls on nil receivers, read-only snapshots and one-line accessors. The
  authentication provider, the entropy source and the clock are arguments.
\<close>

end
